(* ===== verification/Prelude.thy ===== *)
theory Prelude
  imports Main "HOL-Library.Word" "HOL-Library.Signed_Division"
begin

text \<open>
  Shared vocabulary of the development: the result type that carries every way a Nachos
  routine can stop (a failed \<^verbatim>\<open>ASSERT\<close>, see src/threads/utility.h, or an access that
  C++ leaves undefined), checked array access, the machine types of the 32-bit host
  (src/Makefile.dep builds with \<^verbatim>\<open>HOST_i386\<close>), and generic lemmas on lists, integers and
  little-endian words that the component theories use.
\<close>

unbundle bit_operations_syntax

named_theorems result_simps \<open>rewriting under the result monad\<close>
named_theorems frame_simps \<open>fields an operation leaves alone\<close>

subsection \<open>Machine types\<close>

type_synonym byte = "8 word"
type_synonym u16 = "16 word"
type_synonym u32 = "32 word"

subsection \<open>Results\<close>

text \<open>
  \<^verbatim>\<open>ASSERT(c)\<close> prints a message and calls \<^verbatim>\<open>Abort()\<close> when \<open>c\<close> is false; the other faults are
  what the host does where the source has no check.
\<close>

datatype fault =
    AssertFailed      \<comment> \<open>an ASSERT of the source\<close>
  | NullDeref         \<comment> \<open>a call or access through NULL\<close>
  | OutOfBounds       \<comment> \<open>an array access outside the array\<close>
  | Uninitialised     \<comment> \<open>a read of a local that was never assigned\<close>
  | DanglingPointer   \<comment> \<open>a read through a pointer that points to nothing\<close>
  | SignedOverflow    \<comment> \<open>int arithmetic outside the range of a 32-bit int\<close>
  | DivideFault       \<comment> \<open>the host's trap on INT_MIN / -1\<close>
  | Diverges          \<comment> \<open>a loop that never ends\<close>
  | Halted            \<comment> \<open>Interrupt::Halt was called\<close>
  | ContextSwitch     \<comment> \<open>another thread would get the CPU\<close>

datatype 'a result = Ok 'a | Err fault

fun rbind :: "'a result \<Rightarrow> ('a \<Rightarrow> 'b result) \<Rightarrow> 'b result" where
  "rbind (Ok x) f = f x"
| "rbind (Err e) f = Err e"

definition ASSERT :: "bool \<Rightarrow> 'a result \<Rightarrow> 'a result" where
  "ASSERT c r = (if c then r else Err AssertFailed)"

lemma rbind_cong [fundef_cong]:
  "m = m' \<Longrightarrow> (\<And>x. m' = Ok x \<Longrightarrow> f x = g x) \<Longrightarrow> rbind m f = rbind m' g"
  by (cases m') auto

lemma rbind_eq_Ok [result_simps]: "rbind m f = Ok y \<longleftrightarrow> (\<exists>x. m = Ok x \<and> f x = Ok y)"
  by (cases m) auto

lemma rbind_eq_Err: "rbind m f = Err e \<longleftrightarrow> m = Err e \<or> (\<exists>x. m = Ok x \<and> f x = Err e)"
  by (cases m) auto

lemma rbind_assoc: "rbind (rbind m f) g = rbind m (\<lambda>x. rbind (f x) g)"
  by (cases m) auto

lemma rbind_Ok_right [simp]: "rbind m Ok = m"
  by (cases m) auto

lemma ASSERT_True [simp]: "ASSERT True r = r"
  by (simp add: ASSERT_def)

lemma ASSERT_False [simp]: "ASSERT False r = Err AssertFailed"
  by (simp add: ASSERT_def)

lemma ASSERT_eq_Ok [result_simps]: "ASSERT c r = Ok y \<longleftrightarrow> c \<and> r = Ok y"
  by (simp add: ASSERT_def)

lemma ASSERT_cong [fundef_cong]:
  "c = c' \<Longrightarrow> (c' \<Longrightarrow> r = r') \<Longrightarrow> ASSERT c r = ASSERT c' r'"
  by (simp add: ASSERT_def)

definition is_ok :: "'a result \<Rightarrow> bool" where
  "is_ok r \<longleftrightarrow> (\<exists>x. r = Ok x)"

lemma is_ok_simps [simp]: "is_ok (Ok x)" "\<not> is_ok (Err e)"
  by (auto simp: is_ok_def)

text \<open>The outcome of a loop that may run for ever.\<close>

definition loop_result :: "'a result option \<Rightarrow> 'a result" where
  "loop_result r = (case r of None \<Rightarrow> Err Diverges | Some r \<Rightarrow> r)"

lemma loop_result_simps [simp]: "loop_result None = Err Diverges" "loop_result (Some r) = r"
  by (simp_all add: loop_result_def)

lemma loop_result_eq_Ok [result_simps]: "loop_result r = Ok x \<longleftrightarrow> r = Some (Ok x)"
  by (cases r) simp_all

subsection \<open>Arrays\<close>

text \<open>An array access with a C int index; outside the array the behaviour is undefined.\<close>

definition aget :: "'a list \<Rightarrow> int \<Rightarrow> 'a result" where
  "aget xs i = (if 0 \<le> i \<and> i < int (length xs) then Ok (xs ! nat i) else Err OutOfBounds)"

definition aset :: "'a list \<Rightarrow> int \<Rightarrow> 'a \<Rightarrow> 'a list result" where
  "aset xs i v =
     (if 0 \<le> i \<and> i < int (length xs) then Ok (xs[nat i := v]) else Err OutOfBounds)"

lemma aget_Ok [simp]: "0 \<le> i \<Longrightarrow> i < int (length xs) \<Longrightarrow> aget xs i = Ok (xs ! nat i)"
  by (simp add: aget_def)

lemma aget_eq_Ok [result_simps]:
  "aget xs i = Ok x \<longleftrightarrow> 0 \<le> i \<and> i < int (length xs) \<and> x = xs ! nat i"
  by (auto simp: aget_def)

lemma aset_Ok [simp]: "0 \<le> i \<Longrightarrow> i < int (length xs) \<Longrightarrow> aset xs i v = Ok (xs[nat i := v])"
  by (simp add: aset_def)

lemma aset_eq_Ok [result_simps]:
  "aset xs i v = Ok ys \<longleftrightarrow> 0 \<le> i \<and> i < int (length xs) \<and> ys = xs[nat i := v]"
  by (auto simp: aset_def)

subsection \<open>C arithmetic\<close>

text \<open>
  \<^verbatim>\<open>divRoundDown\<close> and \<^verbatim>\<open>divRoundUp\<close> of src/threads/utility.h; the division and the remainder
  of C truncate towards zero.
\<close>

definition INT_MAX :: int where
  "INT_MAX = 2147483647"

definition divRoundDown :: "int \<Rightarrow> int \<Rightarrow> int" where
  "divRoundDown n s = n sdiv s"

definition divRoundUp :: "int \<Rightarrow> int \<Rightarrow> int" where
  "divRoundUp n s = n sdiv s + (if n smod s > 0 then 1 else 0)"

lemma sdiv_nonneg: "0 \<le> a \<Longrightarrow> 0 < b \<Longrightarrow> a sdiv b = a div (b::int)"
  by (auto simp: signed_divide_int_def sgn_if)

lemma smod_nonneg: "0 \<le> a \<Longrightarrow> 0 < b \<Longrightarrow> a smod b = a mod (b::int)"
  by (cases "a = 0") (simp_all add: signed_modulo_int_def sdiv_nonneg minus_div_mult_eq_mod)

lemma divRoundDown_nonneg [simp]: "0 \<le> n \<Longrightarrow> 0 < s \<Longrightarrow> divRoundDown n s = n div s"
  by (simp add: divRoundDown_def sdiv_nonneg)

lemma divRoundUp_nonneg:
  "0 \<le> n \<Longrightarrow> 0 < s \<Longrightarrow> divRoundUp n s = n div s + (if n mod s > 0 then 1 else 0)"
  by (simp add: divRoundUp_def sdiv_nonneg smod_nonneg)

lemma divRoundUp_ge:
  assumes "0 \<le> n" "0 < s"
  shows "n \<le> divRoundUp n s * s"
proof -
  have "s * (n div s) + n mod s = n" "0 \<le> n mod s" "n mod s < s" using assms by simp_all
  moreover have "divRoundUp n s * s = s * (n div s) + (if n mod s > 0 then s else 0)"
    using assms by (simp add: divRoundUp_nonneg algebra_simps)
  moreover have "n mod s \<le> (if n mod s > 0 then s else 0)"
    using calculation by simp
  ultimately show ?thesis by linarith
qed

lemma divRoundUp_nonneg_ge0: "0 \<le> n \<Longrightarrow> 0 < s \<Longrightarrow> 0 \<le> divRoundUp n s"
  by (simp add: divRoundUp_nonneg pos_imp_zdiv_nonneg_iff)

lemma sint_of_range: "- (2 ^ 31) \<le> x \<Longrightarrow> x < 2 ^ 31 \<Longrightarrow> sint (word_of_int x :: u32) = x"
  by (simp add: int_word_sint)

subsection \<open>Counting loops\<close>

text \<open>
  \<^verbatim>\<open>for (int i = 0; i < n; i++)\<close> visits the list \<open>[0..n - 1]\<close>, which is empty for \<open>n \<le> 0\<close>.
\<close>

lemma upto_int [simp]: "[0..int n - 1] = map int [0..<n]"
proof (induction n)
  case (Suc n)
  have "[0..int (Suc n) - 1] = [0..int n - 1] @ [int n]"
    by (simp add: upto_rec2)
  with Suc show ?case by simp
qed simp

lemma upto_nat: "0 \<le> n \<Longrightarrow> [0..n - 1] = map int [0..<nat n]"
  using upto_int[of "nat n"] by simp

text \<open>\<^verbatim>\<open>for (j = 0; j < n; j++) dst[d + j] = src[o + j];\<close>\<close>

fun copy_loop :: "int list \<Rightarrow> 'a list \<Rightarrow> int \<Rightarrow> 'a list \<Rightarrow> int \<Rightarrow> 'a list result" where
  "copy_loop [] src off dst d = Ok dst"
| "copy_loop (j # js) src off dst d =
     rbind (aget src (off + j)) (\<lambda>x. rbind (aset dst (d + j) x) (\<lambda>dst. copy_loop js src off dst d))"

definition overwrite :: "nat \<Rightarrow> 'a list \<Rightarrow> 'a list \<Rightarrow> 'a list" where
  "overwrite d new xs = take d xs @ new @ drop (d + length new) xs"

lemma length_overwrite [simp]: "d + length new \<le> length xs \<Longrightarrow> length (overwrite d new xs) = length xs"
  by (simp add: overwrite_def)

lemma nth_overwrite: "d + length new \<le> length xs \<Longrightarrow> i < length xs \<Longrightarrow>
    overwrite d new xs ! i = (if d \<le> i \<and> i < d + length new then new ! (i - d) else xs ! i)"
  by (auto simp: overwrite_def nth_append min_def)

lemma copy_loop_spec:
  assumes "0 \<le> off" "off + int n \<le> int (length src)" "0 \<le> d" "d + int n \<le> int (length dst)"
  shows "copy_loop (map int [0..<n]) src off dst d =
    Ok (overwrite (nat d) (take n (drop (nat off) src)) dst)"
proof -
  have step: "copy_loop (map int [k..<n]) src off dst d =
      Ok (overwrite (nat d + k) (drop k (take n (drop (nat off) src))) dst)"
    if "k \<le> n" "d + int n \<le> int (length dst)" for k dst
    using that
  proof (induction "n - k" arbitrary: k dst)
    case 0
    then show ?case by (simp add: overwrite_def)
  next
    case (Suc m)
    then have k: "k < n" by simp
    let ?new = "take n (drop (nat off) src)"
    have len: "length ?new = n" using assms(1,2) by simp
    have upt: "[k..<n] = k # [Suc k..<n]" using k by (rule upt_conv_Cons)
    have dk: "nat (d + int k) = nat d + k" "nat (off + int k) = nat off + k" using assms(1,3) by auto
    have "overwrite (nat d + Suc k) (drop (Suc k) ?new) (dst[nat d + k := src ! (nat off + k)]) =
        overwrite (nat d + k) (drop k ?new) dst" (is "?l = ?r")
    proof (rule nth_equalityI)
      show "length ?l = length ?r" using Suc.prems k len assms(3) by simp
      fix i
      assume "i < length ?l"
      then have "i < length dst" using Suc.prems k len assms(3) by simp
      moreover have "i = nat d + k \<or> (nat d + Suc k \<le> i \<longleftrightarrow> nat d + k \<le> i)" by arith
      ultimately show "?l ! i = ?r ! i"
        using Suc.prems k len assms(1,2,3) by (auto simp: nth_overwrite Suc_diff_Suc)
    qed
    then show ?case
      using Suc.hyps(1)[of "Suc k" "dst[nat d + k := src ! (nat off + k)]"] Suc.hyps(2) Suc.prems
        assms k by (simp add: upt dk)
  qed
  show ?thesis using step[of 0 dst] assms(4) by simp
qed

subsection \<open>Bytes\<close>

text \<open>The host is little endian: the least significant byte of a word comes first.\<close>

definition u32_to_le :: "u32 \<Rightarrow> byte list" where
  "u32_to_le w = [ucast w, ucast (drop_bit 8 w), ucast (drop_bit 16 w), ucast (drop_bit 24 w)]"

fun u32_of_le :: "byte list \<Rightarrow> u32" where
  "u32_of_le [a, b, c, d] =
     ucast a OR push_bit 8 (ucast b) OR push_bit 16 (ucast c) OR push_bit 24 (ucast d)"
| "u32_of_le _ = 0"

definition u16_to_le :: "u16 \<Rightarrow> byte list" where
  "u16_to_le w = [ucast w, ucast (drop_bit 8 w)]"

fun u16_of_le :: "byte list \<Rightarrow> u16" where
  "u16_of_le [a, b] = ucast a OR push_bit 8 (ucast b)"
| "u16_of_le _ = 0"

lemma length_u32_to_le [simp]: "length (u32_to_le w) = 4"
  by (simp add: u32_to_le_def)

lemma length_u16_to_le [simp]: "length (u16_to_le w) = 2"
  by (simp add: u16_to_le_def)

lemma u16_le_roundtrip [simp]: "u16_of_le (u16_to_le w) = w"
  by (rule bit_eqI) (auto simp: u16_to_le_def bit_simps)

lemma bit_byte_ge: "8 \<le> n \<Longrightarrow> \<not> bit (b :: byte) n"
  using bit_imp_le_length[of b n] by auto

lemma bit_u32_of_le:
  "bit (u32_of_le [a, b, c, d]) n \<longleftrightarrow>
     bit a n \<or> 8 \<le> n \<and> bit b (n - 8) \<or> 16 \<le> n \<and> bit c (n - 16) \<or> 24 \<le> n \<and> bit d (n - 24)"
proof (cases "n < 32")
  case True
  then show ?thesis by (auto simp: bit_simps simp flip: push_bit_eq_mult)
next
  case False
  then have "\<not> bit (u32_of_le [a, b, c, d]) n"
    using bit_imp_le_length[of "u32_of_le [a, b, c, d]" n] by auto
  with False show ?thesis by (simp add: bit_byte_ge)
qed

lemma u32_le_roundtrip [simp]: "u32_of_le (u32_to_le w) = w"
proof (rule bit_eqI)
  fix n
  assume "possible_bit TYPE(u32) n"
  then have "n < 32" by simp
  have *: "bit (ucast (drop_bit k w) :: byte) m \<longleftrightarrow> m < 8 \<and> bit w (k + m)" for k m
    by (simp add: bit_simps)
  from \<open>n < 32\<close> consider "n < 8" | "8 \<le> n" "n < 16" | "16 \<le> n" "n < 24" | "24 \<le> n" "n < 32"
    by linarith
  then show "bit (u32_of_le (u32_to_le w)) n = bit w n"
    by cases (simp_all add: u32_to_le_def bit_u32_of_le * *[of 0, simplified] less_diff_conv2
      del: u32_of_le.simps)
qed

lemma u32_to_of_le [simp]:
  assumes "length bs = 4"
  shows "u32_to_le (u32_of_le bs) = bs"
proof -
  obtain a b c d where bs: "bs = [a, b, c, d]"
    using assms by (auto simp: numeral_eq_Suc length_Suc_conv)
  have *: "ucast (drop_bit k w) = e" if "\<And>n. n < 8 \<Longrightarrow> bit w (k + n) = bit e n"
    for k and w :: u32 and e :: byte
    by (rule bit_eqI) (use that in \<open>auto simp: bit_simps dest: bit_imp_le_length\<close>)
  have "ucast (drop_bit 0 (u32_of_le bs)) = a" "ucast (drop_bit 8 (u32_of_le bs)) = b"
    "ucast (drop_bit 16 (u32_of_le bs)) = c" "ucast (drop_bit 24 (u32_of_le bs)) = d"
    unfolding bs by (rule *, simp add: bit_u32_of_le bit_byte_ge del: u32_of_le.simps)+
  then show ?thesis by (simp add: u32_to_le_def bs)
qed

end
