(* ===== verification/Bit_Map.thy ===== *)
theory Bit_Map
  imports Prelude
begin

text \<open>
  The bitmap of src/userprog/bitmap.h and bitmap.cc: an array of 32-bit words in which bit
  \<open>which mod 32\<close> of word \<open>which div 32\<close> says whether item \<open>which\<close> is in use. The file
  system keeps its free-sector map in one. \<open>FetchFrom\<close> and \<open>WriteBack\<close> need the file layer
  and are in theory \<open>File_System\<close>.
\<close>

subsection \<open>State and operations\<close>

definition BitsInByte :: int where "BitsInByte = 8"
definition BitsInWord :: int where "BitsInWord = 32"

record BitMap =
  numBits :: int
  numWords :: int
  bm_map :: "u32 list"

definition bit_mask :: "int \<Rightarrow> u32" where
  "bit_mask which = push_bit (nat (which smod BitsInWord)) 1"

definition BitMap_Mark :: "BitMap \<Rightarrow> int \<Rightarrow> BitMap result" where
  "BitMap_Mark bm which =
     ASSERT (which \<ge> 0 \<and> which < numBits bm)
       (rbind (aget (bm_map bm) (which sdiv BitsInWord)) (\<lambda>w.
        rbind (aset (bm_map bm) (which sdiv BitsInWord) (w OR bit_mask which)) (\<lambda>m.
        Ok (bm\<lparr>bm_map := m\<rparr>))))"

definition BitMap_Clear :: "BitMap \<Rightarrow> int \<Rightarrow> BitMap result" where
  "BitMap_Clear bm which =
     ASSERT (which \<ge> 0 \<and> which < numBits bm)
       (rbind (aget (bm_map bm) (which sdiv BitsInWord)) (\<lambda>w.
        rbind (aset (bm_map bm) (which sdiv BitsInWord) (w AND NOT (bit_mask which))) (\<lambda>m.
        Ok (bm\<lparr>bm_map := m\<rparr>))))"

definition BitMap_Test :: "BitMap \<Rightarrow> int \<Rightarrow> bool result" where
  "BitMap_Test bm which =
     ASSERT (which \<ge> 0 \<and> which < numBits bm)
       (rbind (aget (bm_map bm) (which sdiv BitsInWord)) (\<lambda>w.
        if w AND bit_mask which \<noteq> 0 then Ok True else Ok False))"

text \<open>
  The constructor. \<^verbatim>\<open>new unsigned int[numWords]\<close> leaves the words with whatever the heap
  held (\<open>heap\<close>); the loop then clears the \<open>nitems\<close> bits one by one.
\<close>

fun clear_each :: "BitMap \<Rightarrow> int list \<Rightarrow> BitMap result" where
  "clear_each bm [] = Ok bm"
| "clear_each bm (i # is) = rbind (BitMap_Clear bm i) (\<lambda>bm'. clear_each bm' is)"

definition BitMap_new :: "(nat \<Rightarrow> u32) \<Rightarrow> int \<Rightarrow> BitMap result" where
  "BitMap_new heap nitems =
     (let nw = divRoundUp nitems BitsInWord in
      clear_each \<lparr>numBits = nitems, numWords = nw, bm_map = List.map heap [0..<nat nw]\<rparr>
        [0..nitems - 1])"

fun find_loop :: "BitMap \<Rightarrow> int list \<Rightarrow> (BitMap \<times> int) result" where
  "find_loop bm [] = Ok (bm, -1)"
| "find_loop bm (i # is) =
     rbind (BitMap_Test bm i) (\<lambda>t.
       if \<not> t then rbind (BitMap_Mark bm i) (\<lambda>bm'. Ok (bm', i)) else find_loop bm is)"

definition BitMap_Find :: "BitMap \<Rightarrow> (BitMap \<times> int) result" where
  "BitMap_Find bm = find_loop bm [0..numBits bm - 1]"

fun count_loop :: "BitMap \<Rightarrow> int \<Rightarrow> int list \<Rightarrow> int result" where
  "count_loop bm count [] = Ok count"
| "count_loop bm count (i # is) =
     rbind (BitMap_Test bm i) (\<lambda>t. count_loop bm (if \<not> t then count + 1 else count) is)"

definition BitMap_NumClear :: "BitMap \<Rightarrow> int result" where
  "BitMap_NumClear bm = count_loop bm 0 [0..numBits bm - 1]"

text \<open>\<^verbatim>\<open>Print\<close> writes the numbers of the set bits; the model returns them in print order.\<close>

fun print_loop :: "BitMap \<Rightarrow> int list \<Rightarrow> int list result" where
  "print_loop bm [] = Ok []"
| "print_loop bm (i # is) =
     rbind (BitMap_Test bm i) (\<lambda>t. rbind (print_loop bm is) (\<lambda>out.
       Ok (if t then i # out else out)))"

definition BitMap_Print :: "BitMap \<Rightarrow> int list result" where
  "BitMap_Print bm = print_loop bm [0..numBits bm - 1]"

subsection \<open>Invariant and abstraction\<close>

definition BitMap_ok :: "BitMap \<Rightarrow> bool" where
  "BitMap_ok bm \<longleftrightarrow>
     0 \<le> numBits bm \<and> numWords bm = divRoundUp (numBits bm) BitsInWord \<and>
     int (length (bm_map bm)) = numWords bm"

definition bm_size :: "BitMap \<Rightarrow> nat" where
  "bm_size bm = nat (numBits bm)"

definition marked :: "BitMap \<Rightarrow> nat set" where
  "marked bm = {i. i < bm_size bm \<and> bit (bm_map bm ! (i div 32)) (i mod 32)}"

lemma marked_bound: "marked bm \<subseteq> {..<bm_size bm}"
  by (auto simp: marked_def)

lemma finite_marked [simp]: "finite (marked bm)"
  using marked_bound finite_subset by blast

lemma int_div_BitsInWord: "int i sdiv BitsInWord = int (i div 32)"
  by (simp add: BitsInWord_def sdiv_nonneg zdiv_int)

lemma bit_mask_int: "bit_mask (int i) = push_bit (i mod 32) 1"
  by (simp add: bit_mask_def BitsInWord_def smod_nonneg nat_mod_distrib)

lemma word_index_bound:
  assumes "BitMap_ok bm" "i < bm_size bm"
  shows "i div 32 < length (bm_map bm)"
proof -
  have "int i < numBits bm" using assms by (simp add: bm_size_def)
  moreover have "numBits bm \<le> int (length (bm_map bm)) * 32"
    using assms(1) divRoundUp_ge[of "numBits bm" 32] by (simp add: BitMap_ok_def BitsInWord_def)
  ultimately show ?thesis by linarith
qed

lemma bit_mask_bit: "k < 32 \<Longrightarrow> bit (2 ^ j :: u32) k \<longleftrightarrow> k = j"
  by (auto simp: bit_exp_iff)

lemma and_mask_zero: "(w AND 2 ^ k = 0) = (\<not> bit (w::u32) k)"
  using bit_iff_and_push_bit_not_eq_0[of w k] by simp

lemma less_bm_size: "i < bm_size bm \<longleftrightarrow> int i < numBits bm"
  by (auto simp: bm_size_def)

lemma div_mod_32_eq: "(i::nat) div 32 = j div 32 \<Longrightarrow> i mod 32 = j mod 32 \<Longrightarrow> i = j"
  by (metis div_mult_mod_eq)

lemma BitMap_Test_spec:
  assumes "BitMap_ok bm" "i < bm_size bm"
  shows "BitMap_Test bm (int i) = Ok (i \<in> marked bm)"
  using assms word_index_bound[OF assms]
  by (simp add: BitMap_Test_def less_bm_size marked_def int_div_BitsInWord bit_mask_int
      and_mask_zero)

lemma BitMap_Mark_spec:
  assumes "BitMap_ok bm" "i < bm_size bm"
  shows "\<exists>bm'. BitMap_Mark bm (int i) = Ok bm' \<and> BitMap_ok bm' \<and> bm_size bm' = bm_size bm \<and>
    marked bm' = insert i (marked bm)"
proof -
  let ?m = "(bm_map bm)[i div 32 := (bm_map bm ! (i div 32)) OR push_bit (i mod 32) 1]"
  have w: "i div 32 < length (bm_map bm)" by (rule word_index_bound[OF assms])
  have "BitMap_Mark bm (int i) = Ok (bm\<lparr>bm_map := ?m\<rparr>)"
    using assms w by (simp add: BitMap_Mark_def less_bm_size int_div_BitsInWord bit_mask_int)
  moreover have "marked (bm\<lparr>bm_map := ?m\<rparr>) = insert i (marked bm)"
    using assms w
    by (auto simp: marked_def bm_size_def nth_list_update bit_or_iff bit_mask_bit
        dest: div_mod_32_eq split: if_splits)
  ultimately show ?thesis using assms by (auto simp: BitMap_ok_def bm_size_def)
qed

lemma BitMap_Clear_spec:
  assumes "BitMap_ok bm" "i < bm_size bm"
  shows "\<exists>bm'. BitMap_Clear bm (int i) = Ok bm' \<and> BitMap_ok bm' \<and> bm_size bm' = bm_size bm \<and>
    marked bm' = marked bm - {i}"
proof -
  let ?m = "(bm_map bm)[i div 32 := (bm_map bm ! (i div 32)) AND NOT (push_bit (i mod 32) 1)]"
  have w: "i div 32 < length (bm_map bm)" by (rule word_index_bound[OF assms])
  have "BitMap_Clear bm (int i) = Ok (bm\<lparr>bm_map := ?m\<rparr>)"
    using assms w by (simp add: BitMap_Clear_def less_bm_size int_div_BitsInWord bit_mask_int)
  moreover have "marked (bm\<lparr>bm_map := ?m\<rparr>) = marked bm - {i}"
    using assms w
    by (auto simp: marked_def bm_size_def nth_list_update bit_and_iff bit_not_iff bit_mask_bit
        dest: div_mod_32_eq split: if_splits)
  ultimately show ?thesis using assms by (auto simp: BitMap_ok_def bm_size_def)
qed

lemma find_loop_skip:
  assumes "BitMap_ok bm" "set is \<subseteq> marked bm"
  shows "find_loop bm (List.map int is @ js) = find_loop bm js"
  using assms(2)
proof (induction "is")
  case (Cons i "is")
  then have "i < bm_size bm" using marked_bound by auto
  with Cons assms(1) show ?case by (simp add: BitMap_Test_spec)
qed simp

lemma BitMap_Find_full:
  assumes "BitMap_ok bm" "marked bm = {..<bm_size bm}"
  shows "BitMap_Find bm = Ok (bm, -1)"
proof -
  have "[0..numBits bm - 1] = List.map int [0..<bm_size bm]"
    using assms(1) by (simp add: bm_size_def upto_nat BitMap_ok_def)
  then show ?thesis
    using find_loop_skip[OF assms(1), of "[0..<bm_size bm]" "[]"] assms(2)
    by (simp add: BitMap_Find_def atLeast0LessThan)
qed

lemma BitMap_Find_free:
  assumes "BitMap_ok bm" "i < bm_size bm" "i \<notin> marked bm" "\<forall>j<i. j \<in> marked bm"
  shows "\<exists>bm'. BitMap_Find bm = Ok (bm', int i) \<and> BitMap_ok bm' \<and> bm_size bm' = bm_size bm \<and>
    marked bm' = insert i (marked bm)"
proof -
  have "[0..numBits bm - 1] = List.map int [0..<bm_size bm]"
    using assms(1) by (simp add: bm_size_def upto_nat BitMap_ok_def)
  moreover have "[0..<bm_size bm] = [0..<i] @ i # [Suc i..<bm_size bm]"
    using assms(2) upt_add_eq_append[of 0 i "bm_size bm - i"] by (simp add: upt_conv_Cons)
  ultimately have "BitMap_Find bm = find_loop bm (List.map int [0..<i] @ int i # List.map int [Suc i..<bm_size bm])"
    by (simp add: BitMap_Find_def)
  also have "\<dots> = rbind (BitMap_Mark bm (int i)) (\<lambda>bm'. Ok (bm', int i))"
    using assms by (subst find_loop_skip) (auto simp: BitMap_Test_spec)
  finally show ?thesis using BitMap_Mark_spec[OF assms(1,2)] by auto
qed

lemma count_loop_spec:
  assumes "BitMap_ok bm" "\<forall>i\<in>set is. i < bm_size bm"
  shows "count_loop bm c (List.map int is) = Ok (c + int (length (filter (\<lambda>i. i \<notin> marked bm) is)))"
  using assms(2)
proof (induction "is" arbitrary: c)
  case (Cons i "is")
  with assms(1) show ?case by (simp add: BitMap_Test_spec)
qed simp

lemma BitMap_NumClear_spec:
  assumes "BitMap_ok bm"
  shows "BitMap_NumClear bm = Ok (int (bm_size bm - card (marked bm)))"
proof -
  have "length (filter (\<lambda>i. i \<notin> marked bm) [0..<bm_size bm]) = card ({..<bm_size bm} - marked bm)"
    by (subst distinct_card[symmetric]) (auto intro: arg_cong[where f = card])
  also have "\<dots> = bm_size bm - card (marked bm)"
    using marked_bound by (simp add: card_Diff_subset)
  finally show ?thesis
    using assms count_loop_spec[OF assms, of "[0..<bm_size bm]" 0]
    by (simp add: BitMap_NumClear_def upto_nat BitMap_ok_def bm_size_def)
qed

lemma print_loop_spec:
  assumes "BitMap_ok bm" "\<forall>i\<in>set is. i < bm_size bm"
  shows "print_loop bm (List.map int is) = Ok (List.map int (filter (\<lambda>i. i \<in> marked bm) is))"
  using assms(2)
proof (induction "is")
  case (Cons i "is")
  with assms(1) show ?case by (simp add: BitMap_Test_spec)
qed simp

lemma clear_each_spec:
  assumes "BitMap_ok bm" "\<forall>i\<in>set is. i < bm_size bm"
  shows "\<exists>bm'. clear_each bm (List.map int is) = Ok bm' \<and> BitMap_ok bm' \<and>
    bm_size bm' = bm_size bm \<and> marked bm' = marked bm - set is"
  using assms
proof (induction "is" arbitrary: bm)
  case (Cons i "is")
  obtain bm1 where 1: "BitMap_Clear bm (int i) = Ok bm1" "BitMap_ok bm1"
    "bm_size bm1 = bm_size bm" "marked bm1 = marked bm - {i}"
    using BitMap_Clear_spec[of bm i] Cons.prems by auto
  with Cons.IH[of bm1] Cons.prems show ?case by auto
qed simp

lemma BitMap_new_spec:
  assumes "0 \<le> n"
  shows "\<exists>bm. BitMap_new heap n = Ok bm \<and> BitMap_ok bm \<and> bm_size bm = nat n \<and> marked bm = {}"
proof -
  define bm0 where "bm0 = \<lparr>numBits = n, numWords = divRoundUp n BitsInWord,
    bm_map = List.map heap [0..<nat (divRoundUp n BitsInWord)]\<rparr>"
  have "BitMap_ok bm0" using assms divRoundUp_nonneg_ge0[of n 32]
    by (simp add: bm0_def BitMap_ok_def BitsInWord_def)
  from clear_each_spec[OF this, of "[0..<nat n]"]
  obtain bm where "clear_each bm0 (List.map int [0..<nat n]) = Ok bm" "BitMap_ok bm"
    "bm_size bm = bm_size bm0" "marked bm = marked bm0 - {0..<nat n}"
    by (auto simp: bm0_def bm_size_def)
  moreover have "marked bm0 \<subseteq> {0..<nat n}" by (auto simp: marked_def bm0_def bm_size_def)
  ultimately show ?thesis
    using assms by (auto simp: BitMap_new_def Let_def upto_nat bm0_def bm_size_def)
qed

subsection \<open>The interface: an allocator of numbered slots\<close>

text \<open>
  What the users of the bitmap (the file header, the file system) rely on: the slots in use
  are a set, \<open>find\<close> takes the least free slot, and the other operations change exactly the slot
  they name.
\<close>

locale slot_allocator =
  fixes invar :: "'m \<Rightarrow> bool"
    and slots :: "'m \<Rightarrow> nat"
    and used :: "'m \<Rightarrow> nat set"
    and find :: "'m \<Rightarrow> ('m \<times> int) result"
    and release :: "'m \<Rightarrow> int \<Rightarrow> 'm result"
    and num_free :: "'m \<Rightarrow> int result"
  assumes used_bound: "used m \<subseteq> {..<slots m}"
    and find_free: "invar m \<Longrightarrow> i < slots m \<Longrightarrow> i \<notin> used m \<Longrightarrow> \<forall>j<i. j \<in> used m \<Longrightarrow>
      \<exists>m'. find m = Ok (m', int i) \<and> invar m' \<and> slots m' = slots m \<and> used m' = insert i (used m)"
    and find_full: "invar m \<Longrightarrow> used m = {..<slots m} \<Longrightarrow> find m = Ok (m, -1)"
    and release_slot: "invar m \<Longrightarrow> i < slots m \<Longrightarrow>
      \<exists>m'. release m (int i) = Ok m' \<and> invar m' \<and> slots m' = slots m \<and> used m' = used m - {i}"
    and num_free: "invar m \<Longrightarrow> num_free m = Ok (int (slots m - card (used m)))"
begin

lemma finite_used [simp]: "finite (used m)"
  by (rule finite_subset[OF used_bound]) simp

definition free :: "'m \<Rightarrow> nat" where
  "free m = slots m - card (used m)"

lemma free_slot_exists:
  assumes "0 < free m"
  obtains i where "i < slots m" "i \<notin> used m" "\<forall>j<i. j \<in> used m"
proof -
  have "used m \<noteq> {..<slots m}"
  proof
    assume "used m = {..<slots m}"
    then have "card (used m) = slots m" by simp
    then show False using assms by (simp add: free_def)
  qed
  then have ex: "\<exists>i. i < slots m \<and> i \<notin> used m" using used_bound[of m] by auto
  define i where "i = (LEAST i. i < slots m \<and> i \<notin> used m)"
  have "i < slots m \<and> i \<notin> used m" unfolding i_def using ex by (rule LeastI_ex)
  moreover have "j \<in> used m" if "j < i" for j
    using not_less_Least[OF that[unfolded i_def]] that calculation by auto
  ultimately show ?thesis using that[of i] by simp
qed

lemma find_some:
  assumes "invar m" "0 < free m"
  obtains m' i where "find m = Ok (m', int i)" "invar m'" "slots m' = slots m" "i < slots m"
    "i \<notin> used m" "used m' = insert i (used m)" "free m' = free m - 1"
proof -
  obtain i where i: "i < slots m" "i \<notin> used m" "\<forall>j<i. j \<in> used m"
    using assms(2) by (rule free_slot_exists)
  from find_free[OF assms(1) i] obtain m' where m': "find m = Ok (m', int i)" "invar m'"
    "slots m' = slots m" "used m' = insert i (used m)" by blast
  moreover have "free m' = free m - 1" using m' i(2) by (simp add: free_def)
  ultimately show ?thesis using i that[of m' i] by simp
qed

lemma find_none:
  assumes "invar m" "free m = 0"
  shows "find m = Ok (m, -1)"
proof (rule find_full[OF assms(1)])
  show "used m = {..<slots m}"
    using assms(2) used_bound[of m] by (intro card_seteq) (simp_all add: free_def)
qed

end

interpretation bm: slot_allocator BitMap_ok bm_size marked BitMap_Find BitMap_Clear BitMap_NumClear
proof
  fix m show "marked m \<subseteq> {..<bm_size m}" by (rule marked_bound)
next
  fix m i
  assume "BitMap_ok m" "i < bm_size m" "i \<notin> marked m" "\<forall>j<i. j \<in> marked m"
  then show "\<exists>m'. BitMap_Find m = Ok (m', int i) \<and> BitMap_ok m' \<and> bm_size m' = bm_size m \<and>
    marked m' = insert i (marked m)" by (rule BitMap_Find_free)
qed (simp_all add: BitMap_Find_full BitMap_Clear_spec BitMap_NumClear_spec)

end
