(* ===== verification/Linked_List.thy ===== *)
theory Linked_List
  imports Prelude "HOL-Library.Multiset"
begin

text \<open>
  The singly linked list of src/threads/list.h and list.cc over an explicit store of
  \<^verbatim>\<open>ListElement\<close>s, and the key-ordered list it represents. The ready list of the scheduler,
  the pending interrupts and the waiting queues of the synchronisation objects are such lists;
  their theories use the represented list, which the operations here are shown to implement.
  A pointer is a \<open>nat option\<close> (\<open>None\<close> is \<^verbatim>\<open>NULL\<close>); the address that \<^verbatim>\<open>new\<close> returns is an
  argument of the operations that allocate.
\<close>

subsection \<open>The represented list\<close>

type_synonym 'a klist = "(int \<times> 'a) list"

definition kl_append :: "'a \<Rightarrow> 'a klist \<Rightarrow> 'a klist" where
  "kl_append x xs = xs @ [(0, x)]"

definition kl_prepend :: "'a \<Rightarrow> 'a klist \<Rightarrow> 'a klist" where
  "kl_prepend x xs = (0, x) # xs"

fun kl_insert :: "'a \<Rightarrow> int \<Rightarrow> 'a klist \<Rightarrow> 'a klist" where
  "kl_insert x k [] = [(k, x)]"
| "kl_insert x k ((k', y) # xs) =
     (if k < k' then (k, x) # (k', y) # xs else (k', y) # kl_insert x k xs)"

fun kl_remove :: "'a klist \<Rightarrow> ((int \<times> 'a) option \<times> 'a klist)" where
  "kl_remove [] = (None, [])"
| "kl_remove (kx # xs) = (Some kx, xs)"

definition key_sorted :: "'a klist \<Rightarrow> bool" where
  "key_sorted xs \<longleftrightarrow> sorted (map fst xs)"

lemma key_sorted_simps [simp]:
  "key_sorted []"
  "key_sorted ((k, x) # xs) \<longleftrightarrow> (\<forall>(k', y)\<in>set xs. k \<le> k') \<and> key_sorted xs"
  by (auto simp: key_sorted_def)

lemma mset_kl_insert: "mset (kl_insert x k xs) = add_mset (k, x) (mset xs)"
  by (induction x k xs rule: kl_insert.induct) auto

lemma set_kl_insert [simp]: "set (kl_insert x k xs) = insert (k, x) (set xs)"
  by (induction x k xs rule: kl_insert.induct) auto

lemma length_kl_insert [simp]: "length (kl_insert x k xs) = Suc (length xs)"
  by (induction x k xs rule: kl_insert.induct) auto

lemma kl_insert_not_Nil [simp]: "kl_insert x k xs \<noteq> []"
  by (cases "(x, k, xs)" rule: kl_insert.cases) auto

lemma kl_insert_sorted: "key_sorted xs \<Longrightarrow> key_sorted (kl_insert x k xs)"
  by (induction x k xs rule: kl_insert.induct) (auto split: if_splits)

text \<open>The insertion point: after every key that is at most the new one, so equal keys are
  served in order of arrival.\<close>

lemma kl_insert_split:
  "kl_insert x k xs =
     takeWhile (\<lambda>(k', y). k' \<le> k) xs @ (k, x) # dropWhile (\<lambda>(k', y). k' \<le> k) xs"
  by (induction x k xs rule: kl_insert.induct) auto

lemma kl_insert_filter_other:
  "filter (\<lambda>(k', y). k' = j) (kl_insert x k xs) =
     (if j = k then filter (\<lambda>(k', y). k' = k) xs @ [(k, x)] else filter (\<lambda>(k', y). k' = j) xs)"
  if "key_sorted xs"
  using that
proof (induction x k xs rule: kl_insert.induct)
  case (2 x k k' y xs)
  then have "k < k' \<Longrightarrow> filter (\<lambda>(k'', z). k'' = k) xs = []"
    by (auto simp: filter_empty_conv)
  with 2 show ?case by auto
qed auto

lemma kl_remove_least:
  "key_sorted xs \<Longrightarrow> kl_remove xs = (Some (k, x), ys) \<Longrightarrow>
     key_sorted ys \<and> mset xs = add_mset (k, x) (mset ys) \<and> (\<forall>(k', y)\<in>set ys. k \<le> k')"
  by (cases xs) auto

subsection \<open>The list class over a store of elements\<close>

record 'a ListElement =
  le_next :: "nat option"
  le_key :: int
  le_item :: 'a

record 'a List =
  l_first :: "nat option"
  l_last :: "nat option"
  l_cells :: "nat \<rightharpoonup> 'a ListElement"

definition ListElement_new :: "'a \<Rightarrow> int \<Rightarrow> 'a ListElement" where
  "ListElement_new itemPtr sortKey = \<lparr>le_next = None, le_key = sortKey, le_item = itemPtr\<rparr>"

definition List_new :: "(nat \<rightharpoonup> 'a ListElement) \<Rightarrow> 'a List" where
  "List_new cells = \<lparr>l_first = None, l_last = None, l_cells = cells\<rparr>"

definition deref :: "'a List \<Rightarrow> nat option \<Rightarrow> (nat \<times> 'a ListElement) result" where
  "deref l p =
     (case p of None \<Rightarrow> Err NullDeref
      | Some a \<Rightarrow> (case l_cells l a of None \<Rightarrow> Err DanglingPointer | Some e \<Rightarrow> Ok (a, e)))"

definition List_IsEmpty :: "'a List \<Rightarrow> bool" where
  "List_IsEmpty l = (if l_first l = None then True else False)"

text \<open>\<open>alloc p e l\<close> is \<^verbatim>\<open>new ListElement\<close> returning address \<open>p\<close>; \<open>set_next\<close> is an assignment to
  the \<^verbatim>\<open>next\<close> field of the element at an address.\<close>

definition alloc :: "nat \<Rightarrow> 'a ListElement \<Rightarrow> 'a List \<Rightarrow> 'a List" where
  "alloc p e l = l\<lparr>l_cells := (l_cells l)(p \<mapsto> e)\<rparr>"

definition set_next :: "nat option \<Rightarrow> nat option \<Rightarrow> 'a List \<Rightarrow> 'a List result" where
  "set_next p q l =
     rbind (deref l p) (\<lambda>(a, e). Ok (l\<lparr>l_cells := (l_cells l)(a \<mapsto> e\<lparr>le_next := q\<rparr>)\<rparr>))"

definition List_Append :: "nat \<Rightarrow> 'a \<Rightarrow> 'a List \<Rightarrow> 'a List result" where
  "List_Append p item l =
     (let l = alloc p (ListElement_new item 0) l in
      if List_IsEmpty l then Ok (l\<lparr>l_first := Some p, l_last := Some p\<rparr>)
      else rbind (set_next (l_last l) (Some p) l) (\<lambda>l. Ok (l\<lparr>l_last := Some p\<rparr>)))"

definition List_Prepend :: "nat \<Rightarrow> 'a \<Rightarrow> 'a List \<Rightarrow> 'a List result" where
  "List_Prepend p item l =
     (let l = alloc p (ListElement_new item 0) l in
      if List_IsEmpty l then Ok (l\<lparr>l_first := Some p, l_last := Some p\<rparr>)
      else rbind (set_next (Some p) (l_first l) l) (\<lambda>l. Ok (l\<lparr>l_first := Some p\<rparr>)))"

text \<open>
  The \<^verbatim>\<open>for\<close> loop of \<open>SortedInsert\<close> from element \<open>ptr\<close> on: \<open>Some (Ok (True, l))\<close> when it
  inserted and returned, \<open>Some (Ok (False, l))\<close> when it reached the last element, \<open>None\<close> when
  it runs for ever (a cyclic chain).
\<close>

partial_function (option) insert_walk ::
    "nat \<Rightarrow> int \<Rightarrow> nat option \<Rightarrow> 'a List \<Rightarrow> (bool \<times> 'a List) result option" where
  "insert_walk p sortKey ptr l =
     (case deref l ptr of Err e \<Rightarrow> Some (Err e)
      | Ok (a, e) \<Rightarrow>
         (case le_next e of None \<Rightarrow> Some (Ok (False, l))
          | Some n \<Rightarrow>
             (case deref l (Some n) of Err e' \<Rightarrow> Some (Err e')
              | Ok (n', e') \<Rightarrow>
                 if sortKey < le_key e'
                 then Some (rbind (set_next (Some p) (Some n) l) (\<lambda>l.
                            rbind (set_next ptr (Some p) l) (\<lambda>l. Ok (True, l))))
                 else insert_walk p sortKey (Some n) l)))"

definition List_SortedInsert :: "nat \<Rightarrow> 'a \<Rightarrow> int \<Rightarrow> 'a List \<Rightarrow> 'a List result" where
  "List_SortedInsert p item sortKey l =
     (let l = alloc p (ListElement_new item sortKey) l in
      if List_IsEmpty l then Ok (l\<lparr>l_first := Some p, l_last := Some p\<rparr>)
      else rbind (deref l (l_first l)) (\<lambda>(a, e).
        if sortKey < le_key e
        then rbind (set_next (Some p) (l_first l) l) (\<lambda>l. Ok (l\<lparr>l_first := Some p\<rparr>))
        else (case insert_walk p sortKey (l_first l) l of
                None \<Rightarrow> Err Diverges
              | Some r \<Rightarrow> rbind r (\<lambda>(done, l).
                  if done then Ok l
                  else rbind (set_next (l_last l) (Some p) l) (\<lambda>l. Ok (l\<lparr>l_last := Some p\<rparr>))))))"

text \<open>\<open>SortedRemove\<close> also frees the element; the pair is the item and the key it stores in
  \<^verbatim>\<open>*keyPtr\<close>. \<open>Remove\<close> is \<open>SortedRemove(NULL)\<close>.\<close>

definition List_SortedRemove :: "'a List \<Rightarrow> ((int \<times> 'a) option \<times> 'a List) result" where
  "List_SortedRemove l =
     (if List_IsEmpty l then Ok (None, l)
      else rbind (deref l (l_first l)) (\<lambda>(a, e).
        let l' = (if l_first l = l_last l then l\<lparr>l_first := None, l_last := None\<rparr>
                  else l\<lparr>l_first := le_next e\<rparr>)
        in Ok (Some (le_key e, le_item e), l'\<lparr>l_cells := (l_cells l')(a := None)\<rparr>)))"

definition List_Remove :: "'a List \<Rightarrow> ('a option \<times> 'a List) result" where
  "List_Remove l = rbind (List_SortedRemove l) (\<lambda>(kx, l). Ok (map_option snd kx, l))"

text \<open>\<open>Mapcar\<close> applies a function to every item in list order; the model returns the items.\<close>

partial_function (option) mapcar_walk ::
    "'a List \<Rightarrow> nat option \<Rightarrow> 'a list \<Rightarrow> 'a list result option" where
  "mapcar_walk l ptr acc =
     (case ptr of None \<Rightarrow> Some (Ok (rev acc))
      | Some a \<Rightarrow> (case deref l (Some a) of Err e \<Rightarrow> Some (Err e)
                  | Ok (a', e) \<Rightarrow> mapcar_walk l (le_next e) (le_item e # acc)))"

definition List_Mapcar :: "'a List \<Rightarrow> 'a list result" where
  "List_Mapcar l =
     (case mapcar_walk l (l_first l) [] of None \<Rightarrow> Err Diverges | Some r \<Rightarrow> r)"

text \<open>The destructor removes elements until the list is empty.\<close>

partial_function (option) delete_walk :: "'a List \<Rightarrow> 'a List result option" where
  "delete_walk l =
     (case List_Remove l of Err e \<Rightarrow> Some (Err e)
      | Ok (x, l') \<Rightarrow> (case x of None \<Rightarrow> Some (Ok l') | Some y \<Rightarrow> delete_walk l'))"

definition List_delete :: "'a List \<Rightarrow> 'a List result" where
  "List_delete l = (case delete_walk l of None \<Rightarrow> Err Diverges | Some r \<Rightarrow> r)"

subsection \<open>Representation\<close>

text \<open>
  A cell is an address with the key and the item stored there. \<open>seg h p cs q\<close>: following
  \<^verbatim>\<open>next\<close> from pointer \<open>p\<close> visits exactly the cells \<open>cs\<close> and arrives at pointer \<open>q\<close>.
\<close>

type_synonym 'a cells = "(nat \<times> int \<times> 'a) list"

fun seg :: "(nat \<rightharpoonup> 'a ListElement) \<Rightarrow> nat option \<Rightarrow> 'a cells \<Rightarrow> nat option \<Rightarrow> bool" where
  "seg h p [] q \<longleftrightarrow> p = q"
| "seg h p ((a, k, x) # cs) q \<longleftrightarrow>
     p = Some a \<and> (\<exists>n. h a = Some \<lparr>le_next = n, le_key = k, le_item = x\<rparr> \<and> seg h n cs q)"

abbreviation addrs :: "'a cells \<Rightarrow> nat set" where
  "addrs cs \<equiv> fst ` set cs"

definition Rep :: "'a List \<Rightarrow> 'a cells \<Rightarrow> bool" where
  "Rep l cs \<longleftrightarrow>
     seg (l_cells l) (l_first l) cs None \<and> distinct (map fst cs) \<and>
     l_last l = (if cs = [] then None else Some (fst (last cs))) \<and> dom (l_cells l) = addrs cs"

definition represents :: "'a List \<Rightarrow> 'a klist \<Rightarrow> bool" where
  "represents l xs \<longleftrightarrow> (\<exists>cs. Rep l cs \<and> map snd cs = xs)"

definition fresh :: "nat \<Rightarrow> 'a List \<Rightarrow> bool" where
  "fresh p l \<longleftrightarrow> l_cells l p = None"

lemma seg_cong: "(\<And>a. a \<in> addrs cs \<Longrightarrow> h a = h' a) \<Longrightarrow> seg h p cs q = seg h' p cs q"
  by (induction h p cs q rule: seg.induct) auto

lemma seg_upd [simp]: "a \<notin> addrs cs \<Longrightarrow> seg (h(a := v)) p cs q = seg h p cs q"
  by (rule seg_cong) auto

lemma seg_append: "seg h p (cs @ ds) q \<longleftrightarrow> (\<exists>r. seg h p cs r \<and> seg h r ds q)"
  by (induction h p cs q rule: seg.induct) auto

lemma seg_None_first: "seg h p cs None \<Longrightarrow> p = None \<longleftrightarrow> cs = []"
  by (cases cs) auto

lemma Rep_Nil_iff: "Rep l cs \<Longrightarrow> List_IsEmpty l \<longleftrightarrow> cs = []"
  by (auto simp: Rep_def List_IsEmpty_def dest: seg_None_first)

lemma fresh_addrs: "Rep l cs \<Longrightarrow> fresh p l \<longleftrightarrow> p \<notin> addrs cs"
  by (auto simp: Rep_def fresh_def)

lemma alloc_simps [simp]:
  "l_first (alloc p e l) = l_first l" "l_last (alloc p e l) = l_last l"
  "l_cells (alloc p e l) = (l_cells l)(p \<mapsto> e)"
  "List_IsEmpty (alloc p e l) = List_IsEmpty l"
  by (simp_all add: alloc_def List_IsEmpty_def)

lemma deref_Some [simp]: "l_cells l a = Some e \<Longrightarrow> deref l (Some a) = Ok (a, e)"
  by (simp add: deref_def)

lemma set_next_Some [simp]:
  "l_cells l a = Some e \<Longrightarrow>
     set_next (Some a) q l = Ok (l\<lparr>l_cells := (l_cells l)(a \<mapsto> e\<lparr>le_next := q\<rparr>)\<rparr>)"
  by (simp add: set_next_def)

lemma Rep_singleton:
  "Rep (\<lparr>l_first = Some p, l_last = Some p, l_cells = [p \<mapsto> ListElement_new x k]\<rparr>) [(p, k, x)]"
  by (simp add: Rep_def ListElement_new_def)

text \<open>Putting an element after the last one, shared by \<open>Append\<close> and \<open>SortedInsert\<close>.\<close>

lemma snoc_cell:
  assumes "Rep l cs" "cs \<noteq> []" "p \<notin> addrs cs"
  shows "\<exists>l'. set_next (l_last l) (Some p) (alloc p (ListElement_new x k) l) = Ok l' \<and>
    Rep (l'\<lparr>l_last := Some p\<rparr>) (cs @ [(p, k, x)])"
proof -
  obtain ds a k' y where cs: "cs = ds @ [(a, k', y)]"
    using assms(2) by (metis prod_cases3 rev_exhaust)
  have a: "a \<notin> addrs ds" "a \<noteq> p" "p \<notin> addrs ds"
    using assms(1,3) cs by (auto simp: Rep_def)
  from assms(1) cs have s: "seg (l_cells l) (l_first l) ds (Some a)"
    and e: "l_cells l a = Some \<lparr>le_next = None, le_key = k', le_item = y\<rparr>"
    by (auto simp: Rep_def seg_append)
  with assms a cs show ?thesis
    by (auto simp: Rep_def seg_append ListElement_new_def)
qed

lemma List_Append_Rep:
  assumes "Rep l cs" "p \<notin> addrs cs"
  shows "\<exists>l'. List_Append p x l = Ok l' \<and> Rep l' (cs @ [(p, 0, x)])"
proof (cases "cs = []")
  case True
  with assms show ?thesis
    by (auto simp: List_Append_def Let_def Rep_Nil_iff) (auto simp: Rep_def ListElement_new_def)
next
  case False
  with snoc_cell[OF assms(1) False assms(2), of x 0] assms(1) show ?thesis
    by (auto simp: List_Append_def Let_def Rep_Nil_iff)
qed

lemma cons_cell:
  assumes "Rep l cs" "cs \<noteq> []" "p \<notin> addrs cs"
  shows "\<exists>l'. set_next (Some p) (l_first l) (alloc p (ListElement_new x k) l) = Ok l' \<and>
    Rep (l'\<lparr>l_first := Some p\<rparr>) ((p, k, x) # cs)"
  using assms by (auto simp: Rep_def ListElement_new_def)

lemma List_Prepend_Rep:
  assumes "Rep l cs" "p \<notin> addrs cs"
  shows "\<exists>l'. List_Prepend p x l = Ok l' \<and> Rep l' ((p, 0, x) # cs)"
proof (cases "cs = []")
  case True
  with assms show ?thesis
    by (auto simp: List_Prepend_def Let_def Rep_Nil_iff) (auto simp: Rep_def ListElement_new_def)
next
  case False
  with cons_cell[OF assms(1) False assms(2), of x 0] assms(1) show ?thesis
    by (auto simp: List_Prepend_def Let_def Rep_Nil_iff)
qed

subsection \<open>Sorted insertion\<close>

fun cell_insert :: "nat \<Rightarrow> 'a \<Rightarrow> int \<Rightarrow> 'a cells \<Rightarrow> 'a cells" where
  "cell_insert p x k [] = [(p, k, x)]"
| "cell_insert p x k ((a, k', y) # cs) =
     (if k < k' then (p, k, x) # (a, k', y) # cs else (a, k', y) # cell_insert p x k cs)"

lemma cell_insert_abs: "map snd (cell_insert p x k cs) = kl_insert x k (map snd cs)"
  by (induction p x k cs rule: cell_insert.induct) auto

lemma cell_insert_addrs [simp]: "addrs (cell_insert p x k cs) = insert p (addrs cs)"
  by (induction p x k cs rule: cell_insert.induct) auto

lemma cell_insert_distinct:
  "distinct (map fst cs) \<Longrightarrow> p \<notin> addrs cs \<Longrightarrow> distinct (map fst (cell_insert p x k cs))"
proof (induction p x k cs rule: cell_insert.induct)
  case (2 p x k a k' y cs)
  then show ?case using cell_insert_addrs[of p x k cs] by auto
qed auto

lemma cell_insert_end: "\<forall>(a, k', y)\<in>set cs. k' \<le> k \<Longrightarrow> cell_insert p x k cs = cs @ [(p, k, x)]"
  by (induction p x k cs rule: cell_insert.induct) auto

lemma cell_insert_last:
  "\<exists>(a, k', y)\<in>set cs. k < k' \<Longrightarrow>
     cell_insert p x k cs \<noteq> [] \<and> fst (last (cell_insert p x k cs)) = fst (last cs)"
  by (induction p x k cs rule: cell_insert.induct) auto

lemma insert_walk_spec:
  assumes "seg (l_cells l) (Some a) ((a, k0, y) # bs) None" "distinct (a # map fst bs)"
    "l_cells l p = Some \<lparr>le_next = None, le_key = k, le_item = x\<rparr>" "p \<noteq> a" "p \<notin> addrs bs"
  shows "(\<forall>(b, k', z)\<in>set bs. k' \<le> k) \<and> insert_walk p k (Some a) l = Some (Ok (False, l)) \<or>
    (\<exists>(b, k', z)\<in>set bs. k < k') \<and>
    (\<exists>h. insert_walk p k (Some a) l = Some (Ok (True, l\<lparr>l_cells := h\<rparr>)) \<and>
      seg h (Some a) ((a, k0, y) # cell_insert p x k bs) None \<and>
      dom h = dom (l_cells l) \<and> (\<forall>b. b \<notin> insert a (insert p (addrs bs)) \<longrightarrow> h b = l_cells l b))"
  using assms
proof (induction bs arbitrary: a k0 y)
  case Nil
  then show ?case by (subst (1 2) insert_walk.simps) auto
next
  case (Cons c bs)
  obtain n k1 z where c: "c = (n, k1, z)" by (cases c) auto
  from Cons.prems(1) c obtain q where
    ea: "l_cells l a = Some \<lparr>le_next = Some n, le_key = k0, le_item = y\<rparr>" and
    en: "l_cells l n = Some \<lparr>le_next = q, le_key = k1, le_item = z\<rparr>" and
    sb: "seg (l_cells l) q bs None" by auto
  show ?case
  proof (cases "k < k1")
    case True
    let ?h = "(l_cells l)(p \<mapsto> \<lparr>le_next = Some n, le_key = k, le_item = x\<rparr>,
                 a \<mapsto> \<lparr>le_next = Some p, le_key = k0, le_item = y\<rparr>)"
    have "insert_walk p k (Some a) l = Some (Ok (True, l\<lparr>l_cells := ?h\<rparr>))"
      using True Cons.prems ea en by (subst insert_walk.simps) simp
    moreover have "seg ?h (Some a) ((a, k0, y) # cell_insert p x k (c # bs)) None"
      using True Cons.prems c ea en sb by auto
    moreover have "dom ?h = dom (l_cells l)" using ea Cons.prems(3) by auto
    moreover have "\<forall>b. b \<notin> insert a (insert p (addrs (c # bs))) \<longrightarrow> ?h b = l_cells l b" by simp
    moreover have "\<exists>(b, k', z)\<in>set (c # bs). k < k'" using True c by simp
    ultimately show ?thesis by blast
  next
    case False
    have walk: "insert_walk p k (Some a) l = insert_walk p k (Some n) l"
      using False by (simp add: insert_walk.simps[of p k "Some a" l] deref_Some[OF ea] deref_Some[OF en])
    have "seg (l_cells l) (Some n) ((n, k1, z) # bs) None" using en sb by simp
    then consider
      (last) "\<forall>(b, k', z)\<in>set bs. k' \<le> k" "insert_walk p k (Some n) l = Some (Ok (False, l))"
    | (mid) h where "\<exists>(b, k', z)\<in>set bs. k < k'"
        "insert_walk p k (Some n) l = Some (Ok (True, l\<lparr>l_cells := h\<rparr>))"
        "seg h (Some n) ((n, k1, z) # cell_insert p x k bs) None" "dom h = dom (l_cells l)"
        "\<forall>b. b \<notin> insert n (insert p (addrs bs)) \<longrightarrow> h b = l_cells l b"
      using Cons.IH[of n k1 z] Cons.prems(2-5) c by simp blast
    then show ?thesis
    proof cases
      case last
      with walk False c show ?thesis by auto
    next
      case mid
      have "h a = l_cells l a" using mid(5) Cons.prems c by auto
      then have "seg h (Some a) ((a, k0, y) # cell_insert p x k (c # bs)) None"
        using mid(3) False c ea by simp
      moreover have "\<forall>b. b \<notin> insert a (insert p (addrs (c # bs))) \<longrightarrow> h b = l_cells l b"
        using mid(5) c by simp
      moreover have "\<exists>(b, k', z)\<in>set (c # bs). k < k'" using mid(1) by auto
      ultimately show ?thesis using mid(2,4) walk by metis
    qed
  qed
qed

lemma List_SortedInsert_Rep:
  assumes "Rep l cs" "p \<notin> addrs cs"
  shows "\<exists>l'. List_SortedInsert p x k l = Ok l' \<and> Rep l' (cell_insert p x k cs)"
proof (cases cs)
  case Nil
  with assms show ?thesis
    by (auto simp: List_SortedInsert_def Let_def Rep_Nil_iff) (auto simp: Rep_def ListElement_new_def)
next
  case (Cons c bs)
  obtain a k0 y where c: "c = (a, k0, y)" by (cases c) auto
  let ?l = "alloc p (ListElement_new x k) l"
  have ne: "\<not> List_IsEmpty l" using assms Cons by (simp add: Rep_Nil_iff)
  have a: "p \<noteq> a" "p \<notin> addrs bs" "distinct (a # map fst bs)" and first: "l_first l = Some a"
    using assms Cons c by (auto simp: Rep_def)
  obtain n where ea: "l_cells l a = Some \<lparr>le_next = n, le_key = k0, le_item = y\<rparr>"
    using assms Cons c by (auto simp: Rep_def)
  show ?thesis
  proof (cases "k < k0")
    case True
    with cons_cell[OF assms(1) _ assms(2), of x k] Cons c ne first ea a show ?thesis
      by (auto simp: List_SortedInsert_def Let_def)
  next
    case False
    have s: "seg (l_cells ?l) (Some a) ((a, k0, y) # bs) None"
      using assms(1) Cons c a first by (auto simp: Rep_def)
    have np: "l_cells ?l p = Some \<lparr>le_next = None, le_key = k, le_item = x\<rparr>"
      by (simp add: ListElement_new_def)
    consider
      (last) "\<forall>(b, k', z)\<in>set bs. k' \<le> k" "insert_walk p k (Some a) ?l = Some (Ok (False, ?l))"
    | (mid) h where "\<exists>(b, k', z)\<in>set bs. k < k'"
        "insert_walk p k (Some a) ?l = Some (Ok (True, ?l\<lparr>l_cells := h\<rparr>))"
        "seg h (Some a) ((a, k0, y) # cell_insert p x k bs) None" "dom h = dom (l_cells ?l)"
      using insert_walk_spec[OF s a(3) np a(1,2)] by blast
    then show ?thesis
    proof cases
      case last
      have "cell_insert p x k cs = cs @ [(p, k, x)]"
        using last False Cons c by (intro cell_insert_end) auto
      with last snoc_cell[OF assms(1) _ assms(2), of x k] Cons False ne first ea a show ?thesis
        by (auto simp: List_SortedInsert_def Let_def)
    next
      case mid
      have "List_SortedInsert p x k l = Ok (?l\<lparr>l_cells := h\<rparr>)"
        using mid False ne first ea a by (simp add: List_SortedInsert_def Let_def)
      moreover have "Rep (?l\<lparr>l_cells := h\<rparr>) (cell_insert p x k cs)"
        using mid assms Cons c False first a cell_insert_distinct[of bs p x k]
          cell_insert_last[OF mid(1), of p x] cell_insert_addrs[of p x k bs]
        by (auto simp: Rep_def)
      ultimately show ?thesis by blast
    qed
  qed
qed

subsection \<open>Removal, traversal and destruction\<close>

lemma List_SortedRemove_Rep:
  assumes "Rep l cs"
  shows "cs = [] \<Longrightarrow> List_SortedRemove l = Ok (None, l)"
    and "cs = (a, k, x) # ds \<Longrightarrow>
      \<exists>l'. List_SortedRemove l = Ok (Some (k, x), l') \<and> Rep l' ds"
proof -
  assume "cs = []"
  with assms show "List_SortedRemove l = Ok (None, l)"
    by (simp add: List_SortedRemove_def Rep_Nil_iff)
next
  assume cs: "cs = (a, k, x) # ds"
  then obtain n where e: "l_cells l a = Some \<lparr>le_next = n, le_key = k, le_item = x\<rparr>"
    and s: "seg (l_cells l) n ds None" and a: "a \<notin> addrs ds" and f: "l_first l = Some a"
    using assms by (auto simp: Rep_def)
  have ne: "\<not> List_IsEmpty l" using assms cs by (simp add: Rep_Nil_iff)
  have last: "l_first l = l_last l \<longleftrightarrow> ds = []"
    using assms cs a f by (auto simp: Rep_def)
  show "\<exists>l'. List_SortedRemove l = Ok (Some (k, x), l') \<and> Rep l' ds"
  proof (cases "ds = []")
    case True
    then have "(l_cells l)(a := None) = Map.empty"
      using assms cs by (auto simp: Rep_def fun_eq_iff domIff)
    with True show ?thesis using assms cs e f ne last
      by (simp add: List_SortedRemove_def Let_def Rep_def)
  next
    case False
    then show ?thesis using assms cs e f ne last s a
      by (auto simp: List_SortedRemove_def Let_def Rep_def)
  qed
qed

lemma mapcar_walk_spec:
  "seg (l_cells l) p cs None \<Longrightarrow> mapcar_walk l p acc = Some (Ok (rev acc @ map (snd \<circ> snd) cs))"
proof (induction cs arbitrary: p acc)
  case Nil
  then show ?case by (subst mapcar_walk.simps) simp
next
  case (Cons c cs)
  obtain a k x where "c = (a, k, x)" by (cases c) auto
  with Cons show ?case by (subst mapcar_walk.simps) auto
qed

lemma List_Mapcar_Rep: "Rep l cs \<Longrightarrow> List_Mapcar l = Ok (map (snd \<circ> snd) cs)"
  using mapcar_walk_spec[of l "l_first l" cs "[]"] by (simp add: List_Mapcar_def Rep_def)

lemma delete_walk_spec: "Rep l cs \<Longrightarrow> \<exists>l'. delete_walk l = Some (Ok l') \<and> Rep l' []"
proof (induction cs arbitrary: l)
  case Nil
  then show ?case using List_SortedRemove_Rep(1)[OF Nil]
    by (subst delete_walk.simps) (simp add: List_Remove_def)
next
  case (Cons c cs)
  obtain a k x where c: "c = (a, k, x)" by (cases c) auto
  with Cons.prems List_SortedRemove_Rep(2)[OF Cons.prems, of a k x cs] obtain l' where
    "List_SortedRemove l = Ok (Some (k, x), l')" "Rep l' cs" by auto
  with Cons.IH[of l'] show ?case by (subst delete_walk.simps) (simp add: List_Remove_def)
qed

subsection \<open>The interface: a list of keyed items\<close>

text \<open>
  The users of a list insert and remove through its operations only. \<open>insert_all\<close> and
  \<open>remove_all\<close> are such a use: some insertions, each of an element at an address of its own,
  and then some removals.
\<close>

fun insert_all :: "(nat \<Rightarrow> 'a \<Rightarrow> int \<Rightarrow> 'l \<Rightarrow> 'l result) \<Rightarrow> 'a cells \<Rightarrow> 'l \<Rightarrow> 'l result" where
  "insert_all ins [] l = Ok l"
| "insert_all ins ((p, k, x) # cs) l = rbind (ins p x k l) (insert_all ins cs)"

fun remove_all ::
    "('l \<Rightarrow> ((int \<times> 'a) option \<times> 'l) result) \<Rightarrow> nat \<Rightarrow> 'l \<Rightarrow> ('a klist \<times> 'l) result" where
  "remove_all rem 0 l = Ok ([], l)"
| "remove_all rem (Suc n) l =
     rbind (rem l) (\<lambda>(kx, l). case kx of None \<Rightarrow> Ok ([], l)
       | Some kx \<Rightarrow> rbind (remove_all rem n l) (\<lambda>(out, l). Ok (kx # out, l)))"

lemma fold_kl_insert_sort: "fold (\<lambda>(k, x) xs. kl_insert x k xs) kxs [] = sort_key fst kxs"
proof -
  let ?ins = "\<lambda>(k, x) xs. kl_insert x k xs"
  have m: "mset (fold ?ins kxs ys) = mset ys + mset kxs" for ys
    by (induction kxs arbitrary: ys) (auto simp: mset_kl_insert)
  have s: "key_sorted ys \<Longrightarrow> key_sorted (fold ?ins kxs ys)" for ys
    by (induction kxs arbitrary: ys) (auto simp: kl_insert_sorted)
  have f: "key_sorted ys \<Longrightarrow> filter (\<lambda>(k', y). k' = j) (fold ?ins kxs ys) =
      filter (\<lambda>(k', y). k' = j) ys @ filter (\<lambda>(k', y). k' = j) kxs" for j ys
    by (induction kxs arbitrary: ys) (auto simp: kl_insert_sorted kl_insert_filter_other)
  have "sort_key fst kxs = fold ?ins kxs []"
  proof (rule properties_for_sort_key)
    show "mset (fold ?ins kxs []) = mset kxs" using m[of "[]"] by simp
    show "sorted (map fst (fold ?ins kxs []))" using s[of "[]"] by (simp add: key_sorted_def)
    fix kx assume "kx \<in> set (fold ?ins kxs [])"
    show "filter (\<lambda>y. fst kx = fst y) (fold ?ins kxs []) = filter (\<lambda>y. fst kx = fst y) kxs"
      using f[of "[]" "fst kx"] by (simp add: case_prod_beta' eq_commute)
  qed
  then show ?thesis by simp
qed

locale keyed_list =
  fixes holds :: "'l \<Rightarrow> 'a klist \<Rightarrow> bool"
    and uses :: "'l \<Rightarrow> nat set"
    and ins :: "nat \<Rightarrow> 'a \<Rightarrow> int \<Rightarrow> 'l \<Rightarrow> 'l result"
    and rem :: "'l \<Rightarrow> ((int \<times> 'a) option \<times> 'l) result"
  assumes holds_ins: "holds l xs \<Longrightarrow> p \<notin> uses l \<Longrightarrow>
      \<exists>l'. ins p x k l = Ok l' \<and> holds l' (kl_insert x k xs) \<and> uses l' = insert p (uses l)"
    and holds_rem: "holds l xs \<Longrightarrow>
      \<exists>l'. rem l = Ok (fst (kl_remove xs), l') \<and> holds l' (snd (kl_remove xs))"
begin

lemma insert_all_holds:
  "holds l xs \<Longrightarrow> distinct (map fst cs) \<Longrightarrow> addrs cs \<inter> uses l = {} \<Longrightarrow>
   \<exists>l'. insert_all ins cs l = Ok l' \<and>
     holds l' (fold (\<lambda>(k, x) xs. kl_insert x k xs) (map snd cs) xs)"
proof (induction cs arbitrary: l xs)
  case (Cons c cs)
  obtain p k x where c: "c = (p, k, x)" by (cases c) auto
  with Cons.prems holds_ins[of l xs p x k] obtain l1 where
    l1: "ins p x k l = Ok l1" "holds l1 (kl_insert x k xs)" "uses l1 = insert p (uses l)"
    by auto
  have "distinct (map fst cs)" "addrs cs \<inter> uses l1 = {}" using Cons.prems c l1(3) by auto
  with Cons.IH[OF l1(2)] l1(1) c show ?case by auto
qed simp

lemma remove_all_holds:
  "holds l xs \<Longrightarrow> \<exists>l'. remove_all rem (length xs) l = Ok (xs, l') \<and> holds l' []"
proof (induction xs arbitrary: l)
  case (Cons kx xs)
  from holds_rem[OF Cons.prems] obtain l1 where
    l1: "rem l = Ok (Some kx, l1)" "holds l1 xs" by auto
  with Cons.IH[OF l1(2)] show ?case by auto
qed auto

lemma insert_all_remove_all:
  assumes "holds l []" "distinct (map fst cs)" "addrs cs \<inter> uses l = {}"
  shows "\<exists>l'. rbind (insert_all ins cs l) (remove_all rem (length cs)) =
    Ok (sort_key fst (map snd cs), l') \<and> holds l' []"
proof -
  obtain l1 where l1: "insert_all ins cs l = Ok l1" "holds l1 (sort_key fst (map snd cs))"
    using insert_all_holds[OF assms] by (auto simp: fold_kl_insert_sort)
  with remove_all_holds[OF l1(2)] show ?thesis by simp
qed

end

lemma represents_insert:
  assumes "represents l xs" "fresh p l"
  shows "\<exists>l'. List_SortedInsert p x k l = Ok l' \<and> represents l' (kl_insert x k xs) \<and>
    dom (l_cells l') = insert p (dom (l_cells l))"
proof -
  obtain cs where cs: "Rep l cs" "map snd cs = xs" using assms(1) by (auto simp: represents_def)
  from cs(1) assms(2) have "p \<notin> addrs cs" by (simp add: fresh_addrs)
  from List_SortedInsert_Rep[OF cs(1) this, of x k] obtain l' where
    l': "List_SortedInsert p x k l = Ok l'" "Rep l' (cell_insert p x k cs)" by auto
  have "represents l' (kl_insert x k xs)"
    using l'(2) cell_insert_abs[of p x k cs] cs(2) by (auto simp: represents_def)
  moreover have "dom (l_cells l') = insert p (dom (l_cells l))"
    using l'(2) cs(1) by (simp add: Rep_def)
  ultimately show ?thesis using l'(1) by blast
qed

lemma represents_remove:
  assumes "represents l xs"
  shows "\<exists>l'. List_SortedRemove l = Ok (fst (kl_remove xs), l') \<and>
    represents l' (snd (kl_remove xs))"
proof -
  obtain cs where cs: "Rep l cs" "map snd cs = xs" using assms(1) by (auto simp: represents_def)
  show ?thesis
  proof (cases cs)
    case Nil
    with cs List_SortedRemove_Rep(1)[OF cs(1)] show ?thesis by (auto simp: represents_def)
  next
    case (Cons c ds)
    obtain a k x where "c = (a, k, x)" by (cases c) auto
    with cs Cons List_SortedRemove_Rep(2)[OF cs(1), of a k x ds] show ?thesis
      by (auto simp: represents_def)
  qed
qed

interpretation ll: keyed_list represents "\<lambda>l. dom (l_cells l)" List_SortedInsert List_SortedRemove
  by unfold_locales (auto simp: fresh_def domIff intro: represents_insert represents_remove)

lemma represents_new: "represents (List_new Map.empty) []"
  by (simp add: represents_def Rep_def List_new_def)

lemma represents_Nil: "represents l [] \<longleftrightarrow> l = List_new Map.empty"
  by (cases l) (auto simp: represents_def Rep_def List_new_def)

subsection \<open>Properties\<close>

text \<open>C1. Inserting items with \<open>SortedInsert\<close> into an empty list and taking them off again with
  \<open>SortedRemove\<close> never goes through a bad pointer, always ends, yields the items in increasing
  order of key with equal keys in order of insertion, and leaves no list element allocated.\<close>

theorem List_priority_order:
  assumes "distinct (map fst cs)"
  shows "rbind (insert_all List_SortedInsert cs (List_new Map.empty))
      (remove_all List_SortedRemove (length cs)) =
    Ok (sort_key fst (map snd cs), List_new Map.empty)"
  using ll.insert_all_remove_all[OF represents_new, of cs] assms
  by (auto simp: represents_Nil List_new_def)

theorem List_priority_order_witness:
  "rbind (insert_all List_SortedInsert [(7, 3, ''c''), (4, 1, ''a''), (9, 3, ''d''), (2, 2, ''b'')]
      (List_new Map.empty)) (remove_all List_SortedRemove 4) =
    Ok ([(1, ''a''), (2, ''b''), (3, ''c''), (3, ''d'')], List_new Map.empty)"
  using List_priority_order[of "[(7, 3, ''c''), (4, 1, ''a''), (9, 3, ''d''), (2, 2, ''b'')]"]
  by (simp add: numeral_eq_Suc)

end
