(* ===== verification/Interrupts.thy ===== *)
theory Interrupts
  imports Linked_List
begin

text \<open>
  The simulated interrupt hardware: src/machine/interrupt.h, interrupt.cc, stats.h, stats.cc and
  timer.cc. The state of the simulator is the record \<open>hw\<close> (interrupt controller and
  statistics); a device or kernel component extends it with fields of its own. What the
  interrupt code calls in other components (the handler of an interrupt, \<open>DelayedLoad\<close> of the
  machine, \<open>Yield\<close> of the current thread) is a record of callbacks. Tick counters are unbounded
  integers.
\<close>

subsection \<open>State\<close>

datatype IntStatus = IntOff | IntOn
datatype MachineStatus = IdleMode | SystemMode | UserMode
datatype IntType =
  TimerInt | DiskInt | ConsoleWriteInt | ConsoleReadInt | NetworkSendInt | NetworkRecvInt

text \<open>The function pointers the devices pass to \<open>Schedule\<close>.\<close>

datatype Handler =
  TimerHandler | DiskDone | ConsoleWriteDone | ConsoleReadPoll | NetworkSendDone | NetworkReadPoll

record PendingInterrupt =
  pi_handler :: Handler
  pi_arg :: int
  pi_when :: int
  pi_type :: IntType

record Interrupt =
  level :: IntStatus
  pending :: "PendingInterrupt klist"
  inHandler :: bool
  yieldOnReturn :: bool
  mstatus :: MachineStatus

record Statistics =
  totalTicks :: int
  idleTicks :: int
  systemTicks :: int
  userTicks :: int
  numDiskReads :: int
  numDiskWrites :: int
  numConsoleCharsRead :: int
  numConsoleCharsWritten :: int
  numPageFaults :: int
  numPacketsSent :: int
  numPacketsRecvd :: int

record hw =
  intr :: Interrupt
  stats :: Statistics

record 's callbacks =
  cb_handler :: "PendingInterrupt \<Rightarrow> 's \<Rightarrow> 's result"
  cb_delayed_load :: "'s \<Rightarrow> 's result"
  cb_yield :: "'s \<Rightarrow> 's result"

definition UserTick :: int where "UserTick = 1"
definition SystemTick :: int where "SystemTick = 10"
definition RotationTime :: int where "RotationTime = 500"
definition SeekTime :: int where "SeekTime = 500"
definition ConsoleTime :: int where "ConsoleTime = 100"
definition NetworkTime :: int where "NetworkTime = 100"
definition TimerTicks :: int where "TimerTicks = 100"

subsection \<open>Operations\<close>

definition Statistics_new :: Statistics where
  "Statistics_new =
     \<lparr>totalTicks = 0, idleTicks = 0, systemTicks = 0, userTicks = 0,
      numDiskReads = 0, numDiskWrites = 0, numConsoleCharsRead = 0, numConsoleCharsWritten = 0,
      numPageFaults = 0, numPacketsSent = 0, numPacketsRecvd = 0\<rparr>"

definition Interrupt_new :: Interrupt where
  "Interrupt_new =
     \<lparr>level = IntOff, pending = [], inHandler = False, yieldOnReturn = False,
      mstatus = SystemMode\<rparr>"

definition PendingInterrupt_new :: "Handler \<Rightarrow> int \<Rightarrow> int \<Rightarrow> IntType \<Rightarrow> PendingInterrupt" where
  "PendingInterrupt_new func param time kind =
     \<lparr>pi_handler = func, pi_arg = param, pi_when = time, pi_type = kind\<rparr>"

definition upd_intr :: "(Interrupt \<Rightarrow> Interrupt) \<Rightarrow> 'a hw_scheme \<Rightarrow> 'a hw_scheme" where
  "upd_intr f s = s\<lparr>intr := f (intr s)\<rparr>"

definition upd_stats :: "(Statistics \<Rightarrow> Statistics) \<Rightarrow> 'a hw_scheme \<Rightarrow> 'a hw_scheme" where
  "upd_stats f s = s\<lparr>stats := f (stats s)\<rparr>"

definition ChangeLevel :: "IntStatus \<Rightarrow> IntStatus \<Rightarrow> 'a hw_scheme \<Rightarrow> 'a hw_scheme" where
  "ChangeLevel old now = upd_intr (level_update (\<lambda>_. now))"

definition setStatus :: "MachineStatus \<Rightarrow> 'a hw_scheme \<Rightarrow> 'a hw_scheme" where
  "setStatus st = upd_intr (mstatus_update (\<lambda>_. st))"

definition Schedule :: "Handler \<Rightarrow> int \<Rightarrow> int \<Rightarrow> IntType \<Rightarrow> 'a hw_scheme \<Rightarrow> 'a hw_scheme result" where
  "Schedule handler arg fromNow type s =
     (let when = totalTicks (stats s) + fromNow;
          toOccur = PendingInterrupt_new handler arg when type
      in ASSERT (fromNow > 0) (Ok (upd_intr (pending_update (kl_insert toOccur when)) s)))"

definition YieldOnReturn :: "'a hw_scheme \<Rightarrow> 'a hw_scheme result" where
  "YieldOnReturn s =
     ASSERT (inHandler (intr s)) (Ok (upd_intr (yieldOnReturn_update (\<lambda>_. True)) s))"

text \<open>The part of \<open>CheckIfDue\<close> after the clock test: quit if only the time slice is left and the
  machine is idle, otherwise call the handler.\<close>

definition fire :: "'a hw_scheme callbacks \<Rightarrow> MachineStatus \<Rightarrow> int \<Rightarrow> PendingInterrupt \<Rightarrow>
    'a hw_scheme \<Rightarrow> (bool \<times> 'a hw_scheme) result" where
  "fire cb old when toOccur s =
     (if mstatus (intr s) = IdleMode \<and> pi_type toOccur = TimerInt \<and> pending (intr s) = []
      then Ok (False, upd_intr (pending_update (kl_insert toOccur when)) s)
      else
        rbind (cb_delayed_load cb s) (\<lambda>s.
          let s = setStatus SystemMode (upd_intr (inHandler_update (\<lambda>_. True)) s)
          in rbind (cb_handler cb toOccur s) (\<lambda>s.
               Ok (True, upd_intr (inHandler_update (\<lambda>_. False)) (setStatus old s)))))"

definition CheckIfDue ::
    "'a hw_scheme callbacks \<Rightarrow> bool \<Rightarrow> 'a hw_scheme \<Rightarrow> (bool \<times> 'a hw_scheme) result" where
  "CheckIfDue cb advanceClock s =
     ASSERT (level (intr s) = IntOff)
       (case kl_remove (pending (intr s)) of
          (None, _) \<Rightarrow> Ok (False, s)
        | (Some (when, toOccur), rest) \<Rightarrow>
            let old = mstatus (intr s);
                s = upd_intr (pending_update (\<lambda>_. rest)) s;
                now = totalTicks (stats s)
            in if advanceClock \<and> when > now
               then fire cb old when toOccur
                      (upd_stats (\<lambda>st. st\<lparr>idleTicks := idleTicks st + (when - now),
                                          totalTicks := when\<rparr>) s)
               else if when > now
               then Ok (False, upd_intr (pending_update (kl_insert toOccur when)) s)
               else fire cb old when toOccur s)"

text \<open>\<^verbatim>\<open>while (CheckIfDue(FALSE)) ;\<close> \<open>None\<close> if interrupts keep falling due for ever.\<close>

partial_function (option) due_loop ::
    "'a hw_scheme callbacks \<Rightarrow> 'a hw_scheme \<Rightarrow> 'a hw_scheme result option" where
  "due_loop cb s =
     (case CheckIfDue cb False s of Err e \<Rightarrow> Some (Err e)
      | Ok (fired, s') \<Rightarrow> if fired then due_loop cb s' else Some (Ok s'))"

definition run_due :: "'a hw_scheme callbacks \<Rightarrow> 'a hw_scheme \<Rightarrow> 'a hw_scheme result" where
  "run_due cb s = (case due_loop cb s of None \<Rightarrow> Err Diverges | Some r \<Rightarrow> r)"

definition advance_ticks :: "'a hw_scheme \<Rightarrow> 'a hw_scheme" where
  "advance_ticks s =
     (if mstatus (intr s) = SystemMode
      then upd_stats (\<lambda>st. st\<lparr>totalTicks := totalTicks st + SystemTick,
                              systemTicks := systemTicks st + SystemTick\<rparr>) s
      else upd_stats (\<lambda>st. st\<lparr>totalTicks := totalTicks st + UserTick,
                              userTicks := userTicks st + UserTick\<rparr>) s)"

definition OneTick :: "'a hw_scheme callbacks \<Rightarrow> 'a hw_scheme \<Rightarrow> 'a hw_scheme result" where
  "OneTick cb s =
     (let old = mstatus (intr s);
          s = ChangeLevel IntOn IntOff (advance_ticks s)
      in rbind (run_due cb s) (\<lambda>s.
         let s = ChangeLevel IntOff IntOn s in
         if yieldOnReturn (intr s)
         then let s = setStatus SystemMode (upd_intr (yieldOnReturn_update (\<lambda>_. False)) s)
              in rbind (cb_yield cb s) (\<lambda>s. Ok (setStatus old s))
         else Ok s))"

definition SetLevel :: "'a hw_scheme callbacks \<Rightarrow> IntStatus \<Rightarrow> 'a hw_scheme \<Rightarrow>
    (IntStatus \<times> 'a hw_scheme) result" where
  "SetLevel cb now s =
     (let old = level (intr s) in
      ASSERT (now = IntOff \<or> \<not> inHandler (intr s))
        (let s = ChangeLevel old now s in
         if now = IntOn \<and> old = IntOff
         then rbind (OneTick cb s) (\<lambda>s. Ok (old, s)) else Ok (old, s)))"

definition Enable :: "'a hw_scheme callbacks \<Rightarrow> 'a hw_scheme \<Rightarrow> 'a hw_scheme result" where
  "Enable cb s = rbind (SetLevel cb IntOn s) (\<lambda>(old, s). Ok s)"

text \<open>\<open>Halt\<close> prints the statistics and exits the simulator.\<close>

definition Halt :: "'a hw_scheme \<Rightarrow> 'b result" where
  "Halt s = Err Halted"

definition Idle :: "'a hw_scheme callbacks \<Rightarrow> 'a hw_scheme \<Rightarrow> 'a hw_scheme result" where
  "Idle cb s =
     rbind (CheckIfDue cb True (setStatus IdleMode s)) (\<lambda>(fired, s).
       if fired
       then rbind (run_due cb s) (\<lambda>s.
         Ok (setStatus SystemMode (upd_intr (yieldOnReturn_update (\<lambda>_. False)) s)))
       else Halt s)"

text \<open>The timer device: with \<open>randomize\<close> the delay uses the next value of the random source.\<close>

definition TimeOfNextInterrupt :: "bool \<Rightarrow> int \<Rightarrow> int" where
  "TimeOfNextInterrupt randomize random =
     (if randomize then 1 + random smod (TimerTicks * 2) else TimerTicks)"

definition Timer_new :: "bool \<Rightarrow> int \<Rightarrow> int \<Rightarrow> 'a hw_scheme \<Rightarrow> 'a hw_scheme result" where
  "Timer_new doRandom random this s =
     Schedule TimerHandler this (TimeOfNextInterrupt doRandom random) TimerInt s"

definition TimerExpired :: "bool \<Rightarrow> int \<Rightarrow> int \<Rightarrow> ('a hw_scheme \<Rightarrow> 'a hw_scheme result) \<Rightarrow>
    'a hw_scheme \<Rightarrow> 'a hw_scheme result" where
  "TimerExpired randomize random this handler s =
     rbind (Schedule TimerHandler this (TimeOfNextInterrupt randomize random) TimerInt s) handler"

subsection \<open>Invariants\<close>

text \<open>The pending list is sorted by the time at which its interrupts fire; the total time is
  the sum of the time spent idle, in the kernel and in user code.\<close>

definition pending_ok :: "'a hw_scheme \<Rightarrow> bool" where
  "pending_ok s \<longleftrightarrow>
     key_sorted (pending (intr s)) \<and> (\<forall>(k, p)\<in>set (pending (intr s)). k = pi_when p)"

definition ticks_ok :: "'a hw_scheme \<Rightarrow> bool" where
  "ticks_ok s \<longleftrightarrow>
     totalTicks (stats s) = idleTicks (stats s) + systemTicks (stats s) + userTicks (stats s)"

definition clock :: "'a hw_scheme \<Rightarrow> int \<times> int \<times> int \<times> int" where
  "clock s = (totalTicks (stats s), idleTicks (stats s), systemTicks (stats s), userTicks (stats s))"

definition due :: "'a hw_scheme \<Rightarrow> nat" where
  "due s = length (filter (\<lambda>(k, p). k \<le> totalTicks (stats s)) (pending (intr s)))"

lemma upd_simps [simp]:
  "intr (upd_intr f s) = f (intr s)" "stats (upd_intr f s) = stats s"
  "stats (upd_stats g s) = g (stats s)" "intr (upd_stats g s) = intr s"
  "hw.more (upd_intr f s) = hw.more s" "hw.more (upd_stats g s) = hw.more s"
  by (simp_all add: upd_intr_def upd_stats_def)

lemma level_simps [simp]:
  "intr (ChangeLevel old now s) = intr s\<lparr>level := now\<rparr>" "stats (ChangeLevel old now s) = stats s"
  "intr (setStatus st s) = intr s\<lparr>mstatus := st\<rparr>" "stats (setStatus st s) = stats s"
  "hw.more (ChangeLevel old now s) = hw.more s" "hw.more (setStatus st s) = hw.more s"
  by (simp_all add: ChangeLevel_def setStatus_def)

lemma clock_cong: "stats s = stats t \<Longrightarrow> clock s = clock t"
  by (simp add: clock_def)

lemma due_cong: "stats s = stats t \<Longrightarrow> pending (intr s) = pending (intr t) \<Longrightarrow> due s = due t"
  by (simp add: due_def)

lemma pending_ok_cong: "pending (intr s) = pending (intr t) \<Longrightarrow> pending_ok s = pending_ok t"
  by (simp add: pending_ok_def)

lemma clock_ticks_ok: "clock s = clock t \<Longrightarrow> ticks_ok s = ticks_ok t"
  by (simp add: clock_def ticks_ok_def)

lemma clock_total: "clock s = clock t \<Longrightarrow> totalTicks (stats s) = totalTicks (stats t)"
  by (simp add: clock_def)

lemma length_filter_kl_insert:
  "length (filter P (kl_insert x k xs)) = (if P (k, x) then 1 else 0) + length (filter P xs)"
  by (induction x k xs rule: kl_insert.induct) auto

lemma due_insert:
  "due (upd_intr (pending_update (kl_insert p k)) s) =
     (if k \<le> totalTicks (stats s) then 1 else 0) + due s"
  by (simp add: due_def length_filter_kl_insert)

lemma pending_ok_insert:
  "pending_ok s \<Longrightarrow> k = pi_when p \<Longrightarrow> pending_ok (upd_intr (pending_update (kl_insert p k)) s)"
  by (auto simp: pending_ok_def kl_insert_sorted)

lemma Schedule_spec:
  assumes "pending_ok s" "Schedule h a d ty s = Ok s'"
  shows "0 < d \<and> pending_ok s' \<and> clock s' = clock s \<and> due s' = due s \<and> stats s' = stats s \<and>
    level (intr s') = level (intr s) \<and> inHandler (intr s') = inHandler (intr s) \<and>
    mstatus (intr s') = mstatus (intr s) \<and> hw.more s' = hw.more s"
  using assms
  by (auto simp: Schedule_def Let_def result_simps PendingInterrupt_new_def
      intro!: pending_ok_insert clock_cong simp: due_insert)

text \<open>Taking the first pending interrupt off.\<close>

lemma pending_ok_tl:
  assumes "pending_ok s" "pending (intr s) = (k, p) # rest"
  shows "k = pi_when p" "pending_ok (upd_intr (pending_update (\<lambda>_. rest)) s)"
    "\<forall>(k', p')\<in>set rest. k \<le> k'"
    "due s = (if k \<le> totalTicks (stats s) then 1 else 0) +
       due (upd_intr (pending_update (\<lambda>_. rest)) s)"
  using assms by (auto simp: pending_ok_def due_def)

lemma due_0_iff: "pending_ok s \<Longrightarrow>
    due s = 0 \<longleftrightarrow> (\<forall>(k, p)\<in>set (pending (intr s)). totalTicks (stats s) < pi_when p)"
  by (fastforce simp: due_def pending_ok_def filter_empty_conv)

subsection \<open>The interface of interrupt handlers\<close>

text \<open>
  What the interrupt code relies on of the devices: a handler runs with interrupts off and
  leaves them off, does not move the clock, and schedules interrupts for later only.
\<close>

locale interrupt_handlers =
  fixes cb :: "'a hw_scheme callbacks"
  assumes delayed_load: "cb_delayed_load cb s = Ok s' \<Longrightarrow> intr s' = intr s \<and> stats s' = stats s"
    and handler: "pending_ok s \<Longrightarrow> level (intr s) = IntOff \<Longrightarrow> cb_handler cb p s = Ok s' \<Longrightarrow>
      level (intr s') = IntOff \<and> clock s' = clock s \<and> pending_ok s' \<and> due s' \<le> due s"
begin

lemma fire_spec:
  assumes "pending_ok s" "level (intr s) = IntOff" "when = pi_when p" "fire cb old when p s = Ok (fired, s')"
  shows "level (intr s') = IntOff \<and> clock s' = clock s \<and> pending_ok s' \<and>
    (fired \<longrightarrow> due s' \<le> due s \<and> mstatus (intr s') = old) \<and>
    (\<not> fired \<longrightarrow> mstatus (intr s) = IdleMode \<and> pi_type p = TimerInt \<and>
       pending (intr s) = [] \<and> pending (intr s') = [(when, p)] \<and> mstatus (intr s') = IdleMode)"
proof (cases "mstatus (intr s) = IdleMode \<and> pi_type p = TimerInt \<and> pending (intr s) = []")
  case True
  then show ?thesis using assms
    by (auto simp: fire_def pending_ok_insert clock_def pending_ok_def)
next
  case False
  from False assms(4) obtain v where v: "cb_delayed_load cb s = Ok v"
    by (auto simp: fire_def Let_def result_simps)
  define t where "t = setStatus SystemMode (upd_intr (inHandler_update (\<lambda>_. True)) v)"
  from False assms(4) v obtain u where u: "cb_handler cb p t = Ok u"
    and s': "s' = upd_intr (inHandler_update (\<lambda>_. False)) (setStatus old u)" and "fired"
    by (auto simp: fire_def Let_def result_simps t_def)
  have "pending_ok t" "level (intr t) = IntOff" "clock t = clock s" "due t = due s"
    using assms(1,2) delayed_load[OF v]
    by (auto simp: t_def pending_ok_def clock_def due_def)
  with handler[OF _ _ u] have "level (intr u) = IntOff" "clock u = clock s" "pending_ok u" "due u \<le> due s"
    by auto
  with s' \<open>fired\<close> show ?thesis by (auto simp: pending_ok_def clock_def due_def)
qed

lemma CheckIfDue_False_spec:
  assumes "pending_ok s" "CheckIfDue cb False s = Ok (fired, s')"
  shows "level (intr s') = IntOff \<and> clock s' = clock s \<and> pending_ok s' \<and>
    mstatus (intr s') = mstatus (intr s) \<and> (fired \<longrightarrow> due s' < due s) \<and>
    (\<not> fired \<longrightarrow> due s' = 0 \<or> mstatus (intr s) = IdleMode \<and>
       (\<exists>p. pending (intr s') = [(pi_when p, p)] \<and> pi_type p = TimerInt))"
proof (cases "pending (intr s)")
  case Nil
  with assms show ?thesis by (auto simp: CheckIfDue_def result_simps due_def)
next
  case (Cons kp rest)
  obtain k p where kp: "kp = (k, p)" by (cases kp) auto
  define t where "t = upd_intr (pending_update (\<lambda>_. rest)) s"
  note tl = pending_ok_tl[OF assms(1) Cons[unfolded kp], folded t_def]
  have lev: "level (intr s) = IntOff" using assms(2) by (auto simp: CheckIfDue_def result_simps)
  show ?thesis
  proof (cases "k > totalTicks (stats s)")
    case True
    have "\<forall>(k', p')\<in>set rest. totalTicks (stats s) < k'" using True tl(3) by auto
    then have "due t = 0" by (auto simp: due_def t_def filter_empty_conv)
    moreover have "s' = upd_intr (pending_update (kl_insert p k)) t" "\<not> fired"
      using assms(2) Cons kp True lev by (auto simp: CheckIfDue_def Let_def t_def)
    ultimately show ?thesis
      using True tl lev by (auto simp: due_insert pending_ok_insert t_def clock_def)
  next
    case False
    then have f: "fire cb (mstatus (intr s)) k p t = Ok (fired, s')"
      using assms(2) Cons kp lev by (simp add: CheckIfDue_def Let_def t_def)
    have "level (intr t) = IntOff" "clock t = clock s" using lev by (simp_all add: t_def clock_def)
    with fire_spec[OF tl(2) _ tl(1) f] False tl(1,4) show ?thesis by (auto simp: t_def)
  qed
qed

lemma due_loop_spec:
  assumes "pending_ok s" "level (intr s) = IntOff"
  shows "\<exists>r. due_loop cb s = Some r \<and> (\<forall>s'. r = Ok s' \<longrightarrow>
    level (intr s') = IntOff \<and> clock s' = clock s \<and> pending_ok s' \<and>
    mstatus (intr s') = mstatus (intr s) \<and>
    (due s' = 0 \<or> mstatus (intr s) = IdleMode \<and>
      (\<exists>p. pending (intr s') = [(pi_when p, p)] \<and> pi_type p = TimerInt)))"
  using assms
proof (induction "due s" arbitrary: s rule: less_induct)
  case less
  show ?case
  proof (cases "CheckIfDue cb False s")
    case (Err e)
    then show ?thesis by (subst due_loop.simps) simp
  next
    case (Ok r)
    then obtain fired t where t: "CheckIfDue cb False s = Ok (fired, t)" by (cases r) auto
    note spec = CheckIfDue_False_spec[OF less.prems(1) t]
    show ?thesis
    proof (cases fired)
      case True
      then have "due_loop cb s = due_loop cb t" using t by (subst due_loop.simps) simp
      moreover have "due t < due s" "pending_ok t" "level (intr t) = IntOff" using spec True by auto
      ultimately show ?thesis using less.hyps[of t] spec by simp
    next
      case False
      then have "due_loop cb s = Some (Ok t)" using t by (subst due_loop.simps) simp
      with spec False show ?thesis by auto
    qed
  qed
qed

lemma run_due_spec:
  assumes "pending_ok s" "level (intr s) = IntOff" "run_due cb s = Ok s'"
  shows "level (intr s') = IntOff \<and> clock s' = clock s \<and> pending_ok s' \<and>
    mstatus (intr s') = mstatus (intr s) \<and>
    (due s' = 0 \<or> mstatus (intr s) = IdleMode \<and>
      (\<exists>p. pending (intr s') = [(pi_when p, p)] \<and> pi_type p = TimerInt))"
  using due_loop_spec[OF assms(1,2)] assms(3) by (auto simp: run_due_def)

lemma run_due_returns:
  "pending_ok s \<Longrightarrow> level (intr s) = IntOff \<Longrightarrow> due_loop cb s \<noteq> None"
  using due_loop_spec[of s] by auto

end

end
