(* ===== verification/Kernel_State.thy ===== *)
theory Kernel_State
  imports Interrupts
begin

text \<open>
  The data of the kernel and of the simulated machine: the classes of src/threads/thread.h,
  scheduler.h and synch.h, src/machine/machine.h, translate.h, disk.h and timer.h,
  src/filesys/synchdisk.h, src/userprog/addrspace.h, and the global variables of
  src/threads/system.cc. Objects that the code shares through pointers (threads, semaphores,
  locks, condition variables, address spaces) live in heaps, maps from addresses to objects;
  \<open>next_addr\<close> is the address the next \<open>new\<close> returns. Registers and page numbers are 32-bit
  words, memory is a list of bytes.
\<close>

subsection \<open>Threads and synchronisation objects\<close>

datatype ThreadStatus = JUST_CREATED | RUNNING | READY | BLOCKED

text \<open>Of a stack the model keeps the word at its far end, which holds the fence post;
  \<open>None\<close> is the null pointer of the main thread. \<open>th_start\<close> is the procedure and the argument
  that \<open>StackAllocate\<close> puts into the machine state for \<open>ThreadRoot\<close>.\<close>

record Thread =
  th_start :: "(nat \<times> int) option"
  th_uid :: int
  th_tid :: int
  th_priority :: int
  th_stack :: "u32 option"
  th_status :: ThreadStatus
  th_name :: string
  th_userRegisters :: "u32 list"
  th_space :: "nat option"

record Semaphore =
  sem_name :: "string option"
  sem_value :: int
  sem_queue :: "nat klist option"

text \<open>The constructor of \<open>Lock\<close> leaves \<open>holdingThread\<close> unset.\<close>

datatype holder = Unset | NoThread | Held nat

record Lock =
  lk_name :: string
  lk_sema :: nat
  lk_holdingThread :: holder

record Condition =
  cond_name :: string
  cond_waitingQueue :: "nat klist"

subsection \<open>The machine\<close>

record TranslationEntry =
  virtualPage :: u32
  physicalPage :: u32
  valid :: bool
  readOnly :: bool
  use :: bool
  dirty :: bool
  LRU :: int

record ReverseTranslationEntry = TranslationEntry +
  rt_tid :: int

text \<open>A pointer to a page table that may be null or never assigned.\<close>

datatype table = NullTable | WildTable | Table "TranslationEntry list"

record Machine =
  mainMemory :: "byte list"
  rt_page_table :: "ReverseTranslationEntry list"
  registers :: "u32 list"
  memoryBitmap :: "bool list"
  tlb :: "TranslationEntry list option"
  tlbTimes :: u32
  tlbHits :: u32
  tlbsize :: u32
  pageTable :: table
  pageTableSize :: u32
  singleStep :: bool
  runUntilTime :: int

record AddrSpace =
  as_disk :: "nat option"
  as_pageTable :: table
  as_numPages :: u32

subsection \<open>Devices\<close>

text \<open>A UNIX file of the host: its length and its bytes.\<close>

record unix_file =
  f_len :: nat
  f_bytes :: "nat \<Rightarrow> byte"

record Disk =
  d_file :: unix_file
  d_active :: bool
  d_lastSector :: int
  d_bufferInit :: int

record SynchDisk =
  sd_disk :: Disk
  sd_semaphore :: nat
  sd_lock :: nat

datatype TimerRoutine = TimerInterruptHandler | RoundingTimerInterruptHandler

record Timer =
  tm_handler :: TimerRoutine
  tm_randomize :: bool

subsection \<open>The globals\<close>

definition MaxThreadCount :: nat where "MaxThreadCount = 128"
definition NumTotalRegs :: nat where "NumTotalRegs = 40"

record kern = hw +
  threads :: "nat \<Rightarrow> Thread option"
  sems :: "nat \<Rightarrow> Semaphore option"
  locks :: "nat \<Rightarrow> Lock option"
  conds :: "nat \<Rightarrow> Condition option"
  next_addr :: nat
  ThreadIDOccupied :: "bool list"
  thread_poiners :: "nat option list"
  currentThread :: nat
  threadToBeDestroyed :: "nat option"
  readyList :: "nat klist"
  lastSwitchTime :: int
  timers :: "int \<Rightarrow> Timer option"
  random_src :: "nat \<Rightarrow> int"
  random_pos :: nat
  machine :: "Machine option"
  spaces :: "nat \<Rightarrow> AddrSpace option"
  vdisks :: "nat \<Rightarrow> byte list option"
  synchDisk :: "SynchDisk option"

text \<open>Following a pointer; the fault is a pointer to no object.\<close>

definition the_ptr :: "'b option \<Rightarrow> 'b result" where
  "the_ptr p = (case p of None \<Rightarrow> Err DanglingPointer | Some x \<Rightarrow> Ok x)"

definition the_nonnull :: "'b option \<Rightarrow> 'b result" where
  "the_nonnull p = (case p of None \<Rightarrow> Err NullDeref | Some x \<Rightarrow> Ok x)"

lemma the_ptr_simps [simp]: "the_ptr (Some x) = Ok x" "the_ptr None = Err DanglingPointer"
  by (simp_all add: the_ptr_def)

lemma the_nonnull_simps [simp]: "the_nonnull (Some x) = Ok x" "the_nonnull None = Err NullDeref"
  by (simp_all add: the_nonnull_def)

lemma the_ptr_eq_Ok [result_simps]: "the_ptr p = Ok x \<longleftrightarrow> p = Some x"
  by (cases p) simp_all

lemma the_nonnull_eq_Ok [result_simps]: "the_nonnull p = Ok x \<longleftrightarrow> p = Some x"
  by (cases p) simp_all

definition Random :: "'a kern_scheme \<Rightarrow> int \<times> 'a kern_scheme" where
  "Random s = (random_src s (random_pos s), s\<lparr>random_pos := Suc (random_pos s)\<rparr>)"

text \<open>Before the program runs, its globals are zero.\<close>

definition zeroed :: kern where
  "zeroed = \<lparr>intr = Interrupt_new, stats = Statistics_new, threads = (\<lambda>_. None), sems = (\<lambda>_. None),
     locks = (\<lambda>_. None), conds = (\<lambda>_. None), next_addr = 1, ThreadIDOccupied = replicate MaxThreadCount False,
     thread_poiners = replicate MaxThreadCount None, currentThread = 0, threadToBeDestroyed = None,
     readyList = [], lastSwitchTime = 0, timers = (\<lambda>_. None), random_src = (\<lambda>_. 0), random_pos = 0,
     machine = None, spaces = (\<lambda>_. None), vdisks = (\<lambda>_. None), synchDisk = None\<rparr>"

text \<open>The interrupt controller and the statistics are independent of the rest of the state.\<close>

lemma upd_intr_select [simp]:
  "threads (upd_intr f s) = threads s"
  "sems (upd_intr f s) = sems s"
  "locks (upd_intr f s) = locks s"
  "conds (upd_intr f s) = conds s"
  "next_addr (upd_intr f s) = next_addr s"
  "ThreadIDOccupied (upd_intr f s) = ThreadIDOccupied s"
  "thread_poiners (upd_intr f s) = thread_poiners s"
  "currentThread (upd_intr f s) = currentThread s"
  "threadToBeDestroyed (upd_intr f s) = threadToBeDestroyed s"
  "readyList (upd_intr f s) = readyList s"
  "lastSwitchTime (upd_intr f s) = lastSwitchTime s"
  "timers (upd_intr f s) = timers s"
  "random_src (upd_intr f s) = random_src s"
  "random_pos (upd_intr f s) = random_pos s"
  "machine (upd_intr f s) = machine s"
  "spaces (upd_intr f s) = spaces s"
  "vdisks (upd_intr f s) = vdisks s"
  "synchDisk (upd_intr f s) = synchDisk s"
  "kern.more (upd_intr f s) = kern.more s"
  by (simp_all add: upd_intr_def)

lemma upd_intr_commute [simp]:
  "threads_update g1 (upd_intr f s) = upd_intr f (threads_update g1 s)"
  "sems_update g2 (upd_intr f s) = upd_intr f (sems_update g2 s)"
  "locks_update g3 (upd_intr f s) = upd_intr f (locks_update g3 s)"
  "conds_update g4 (upd_intr f s) = upd_intr f (conds_update g4 s)"
  "next_addr_update g5 (upd_intr f s) = upd_intr f (next_addr_update g5 s)"
  "ThreadIDOccupied_update g6 (upd_intr f s) = upd_intr f (ThreadIDOccupied_update g6 s)"
  "thread_poiners_update g7 (upd_intr f s) = upd_intr f (thread_poiners_update g7 s)"
  "currentThread_update g8 (upd_intr f s) = upd_intr f (currentThread_update g8 s)"
  "threadToBeDestroyed_update g9 (upd_intr f s) = upd_intr f (threadToBeDestroyed_update g9 s)"
  "readyList_update g10 (upd_intr f s) = upd_intr f (readyList_update g10 s)"
  "lastSwitchTime_update g11 (upd_intr f s) = upd_intr f (lastSwitchTime_update g11 s)"
  "timers_update g12 (upd_intr f s) = upd_intr f (timers_update g12 s)"
  "random_src_update g13 (upd_intr f s) = upd_intr f (random_src_update g13 s)"
  "random_pos_update g14 (upd_intr f s) = upd_intr f (random_pos_update g14 s)"
  "machine_update g15 (upd_intr f s) = upd_intr f (machine_update g15 s)"
  "spaces_update g16 (upd_intr f s) = upd_intr f (spaces_update g16 s)"
  "vdisks_update g17 (upd_intr f s) = upd_intr f (vdisks_update g17 s)"
  "synchDisk_update g18 (upd_intr f s) = upd_intr f (synchDisk_update g18 s)"
  by (rule kern.equality; simp add: upd_intr_def)+

lemma upd_stats_select [simp]:
  "threads (upd_stats f s) = threads s"
  "sems (upd_stats f s) = sems s"
  "locks (upd_stats f s) = locks s"
  "conds (upd_stats f s) = conds s"
  "next_addr (upd_stats f s) = next_addr s"
  "ThreadIDOccupied (upd_stats f s) = ThreadIDOccupied s"
  "thread_poiners (upd_stats f s) = thread_poiners s"
  "currentThread (upd_stats f s) = currentThread s"
  "threadToBeDestroyed (upd_stats f s) = threadToBeDestroyed s"
  "readyList (upd_stats f s) = readyList s"
  "lastSwitchTime (upd_stats f s) = lastSwitchTime s"
  "timers (upd_stats f s) = timers s"
  "random_src (upd_stats f s) = random_src s"
  "random_pos (upd_stats f s) = random_pos s"
  "machine (upd_stats f s) = machine s"
  "spaces (upd_stats f s) = spaces s"
  "vdisks (upd_stats f s) = vdisks s"
  "synchDisk (upd_stats f s) = synchDisk s"
  "kern.more (upd_stats f s) = kern.more s"
  by (simp_all add: upd_stats_def)

lemma upd_stats_commute [simp]:
  "threads_update g19 (upd_stats f s) = upd_stats f (threads_update g19 s)"
  "sems_update g20 (upd_stats f s) = upd_stats f (sems_update g20 s)"
  "locks_update g21 (upd_stats f s) = upd_stats f (locks_update g21 s)"
  "conds_update g22 (upd_stats f s) = upd_stats f (conds_update g22 s)"
  "next_addr_update g23 (upd_stats f s) = upd_stats f (next_addr_update g23 s)"
  "ThreadIDOccupied_update g24 (upd_stats f s) = upd_stats f (ThreadIDOccupied_update g24 s)"
  "thread_poiners_update g25 (upd_stats f s) = upd_stats f (thread_poiners_update g25 s)"
  "currentThread_update g26 (upd_stats f s) = upd_stats f (currentThread_update g26 s)"
  "threadToBeDestroyed_update g27 (upd_stats f s) = upd_stats f (threadToBeDestroyed_update g27 s)"
  "readyList_update g28 (upd_stats f s) = upd_stats f (readyList_update g28 s)"
  "lastSwitchTime_update g29 (upd_stats f s) = upd_stats f (lastSwitchTime_update g29 s)"
  "timers_update g30 (upd_stats f s) = upd_stats f (timers_update g30 s)"
  "random_src_update g31 (upd_stats f s) = upd_stats f (random_src_update g31 s)"
  "random_pos_update g32 (upd_stats f s) = upd_stats f (random_pos_update g32 s)"
  "machine_update g33 (upd_stats f s) = upd_stats f (machine_update g33 s)"
  "spaces_update g34 (upd_stats f s) = upd_stats f (spaces_update g34 s)"
  "vdisks_update g35 (upd_stats f s) = upd_stats f (vdisks_update g35 s)"
  "synchDisk_update g36 (upd_stats f s) = upd_stats f (synchDisk_update g36 s)"
  by (rule kern.equality; simp add: upd_stats_def)+

end
