(* ===== verification/Machine.thy ===== *)
theory Machine
  imports Kernel_State
begin

text \<open>
  The simulated machine for user programs: src/machine/machine.h, machine.cc, translate.cc and
  \<open>DelayedLoad\<close> of mipssim.cc: registers, physical memory, the frame bitmap, address translation
  through the reverse page table, the replacement routines of the page-fault handler. The kernel
  entry point \<open>ExceptionHandler\<close> is an argument of the operations that trap.
\<close>

subsection \<open>Constants\<close>

datatype ExceptionType =
  NoException | SyscallException | PageFaultException | ReadOnlyException | BusErrorException |
  AddressErrorException | OverflowException | IllegalInstrException

definition PageSize :: int where "PageSize = 128"
definition NumPhysPages :: int where "NumPhysPages = 32"
definition MemorySize :: int where "MemorySize = NumPhysPages * PageSize"
definition TLBSize :: int where "TLBSize = 4"
definition StackReg :: int where "StackReg = 29"
definition RetAddrReg :: int where "RetAddrReg = 31"
definition HiReg :: int where "HiReg = 32"
definition LoReg :: int where "LoReg = 33"
definition PCReg :: int where "PCReg = 34"
definition NextPCReg :: int where "NextPCReg = 35"
definition PrevPCReg :: int where "PrevPCReg = 36"
definition LoadReg :: int where "LoadReg = 37"
definition LoadValueReg :: int where "LoadValueReg = 38"
definition BadVAddrReg :: int where "BadVAddrReg = 39"

lemmas reg_defs =
  StackReg_def RetAddrReg_def HiReg_def LoReg_def PCReg_def NextPCReg_def PrevPCReg_def
  LoadReg_def LoadValueReg_def BadVAddrReg_def NumTotalRegs_def

lemmas mem_defs = PageSize_def NumPhysPages_def MemorySize_def TLBSize_def

subsection \<open>Construction\<close>

text \<open>
  \<open>junk\<close> is the content of the object before the constructor runs: the constructor leaves
  the dirty bits, the counters and most of a TLB entry as they were. \<open>use_tlb\<close> is the
  compile-time switch USE_TLB.
\<close>

definition rt_entry_new :: "int \<Rightarrow> ReverseTranslationEntry \<Rightarrow> ReverseTranslationEntry" where
  "rt_entry_new i e =
     e\<lparr>physicalPage := word_of_int i, virtualPage := -1, valid := False, rt_tid := -1,
       readOnly := False, use := False, LRU := -1\<rparr>"

fun rt_init :: "int list \<Rightarrow> ReverseTranslationEntry list \<Rightarrow> ReverseTranslationEntry list result" where
  "rt_init [] rt = Ok rt"
| "rt_init (i # is) rt =
     rbind (aget rt i) (\<lambda>e. rbind (aset rt i (rt_entry_new i e)) (\<lambda>rt. rt_init is rt))"

definition Machine_new :: "bool \<Rightarrow> Machine \<Rightarrow> TranslationEntry list \<Rightarrow> bool \<Rightarrow> Machine result" where
  "Machine_new use_tlb junk tlb_junk debug =
     rbind (rt_init [0..NumPhysPages - 1] (rt_page_table junk)) (\<lambda>rt.
       let m = junk\<lparr>registers := replicate NumTotalRegs 0,
                    mainMemory := replicate (nat MemorySize) 0,
                    memoryBitmap := replicate (nat NumPhysPages) False,
                    rt_page_table := rt, pageTable := NullTable, singleStep := debug\<rparr>
       in Ok (if use_tlb
              then m\<lparr>tlb := Some (map (\<lambda>e. e\<lparr>valid := False, LRU := -1\<rparr>)
                                        (take (nat TLBSize) tlb_junk)),
                     tlbsize := word_of_int TLBSize\<rparr>
              else m\<lparr>tlb := None\<rparr>))"

subsection \<open>Registers\<close>

definition ReadRegister :: "int \<Rightarrow> Machine \<Rightarrow> u32 result" where
  "ReadRegister num m = ASSERT (num \<ge> 0 \<and> num < int NumTotalRegs) (aget (registers m) num)"

definition WriteRegister :: "int \<Rightarrow> u32 \<Rightarrow> Machine \<Rightarrow> Machine result" where
  "WriteRegister num value m =
     ASSERT (num \<ge> 0 \<and> num < int NumTotalRegs)
       (rbind (aset (registers m) num value) (\<lambda>rs. Ok (m\<lparr>registers := rs\<rparr>)))"

definition AdvancePC :: "Machine \<Rightarrow> Machine result" where
  "AdvancePC m =
     rbind (aget (registers m) PCReg) (\<lambda>pc.
     rbind (WriteRegister PrevPCReg pc m) (\<lambda>m.
     rbind (aget (registers m) PCReg) (\<lambda>pc.
     rbind (WriteRegister PCReg (pc + 4) m) (\<lambda>m.
     rbind (aget (registers m) NextPCReg) (\<lambda>npc.
     WriteRegister NextPCReg (npc + 4) m)))))"

definition DelayedLoad :: "u32 \<Rightarrow> u32 \<Rightarrow> Machine \<Rightarrow> Machine result" where
  "DelayedLoad nextReg nextValue m =
     rbind (aget (registers m) LoadReg) (\<lambda>r.
     rbind (aget (registers m) LoadValueReg) (\<lambda>v.
     rbind (aset (registers m) (sint r) v) (\<lambda>rs.
     rbind (aset rs LoadReg nextReg) (\<lambda>rs.
     rbind (aset rs LoadValueReg nextValue) (\<lambda>rs.
     rbind (aset rs 0 0) (\<lambda>rs. Ok (m\<lparr>registers := rs\<rparr>)))))))"

subsection \<open>Frames\<close>

text \<open>\<open>findMemory\<close> returns an unsigned int: \<open>-1\<close> comes out as the largest one.\<close>

fun findMemory_loop :: "int list \<Rightarrow> Machine \<Rightarrow> (u32 \<times> Machine) result" where
  "findMemory_loop [] m = Ok (-1, m)"
| "findMemory_loop (i # is) m =
     rbind (aget (memoryBitmap m) i) (\<lambda>b.
       if \<not> b
       then rbind (aset (memoryBitmap m) i True) (\<lambda>bm. Ok (word_of_int i, m\<lparr>memoryBitmap := bm\<rparr>))
       else findMemory_loop is m)"

definition findMemory :: "Machine \<Rightarrow> (u32 \<times> Machine) result" where
  "findMemory m = findMemory_loop [0..NumPhysPages - 1] m"

fun ClearMemory_loop :: "int list \<Rightarrow> Machine \<Rightarrow> Machine result" where
  "ClearMemory_loop [] m = Ok m"
| "ClearMemory_loop (i # is) m =
     rbind (aget (rt_page_table m) i) (\<lambda>e.
       if \<not> valid e then ClearMemory_loop is m
       else rbind (aget (memoryBitmap m) (sint (physicalPage e))) (\<lambda>b.
         if \<not> b then ClearMemory_loop is m
         else rbind (aset (memoryBitmap m) (sint (physicalPage e)) False) (\<lambda>bm.
           ClearMemory_loop is (m\<lparr>memoryBitmap := bm\<rparr>))))"

definition ClearMemory :: "Machine \<Rightarrow> Machine result" where
  "ClearMemory m = ClearMemory_loop [0..NumPhysPages - 1] m"

subsection \<open>Address translation\<close>

text \<open>Host and simulated machine are both little endian.\<close>

definition WordToHost :: "u32 \<Rightarrow> u32" where "WordToHost word = word"
definition ShortToHost :: "u16 \<Rightarrow> u16" where "ShortToHost shortword = shortword"
definition WordToMachine :: "u32 \<Rightarrow> u32" where "WordToMachine word = WordToHost word"
definition ShortToMachine :: "u16 \<Rightarrow> u16" where "ShortToMachine shortword = ShortToHost shortword"

definition mach_get :: "'a kern_scheme \<Rightarrow> Machine result" where
  "mach_get s = the_nonnull (machine s)"

definition mach_do :: "(Machine \<Rightarrow> Machine result) \<Rightarrow> 'a kern_scheme \<Rightarrow> 'a kern_scheme result" where
  "mach_do f s = rbind (mach_get s) (\<lambda>m. rbind (f m) (\<lambda>m. Ok (s\<lparr>machine := Some m\<rparr>)))"

definition current_tid :: "'a kern_scheme \<Rightarrow> int result" where
  "current_tid s = rbind (the_ptr (threads s (currentThread s))) (\<lambda>t. Ok (th_tid t))"

text \<open>The search for a valid entry of the current thread for the page; \<open>None\<close> is the null
  \<open>rev_entry\<close>.\<close>

fun rt_find :: "int list \<Rightarrow> u32 \<Rightarrow> int \<Rightarrow> ReverseTranslationEntry list \<Rightarrow> int option result" where
  "rt_find [] vpn tid rt = Ok None"
| "rt_find (i # is) vpn tid rt =
     rbind (aget rt i) (\<lambda>e.
       if valid e \<and> virtualPage e = vpn \<and> rt_tid e = tid then Ok (Some i)
       else rt_find is vpn tid rt)"

text \<open>\<open>Inl\<close> is the exception, \<open>Inr\<close> the physical address.\<close>

definition Translate :: "u32 \<Rightarrow> int \<Rightarrow> bool \<Rightarrow> int \<Rightarrow> Machine \<Rightarrow>
    ((ExceptionType + u32) \<times> Machine) result" where
  "Translate virtAddr sz writing tid m =
     (if sz = 4 \<and> virtAddr AND 3 \<noteq> 0 \<or> sz = 2 \<and> virtAddr AND 1 \<noteq> 0
      then Ok (Inl AddressErrorException, m)
      else
        let vpn = virtAddr div word_of_int PageSize;
            offset = virtAddr mod word_of_int PageSize;
            m = m\<lparr>tlbTimes := tlbTimes m + 1\<rparr>
        in rbind (rt_find [0..NumPhysPages - 1] vpn tid (rt_page_table m)) (\<lambda>found.
           case found of
             None \<Rightarrow> Ok (Inl PageFaultException, m)
           | Some i \<Rightarrow>
               rbind (aget (rt_page_table m) i) (\<lambda>entry.
                 if readOnly entry \<and> writing then Ok (Inl ReadOnlyException, m)
                 else let pageFrame = physicalPage entry in
                   if uint pageFrame \<ge> NumPhysPages then Ok (Inl BusErrorException, m)
                   else
                     let entry = entry\<lparr>use := True, dirty := writing \<or> dirty entry\<rparr>;
                         physAddr = pageFrame * word_of_int PageSize + offset
                     in rbind (aset (rt_page_table m) i entry) (\<lambda>rt.
                          ASSERT (sint physAddr \<ge> 0 \<and> sint physAddr + sz \<le> MemorySize)
                            (Ok (Inr physAddr, m\<lparr>rt_page_table := rt\<rparr>))))))"

subsection \<open>Traps and memory access\<close>

definition RaiseException :: "(ExceptionType \<Rightarrow> 'a kern_scheme \<Rightarrow> 'a kern_scheme result) \<Rightarrow>
    ExceptionType \<Rightarrow> u32 \<Rightarrow> 'a kern_scheme \<Rightarrow> 'a kern_scheme result" where
  "RaiseException ExceptionHandler which badVAddr s =
     rbind (mach_do (\<lambda>m. rbind (aset (registers m) BadVAddrReg badVAddr) (\<lambda>rs.
                          Ok (m\<lparr>registers := rs\<rparr>))) s) (\<lambda>s.
     rbind (mach_do (DelayedLoad 0 0) s) (\<lambda>s.
     rbind (ExceptionHandler which (setStatus SystemMode s)) (\<lambda>s.
     Ok (setStatus UserMode s))))"

definition mem_read :: "nat \<Rightarrow> int \<Rightarrow> byte list \<Rightarrow> byte list result" where
  "mem_read n a mem =
     (if 0 \<le> a \<and> a + int n \<le> int (length mem) then Ok (take n (drop (nat a) mem))
      else Err OutOfBounds)"

definition mem_write :: "byte list \<Rightarrow> int \<Rightarrow> byte list \<Rightarrow> byte list result" where
  "mem_write bs a mem =
     (if 0 \<le> a \<and> a + int (length bs) \<le> int (length mem) then Ok (overwrite (nat a) bs mem)
      else Err OutOfBounds)"

text \<open>A char is signed; \<open>None\<close> is the result FALSE.\<close>

definition load :: "int \<Rightarrow> int \<Rightarrow> byte list \<Rightarrow> u32 result" where
  "load sz a mem =
     (if sz = 1 then rbind (aget mem a) (\<lambda>b. Ok (scast b))
      else if sz = 2 then rbind (mem_read 2 a mem) (\<lambda>bs. Ok (ucast (ShortToHost (u16_of_le bs))))
      else if sz = 4 then rbind (mem_read 4 a mem) (\<lambda>bs. Ok (WordToHost (u32_of_le bs)))
      else Err AssertFailed)"

definition store :: "int \<Rightarrow> int \<Rightarrow> u32 \<Rightarrow> byte list \<Rightarrow> byte list result" where
  "store sz a value mem =
     (if sz = 1 then aset mem a (ucast (value AND 0xff))
      else if sz = 2 then mem_write (u16_to_le (ShortToMachine (ucast (value AND 0xffff)))) a mem
      else if sz = 4 then mem_write (u32_to_le (WordToMachine value)) a mem
      else Err AssertFailed)"

definition ReadMem :: "(ExceptionType \<Rightarrow> 'a kern_scheme \<Rightarrow> 'a kern_scheme result) \<Rightarrow>
    u32 \<Rightarrow> int \<Rightarrow> 'a kern_scheme \<Rightarrow> (u32 option \<times> 'a kern_scheme) result" where
  "ReadMem ExceptionHandler addr sz s =
     rbind (mach_get s) (\<lambda>m.
     rbind (current_tid s) (\<lambda>tid.
     rbind (Translate addr sz False tid m) (\<lambda>(r, m).
       let s = s\<lparr>machine := Some m\<rparr> in
       case r of
         Inl exception \<Rightarrow>
           rbind (RaiseException ExceptionHandler exception addr s) (\<lambda>s. Ok (None, s))
       | Inr physicalAddress \<Rightarrow>
           rbind (load sz (sint physicalAddress) (mainMemory m)) (\<lambda>v. Ok (Some v, s)))))"

definition WriteMem :: "(ExceptionType \<Rightarrow> 'a kern_scheme \<Rightarrow> 'a kern_scheme result) \<Rightarrow>
    u32 \<Rightarrow> int \<Rightarrow> u32 \<Rightarrow> 'a kern_scheme \<Rightarrow> (bool \<times> 'a kern_scheme) result" where
  "WriteMem ExceptionHandler addr sz value s =
     rbind (mach_get s) (\<lambda>m.
     rbind (current_tid s) (\<lambda>tid.
     rbind (Translate addr sz True tid m) (\<lambda>(r, m).
       let s = s\<lparr>machine := Some m\<rparr> in
       case r of
         Inl exception \<Rightarrow>
           rbind (RaiseException ExceptionHandler exception addr s) (\<lambda>s. Ok (False, s))
       | Inr physicalAddress \<Rightarrow>
           rbind (store sz (sint physicalAddress) value (mainMemory m)) (\<lambda>mem.
             Ok (True, s\<lparr>machine := Some (m\<lparr>mainMemory := mem\<rparr>)\<rparr>)))))"

subsection \<open>Replacement\<close>

text \<open>\<open>first_invalid\<close> is the search for a free entry; the result \<open>-1\<close> means none.\<close>

fun first_invalid :: "int list \<Rightarrow> 'b TranslationEntry_scheme list \<Rightarrow> int result" where
  "first_invalid [] es = Ok (-1)"
| "first_invalid (i # is) es =
     rbind (aget es i) (\<lambda>e. if \<not> valid e then Ok i else first_invalid is es)"

fun lru_min :: "int list \<Rightarrow> TranslationEntry list \<Rightarrow> int \<Rightarrow> int \<Rightarrow> int result" where
  "lru_min [] es minTag position = Ok position"
| "lru_min (i # is) es minTag position =
     rbind (aget es i) (\<lambda>e.
       if LRU e < minTag then lru_min is es (LRU e) i else lru_min is es minTag position)"

fun lru_age :: "int list \<Rightarrow> int \<Rightarrow> TranslationEntry list \<Rightarrow> TranslationEntry list result" where
  "lru_age [] position es = Ok es"
| "lru_age (j # js) position es =
     (if j = position then lru_age js position es
      else rbind (aget es j) (\<lambda>e. rbind (aset es j (e\<lparr>LRU := LRU e - 1\<rparr>)) (\<lambda>es.
             lru_age js position es)))"

definition table_get :: "table \<Rightarrow> int \<Rightarrow> TranslationEntry result" where
  "table_get t i =
     (case t of NullTable \<Rightarrow> Err NullDeref | WildTable \<Rightarrow> Err Uninitialised | Table es \<Rightarrow> aget es i)"

definition tlbReplace :: "u32 \<Rightarrow> Machine \<Rightarrow> Machine result" where
  "tlbReplace address m =
     (let vpn = address div word_of_int PageSize in
      rbind (the_nonnull (tlb m)) (\<lambda>es.
      rbind (first_invalid [0..TLBSize - 1] es) (\<lambda>position.
      rbind (if position = -1
             then rbind (lru_min [0..TLBSize - 1] es TLBSize (-1)) (\<lambda>position.
                  rbind (lru_age [0..TLBSize - 1] position es) (\<lambda>es.
                  rbind (aget es position) (\<lambda>e.
                  rbind (aset es position (e\<lparr>LRU := TLBSize - 1\<rparr>)) (\<lambda>es. Ok (position, es)))))
             else Ok (position, es)) (\<lambda>(position, es).
      rbind (table_get (pageTable m) (uint vpn)) (\<lambda>pte.
      rbind (aget es position) (\<lambda>e.
      rbind (aset es position
               (e\<lparr>virtualPage := vpn, physicalPage := physicalPage pte, valid := True,
                  use := False, dirty := False\<rparr>)) (\<lambda>es.
      Ok (m\<lparr>tlb := Some es\<rparr>))))))))"

text \<open>\<open>thread_poiners[tid]->space->disk\<close>: the address of the array of bytes.\<close>

definition vdisk_of :: "int \<Rightarrow> 'a kern_scheme \<Rightarrow> (nat \<times> byte list) result" where
  "vdisk_of tid s =
     rbind (aget (thread_poiners s) tid) (\<lambda>p.
     rbind (the_nonnull p) (\<lambda>t.
     rbind (the_ptr (threads s t)) (\<lambda>th.
     rbind (the_nonnull (th_space th)) (\<lambda>sp.
     rbind (the_ptr (spaces s sp)) (\<lambda>space.
     rbind (the_nonnull (as_disk space)) (\<lambda>d.
     rbind (the_ptr (vdisks s d)) (\<lambda>bs. Ok (d, bs))))))))"

text \<open>The three parts of \<open>ReverseTableReplace\<close>: the choice of an entry, saving a dirty page, and
  reading the page in.\<close>

definition replace_victim :: "Machine \<Rightarrow> 'a kern_scheme \<Rightarrow> (int \<times> 'a kern_scheme) result" where
  "replace_victim m s =
     rbind (first_invalid [0..TLBSize - 1] (rt_page_table m)) (\<lambda>position.
       if position = -1 then let (r, s) = Random s in Ok (r smod NumPhysPages, s)
       else Ok (position, s))"

definition replace_save :: "Machine \<Rightarrow> ReverseTranslationEntry \<Rightarrow> 'a kern_scheme \<Rightarrow> 'a kern_scheme result" where
  "replace_save m e s =
     (if valid e \<and> dirty e
      then rbind (vdisk_of (rt_tid e) s) (\<lambda>(d, bs).
           rbind (copy_loop [0..PageSize - 1] (mainMemory m) (sint (physicalPage e) * PageSize)
                    bs (sint (virtualPage e) * PageSize)) (\<lambda>bs.
           Ok (s\<lparr>vdisks := (vdisks s)(d := Some bs)\<rparr>)))
      else Ok s)"

definition replace_load :: "u32 \<Rightarrow> int \<Rightarrow> Machine \<Rightarrow> ReverseTranslationEntry \<Rightarrow> 'a kern_scheme \<Rightarrow>
    'a kern_scheme result" where
  "replace_load vpn position m e s =
     rbind (current_tid s) (\<lambda>tid.
     rbind (vdisk_of tid s) (\<lambda>(d, bs).
     rbind (copy_loop [0..PageSize - 1] bs (uint (vpn * word_of_int PageSize))
              (mainMemory m) (sint (physicalPage e) * PageSize)) (\<lambda>mem.
     rbind (aset (rt_page_table m) position
              (e\<lparr>virtualPage := vpn, valid := True, dirty := False, rt_tid := tid\<rparr>)) (\<lambda>rt.
     Ok (s\<lparr>machine := Some (m\<lparr>mainMemory := mem, rt_page_table := rt\<rparr>)\<rparr>)))))"

definition ReverseTableReplace :: "u32 \<Rightarrow> 'a kern_scheme \<Rightarrow> 'a kern_scheme result" where
  "ReverseTableReplace address s =
     (let vpn = address div word_of_int PageSize in
      rbind (mach_get s) (\<lambda>m.
      rbind (replace_victim m s) (\<lambda>(position, s).
      rbind (aget (rt_page_table m) position) (\<lambda>e.
      rbind (replace_save m e s) (\<lambda>s.
      replace_load vpn position m e s)))))"

end
