(* ===== verification/Threads.thy ===== *)
theory Threads
  imports Machine
begin

text \<open>
  Threads and the scheduler: src/threads/thread.cc, thread.h, scheduler.cc, and the timer
  handlers and the thread table of system.cc. The context switch \<open>SWITCH\<close> is machine code: \<open>Run\<close>
  is split at it into what the old thread does before (\<open>Run_before\<close>) and what a thread does
  when it is switched back in (\<open>Run_after\<close>). The operations in direct style follow one thread:
  they return when that thread is the one that runs next, and stop with the fault
  \<open>ContextSwitch\<close> when the processor goes to another one.
\<close>

subsection \<open>Thread control blocks\<close>

definition STACK_FENCEPOST :: u32 where "STACK_FENCEPOST = 0xdeadbeef"

definition thread_get :: "nat \<Rightarrow> 'a kern_scheme \<Rightarrow> Thread result" where
  "thread_get t s = the_ptr (threads s t)"

definition thread_upd :: "nat \<Rightarrow> (Thread \<Rightarrow> Thread) \<Rightarrow> 'a kern_scheme \<Rightarrow> 'a kern_scheme result" where
  "thread_upd t f s =
     rbind (thread_get t s) (\<lambda>th. Ok (s\<lparr>threads := (threads s)(t := Some (f th))\<rparr>))"

fun find_tid :: "int list \<Rightarrow> bool list \<Rightarrow> int option result" where
  "find_tid [] occ = Ok None"
| "find_tid (i # is) occ = rbind (aget occ i) (\<lambda>b. if \<not> b then Ok (Some i) else find_tid is occ)"

text \<open>\<open>junk\<close> is the content of the user registers before the constructor, which leaves them.\<close>

definition Thread_new :: "u32 list \<Rightarrow> string \<Rightarrow> int \<Rightarrow> 'a kern_scheme \<Rightarrow>
    (nat \<times> 'a kern_scheme) result" where
  "Thread_new junk threadName Priority s =
     (let this = next_addr s in
      rbind (find_tid [0..int MaxThreadCount - 1] (ThreadIDOccupied s)) (\<lambda>r.
      case r of
        None \<Rightarrow> Err AssertFailed
      | Some i \<Rightarrow>
          rbind (aset (ThreadIDOccupied s) i True) (\<lambda>occ.
          rbind (aset (thread_poiners s) i (Some this)) (\<lambda>ptrs.
          ASSERT (Priority \<ge> 0 \<and> Priority < 256)
            (Ok (this, s\<lparr>threads := (threads s)(this :=
                           Some \<lparr>th_start = None, th_uid = 0, th_tid = i, th_priority = Priority,
                                 th_stack = None, th_status = JUST_CREATED, th_name = threadName,
                                 th_userRegisters = junk, th_space = None\<rparr>),
                         ThreadIDOccupied := occ, thread_poiners := ptrs,
                         next_addr := Suc this\<rparr>))))))"

definition Thread_delete :: "nat \<Rightarrow> 'a kern_scheme \<Rightarrow> 'a kern_scheme result" where
  "Thread_delete this s =
     rbind (thread_get this s) (\<lambda>th.
     ASSERT (this \<noteq> currentThread s)
       (rbind (aset (ThreadIDOccupied s) (th_tid th) False) (\<lambda>occ.
        rbind (aset (thread_poiners s) (th_tid th) None) (\<lambda>ptrs.
        Ok (s\<lparr>threads := (threads s)(this := None), ThreadIDOccupied := occ,
              thread_poiners := ptrs\<rparr>)))))"

definition StackAllocate :: "nat \<Rightarrow> nat \<Rightarrow> int \<Rightarrow> 'a kern_scheme \<Rightarrow> 'a kern_scheme result" where
  "StackAllocate this func arg s =
     thread_upd this (\<lambda>th. th\<lparr>th_stack := Some STACK_FENCEPOST, th_start := Some (func, arg)\<rparr>) s"

definition CheckOverflow :: "nat \<Rightarrow> 'a kern_scheme \<Rightarrow> 'a kern_scheme result" where
  "CheckOverflow this s =
     rbind (thread_get this s) (\<lambda>th.
       case th_stack th of None \<Rightarrow> Ok s | Some w \<Rightarrow> ASSERT (w = STACK_FENCEPOST) (Ok s))"

fun save_regs :: "int list \<Rightarrow> Machine \<Rightarrow> u32 list \<Rightarrow> u32 list result" where
  "save_regs [] m us = Ok us"
| "save_regs (i # is) m us =
     rbind (ReadRegister i m) (\<lambda>v. rbind (aset us i v) (\<lambda>us. save_regs is m us))"

fun restore_regs :: "int list \<Rightarrow> u32 list \<Rightarrow> Machine \<Rightarrow> Machine result" where
  "restore_regs [] us m = Ok m"
| "restore_regs (i # is) us m =
     rbind (aget us i) (\<lambda>v. rbind (WriteRegister i v m) (\<lambda>m. restore_regs is us m))"

definition SaveUserState :: "nat \<Rightarrow> 'a kern_scheme \<Rightarrow> 'a kern_scheme result" where
  "SaveUserState this s =
     rbind (mach_get s) (\<lambda>m.
     rbind (thread_get this s) (\<lambda>th.
     rbind (save_regs [0..int NumTotalRegs - 1] m (th_userRegisters th)) (\<lambda>us.
     thread_upd this (\<lambda>th. th\<lparr>th_userRegisters := us\<rparr>) s)))"

definition RestoreUserState :: "nat \<Rightarrow> 'a kern_scheme \<Rightarrow> 'a kern_scheme result" where
  "RestoreUserState this s =
     rbind (thread_get this s) (\<lambda>th.
     mach_do (restore_regs [0..int NumTotalRegs - 1] (th_userRegisters th)) s)"

text \<open>\<open>AddrSpace::SaveState\<close> runs a loop with an empty body over the TLB;
  \<open>RestoreState\<close> hands the page table to the machine.\<close>

definition AddrSpace_SaveState :: "AddrSpace \<Rightarrow> 'a kern_scheme \<Rightarrow> 'a kern_scheme result" where
  "AddrSpace_SaveState space s = rbind (mach_get s) (\<lambda>m. Ok s)"

definition AddrSpace_RestoreState :: "AddrSpace \<Rightarrow> 'a kern_scheme \<Rightarrow> 'a kern_scheme result" where
  "AddrSpace_RestoreState space s =
     mach_do (\<lambda>m. Ok (m\<lparr>pageTable := as_pageTable space, pageTableSize := as_numPages space\<rparr>)) s"

definition space_get :: "nat \<Rightarrow> 'a kern_scheme \<Rightarrow> AddrSpace result" where
  "space_get sp s = the_ptr (spaces s sp)"

subsection \<open>The scheduler\<close>

definition ReadyToRun :: "nat \<Rightarrow> 'a kern_scheme \<Rightarrow> 'a kern_scheme result" where
  "ReadyToRun thread s =
     rbind (thread_get thread s) (\<lambda>th.
     rbind (thread_upd thread (\<lambda>th. th\<lparr>th_status := READY\<rparr>) s) (\<lambda>s.
     Ok (s\<lparr>readyList := kl_insert thread (th_priority th) (readyList s)\<rparr>)))"

definition FindNextToRun :: "'a kern_scheme \<Rightarrow> nat option \<times> 'a kern_scheme" where
  "FindNextToRun s =
     (case kl_remove (readyList s) of
        (None, q) \<Rightarrow> (None, s\<lparr>readyList := q\<rparr>)
      | (Some (k, t), q) \<Rightarrow> (Some t, s\<lparr>readyList := q\<rparr>))"

definition Run_before :: "nat \<Rightarrow> 'a kern_scheme \<Rightarrow> 'a kern_scheme result" where
  "Run_before nextThread s =
     rbind (thread_get (currentThread s) s) (\<lambda>old.
     rbind (case th_space old of
              None \<Rightarrow> Ok s
            | Some sp \<Rightarrow>
                rbind (SaveUserState (currentThread s) s) (\<lambda>s.
                rbind (space_get sp s) (\<lambda>space. AddrSpace_SaveState space s))) (\<lambda>s.
     rbind (CheckOverflow (currentThread s) s) (\<lambda>s.
     thread_upd nextThread (\<lambda>th. th\<lparr>th_status := RUNNING\<rparr>) (s\<lparr>currentThread := nextThread\<rparr>))))"

definition Run_after :: "'a kern_scheme \<Rightarrow> 'a kern_scheme result" where
  "Run_after s =
     rbind (case threadToBeDestroyed s of
              None \<Rightarrow> Ok s
            | Some t \<Rightarrow>
                rbind (Thread_delete t s) (\<lambda>s. Ok (s\<lparr>threadToBeDestroyed := None\<rparr>))) (\<lambda>s.
     rbind (thread_get (currentThread s) s) (\<lambda>th.
       case th_space th of
         None \<Rightarrow> Ok s
       | Some sp \<Rightarrow>
           rbind (RestoreUserState (currentThread s) s) (\<lambda>s.
           rbind (space_get sp s) (\<lambda>space. AddrSpace_RestoreState space s))))"

definition Run :: "nat \<Rightarrow> 'a kern_scheme \<Rightarrow> 'a kern_scheme result" where
  "Run nextThread s =
     (let oldThread = currentThread s in
      rbind (Run_before nextThread s) (\<lambda>s.
        if nextThread = oldThread then Run_after s else Err ContextSwitch))"

subsection \<open>Thread operations\<close>

definition Fork :: "'a kern_scheme callbacks \<Rightarrow> nat \<Rightarrow> nat \<Rightarrow> int \<Rightarrow> 'a kern_scheme \<Rightarrow>
    'a kern_scheme result" where
  "Fork cb this func arg s =
     rbind (StackAllocate this func arg s) (\<lambda>s.
     rbind (SetLevel cb IntOff s) (\<lambda>(oldLevel, s).
     rbind (ReadyToRun this s) (\<lambda>s.
     rbind (SetLevel cb oldLevel s) (\<lambda>(_, s). Ok s))))"

definition Yield :: "'a kern_scheme callbacks \<Rightarrow> nat \<Rightarrow> 'a kern_scheme \<Rightarrow> 'a kern_scheme result" where
  "Yield cb this s =
     rbind (SetLevel cb IntOff s) (\<lambda>(oldLevel, s).
     ASSERT (this = currentThread s)
       (rbind (case FindNextToRun s of
                 (None, s) \<Rightarrow> Ok s
               | (Some nextThread, s) \<Rightarrow> rbind (ReadyToRun this s) (\<lambda>s. Run nextThread s)) (\<lambda>s.
        rbind (SetLevel cb oldLevel s) (\<lambda>(_, s). Ok s))))"

text \<open>\<^verbatim>\<open>while ((nextThread = scheduler->FindNextToRun()) == NULL) interrupt->Idle();\<close>\<close>

partial_function (option) sleep_loop :: "'a kern_scheme callbacks \<Rightarrow> 'a kern_scheme \<Rightarrow>
    (nat \<times> 'a kern_scheme) result option" where
  "sleep_loop cb s =
     (case FindNextToRun s of
        (Some nextThread, s) \<Rightarrow> Some (Ok (nextThread, s))
      | (None, s) \<Rightarrow>
          (case Idle cb s of Err e \<Rightarrow> Some (Err e) | Ok s \<Rightarrow> sleep_loop cb s))"

definition Sleep :: "'a kern_scheme callbacks \<Rightarrow> nat \<Rightarrow> 'a kern_scheme \<Rightarrow> 'a kern_scheme result" where
  "Sleep cb this s =
     ASSERT (this = currentThread s) (ASSERT (level (intr s) = IntOff)
       (rbind (thread_upd this (\<lambda>th. th\<lparr>th_status := BLOCKED\<rparr>) s) (\<lambda>s.
        rbind (loop_result (sleep_loop cb s)) (\<lambda>(nextThread, s). Run nextThread s))))"

definition Finish :: "'a kern_scheme callbacks \<Rightarrow> nat \<Rightarrow> 'a kern_scheme \<Rightarrow> 'a kern_scheme result" where
  "Finish cb this s =
     rbind (SetLevel cb IntOff s) (\<lambda>(_, s).
     ASSERT (this = currentThread s)
       (Sleep cb this (s\<lparr>threadToBeDestroyed := Some (currentThread s)\<rparr>)))"

subsection \<open>Timer handlers and the thread listing\<close>

definition timer_routine :: "TimerRoutine \<Rightarrow> 'a kern_scheme \<Rightarrow> 'a kern_scheme result" where
  "timer_routine h s =
     (case h of
        TimerInterruptHandler \<Rightarrow> if mstatus (intr s) \<noteq> IdleMode then YieldOnReturn s else Ok s
      | RoundingTimerInterruptHandler \<Rightarrow>
          let timeDuration = totalTicks (stats s) - lastSwitchTime s in
          if timeDuration \<ge> TimerTicks
          then if mstatus (intr s) \<noteq> IdleMode
               then rbind (YieldOnReturn s) (\<lambda>s. Ok (s\<lparr>lastSwitchTime := totalTicks (stats s)\<rparr>))
               else Ok s
          else Ok s)"

definition draw :: "bool \<Rightarrow> 'a kern_scheme \<Rightarrow> int \<times> 'a kern_scheme" where
  "draw randomize s = (if randomize then Random s else (0, s))"

definition timer_new :: "Timer \<Rightarrow> int \<Rightarrow> 'a kern_scheme \<Rightarrow> 'a kern_scheme result" where
  "timer_new tm this s =
     (let (r, s) = draw (tm_randomize tm) (s\<lparr>timers := (timers s)(this := Some tm)\<rparr>)
      in Timer_new (tm_randomize tm) r this s)"

definition timer_expired :: "int \<Rightarrow> 'a kern_scheme \<Rightarrow> 'a kern_scheme result" where
  "timer_expired this s =
     rbind (the_ptr (timers s this)) (\<lambda>tm.
       let (r, s) = draw (tm_randomize tm) s
       in TimerExpired (tm_randomize tm) r this (timer_routine (tm_handler tm)) s)"

fun status_rows :: "int list \<Rightarrow> 'a kern_scheme \<Rightarrow> (string \<times> int \<times> int \<times> ThreadStatus \<times> int) list result" where
  "status_rows [] s = Ok []"
| "status_rows (i # is) s =
     rbind (aget (thread_poiners s) i) (\<lambda>p.
       case p of
         None \<Rightarrow> status_rows is s
       | Some t \<Rightarrow>
           rbind (thread_get t s) (\<lambda>th.
           rbind (status_rows is s) (\<lambda>rows.
           Ok ((th_name th, th_uid th, th_tid th, th_status th, th_priority th) # rows))))"

text \<open>The lines that the \<open>TS\<close> command prints.\<close>

definition GetThreadStatus :: "'a kern_scheme \<Rightarrow> (string \<times> int \<times> int \<times> ThreadStatus \<times> int) list result" where
  "GetThreadStatus s = status_rows [0..int MaxThreadCount - 1] s"

end
