(* ===== verification/Synch.thy ===== *)
theory Synch
  imports Threads
begin

text \<open>
  Semaphores, locks and condition variables: src/threads/synch.cc and synch.h, in direct style
  for the thread that calls them.
\<close>

subsection \<open>Semaphores\<close>

definition sem_get :: "nat \<Rightarrow> 'a kern_scheme \<Rightarrow> Semaphore result" where
  "sem_get a s = the_ptr (sems s a)"

definition sem_upd :: "nat \<Rightarrow> (Semaphore \<Rightarrow> Semaphore) \<Rightarrow> 'a kern_scheme \<Rightarrow> 'a kern_scheme result" where
  "sem_upd a f s = rbind (sem_get a s) (\<lambda>x. Ok (s\<lparr>sems := (sems s)(a := Some (f x))\<rparr>))"

definition Semaphore_default :: "'a kern_scheme \<Rightarrow> nat \<times> 'a kern_scheme" where
  "Semaphore_default s =
     (let a = next_addr s
      in (a, s\<lparr>sems := (sems s)(a := Some \<lparr>sem_name = None, sem_value = 1, sem_queue = None\<rparr>),
               next_addr := Suc a\<rparr>))"

definition Semaphore_new :: "string \<Rightarrow> int \<Rightarrow> 'a kern_scheme \<Rightarrow> nat \<times> 'a kern_scheme" where
  "Semaphore_new debugName initialValue s =
     (let a = next_addr s
      in (a, s\<lparr>sems := (sems s)(a := Some \<lparr>sem_name = Some debugName, sem_value = initialValue,
                                             sem_queue = Some []\<rparr>),
               next_addr := Suc a\<rparr>))"

definition Semaphore_delete :: "nat \<Rightarrow> 'a kern_scheme \<Rightarrow> 'a kern_scheme result" where
  "Semaphore_delete a s = rbind (sem_get a s) (\<lambda>x. Ok (s\<lparr>sems := (sems s)(a := None)\<rparr>))"

text \<open>\<^verbatim>\<open>while (value == 0) { queue->Append(currentThread); currentThread->Sleep(); }\<close>\<close>

partial_function (option) P_loop :: "'a kern_scheme callbacks \<Rightarrow> nat \<Rightarrow> 'a kern_scheme \<Rightarrow>
    'a kern_scheme result option" where
  "P_loop cb a s =
     (case sem_get a s of
        Err e \<Rightarrow> Some (Err e)
      | Ok x \<Rightarrow>
          if sem_value x \<noteq> 0 then Some (Ok s)
          else
            (case rbind (the_nonnull (sem_queue x)) (\<lambda>q.
                  rbind (sem_upd a (\<lambda>x. x\<lparr>sem_queue := Some (kl_append (currentThread s) q)\<rparr>) s) (\<lambda>s.
                  Sleep cb (currentThread s) s)) of
               Err e \<Rightarrow> Some (Err e)
             | Ok s \<Rightarrow> P_loop cb a s))"

definition Semaphore_P :: "'a kern_scheme callbacks \<Rightarrow> nat \<Rightarrow> 'a kern_scheme \<Rightarrow> 'a kern_scheme result" where
  "Semaphore_P cb a s =
     rbind (SetLevel cb IntOff s) (\<lambda>(oldLevel, s).
     rbind (loop_result (P_loop cb a s)) (\<lambda>s.
     rbind (sem_upd a (\<lambda>x. x\<lparr>sem_value := sem_value x - 1\<rparr>) s) (\<lambda>s.
     rbind (SetLevel cb oldLevel s) (\<lambda>(_, s). Ok s))))"

definition Semaphore_V :: "'a kern_scheme callbacks \<Rightarrow> nat \<Rightarrow> 'a kern_scheme \<Rightarrow> 'a kern_scheme result" where
  "Semaphore_V cb a s =
     rbind (SetLevel cb IntOff s) (\<lambda>(oldLevel, s).
     rbind (sem_get a s) (\<lambda>x.
     rbind (the_nonnull (sem_queue x)) (\<lambda>q.
     rbind (case kl_remove q of
              (None, q') \<Rightarrow> sem_upd a (\<lambda>x. x\<lparr>sem_queue := Some q'\<rparr>) s
            | (Some (_, thread), q') \<Rightarrow>
                rbind (sem_upd a (\<lambda>x. x\<lparr>sem_queue := Some q'\<rparr>) s) (\<lambda>s. ReadyToRun thread s)) (\<lambda>s.
     rbind (sem_upd a (\<lambda>x. x\<lparr>sem_value := sem_value x + 1\<rparr>) s) (\<lambda>s.
     rbind (SetLevel cb oldLevel s) (\<lambda>(_, s). Ok s))))))"

subsection \<open>Locks\<close>

definition lock_get :: "nat \<Rightarrow> 'a kern_scheme \<Rightarrow> Lock result" where
  "lock_get a s = the_ptr (locks s a)"

definition lock_upd :: "nat \<Rightarrow> (Lock \<Rightarrow> Lock) \<Rightarrow> 'a kern_scheme \<Rightarrow> 'a kern_scheme result" where
  "lock_upd a f s = rbind (lock_get a s) (\<lambda>x. Ok (s\<lparr>locks := (locks s)(a := Some (f x))\<rparr>))"

definition Lock_new :: "string \<Rightarrow> 'a kern_scheme \<Rightarrow> nat \<times> 'a kern_scheme" where
  "Lock_new debugName s =
     (let a = next_addr s;
          (sema, s) = Semaphore_new debugName 1 (s\<lparr>next_addr := Suc a\<rparr>)
      in (a, s\<lparr>locks := (locks s)(a := Some \<lparr>lk_name = debugName, lk_sema = sema,
                                               lk_holdingThread = Unset\<rparr>)\<rparr>))"

text \<open>The destructor of \<open>Lock\<close> does not delete the semaphore.\<close>

definition Lock_delete :: "nat \<Rightarrow> 'a kern_scheme \<Rightarrow> 'a kern_scheme result" where
  "Lock_delete a s = rbind (lock_get a s) (\<lambda>x. Ok (s\<lparr>locks := (locks s)(a := None)\<rparr>))"

definition Lock_Acquire :: "'a kern_scheme callbacks \<Rightarrow> nat \<Rightarrow> 'a kern_scheme \<Rightarrow> 'a kern_scheme result" where
  "Lock_Acquire cb a s =
     rbind (lock_get a s) (\<lambda>l.
     rbind (Semaphore_P cb (lk_sema l) s) (\<lambda>s.
     lock_upd a (\<lambda>l. l\<lparr>lk_holdingThread := Held (currentThread s)\<rparr>) s))"

definition Lock_Release :: "'a kern_scheme callbacks \<Rightarrow> nat \<Rightarrow> 'a kern_scheme \<Rightarrow> 'a kern_scheme result" where
  "Lock_Release cb a s =
     rbind (lock_upd a (\<lambda>l. l\<lparr>lk_holdingThread := NoThread\<rparr>) s) (\<lambda>s.
     rbind (lock_get a s) (\<lambda>l. Semaphore_V cb (lk_sema l) s))"

definition isHeldByCurrentThread :: "nat \<Rightarrow> 'a kern_scheme \<Rightarrow> bool result" where
  "isHeldByCurrentThread a s =
     rbind (lock_get a s) (\<lambda>l.
       case lk_holdingThread l of
         Unset \<Rightarrow> Err Uninitialised
       | NoThread \<Rightarrow> Ok False
       | Held t \<Rightarrow> Ok (currentThread s = t))"

subsection \<open>Condition variables\<close>

definition cond_get :: "nat \<Rightarrow> 'a kern_scheme \<Rightarrow> Condition result" where
  "cond_get a s = the_ptr (conds s a)"

definition cond_upd :: "nat \<Rightarrow> (Condition \<Rightarrow> Condition) \<Rightarrow> 'a kern_scheme \<Rightarrow> 'a kern_scheme result" where
  "cond_upd a f s = rbind (cond_get a s) (\<lambda>x. Ok (s\<lparr>conds := (conds s)(a := Some (f x))\<rparr>))"

definition Condition_new :: "string \<Rightarrow> 'a kern_scheme \<Rightarrow> nat \<times> 'a kern_scheme" where
  "Condition_new debugName s =
     (let a = next_addr s
      in (a, s\<lparr>conds := (conds s)(a := Some \<lparr>cond_name = debugName, cond_waitingQueue = []\<rparr>),
               next_addr := Suc a\<rparr>))"

definition Condition_delete :: "nat \<Rightarrow> 'a kern_scheme \<Rightarrow> 'a kern_scheme result" where
  "Condition_delete a s = rbind (cond_get a s) (\<lambda>x. Ok (s\<lparr>conds := (conds s)(a := None)\<rparr>))"

definition Condition_Wait :: "'a kern_scheme callbacks \<Rightarrow> nat \<Rightarrow> nat \<Rightarrow> 'a kern_scheme \<Rightarrow>
    'a kern_scheme result" where
  "Condition_Wait cb c conditionLock s =
     rbind (SetLevel cb IntOff s) (\<lambda>(oldLevel, s).
     rbind (Lock_Release cb conditionLock s) (\<lambda>s.
     rbind (cond_upd c (\<lambda>x. x\<lparr>cond_waitingQueue :=
                               kl_append (currentThread s) (cond_waitingQueue x)\<rparr>) s) (\<lambda>s.
     rbind (Sleep cb (currentThread s) s) (\<lambda>s.
     rbind (Lock_Acquire cb conditionLock s) (\<lambda>s.
     rbind (SetLevel cb oldLevel s) (\<lambda>(_, s). Ok s))))))"

definition Condition_Signal :: "'a kern_scheme callbacks \<Rightarrow> nat \<Rightarrow> nat \<Rightarrow> 'a kern_scheme \<Rightarrow>
    'a kern_scheme result" where
  "Condition_Signal cb c conditionLock s =
     rbind (SetLevel cb IntOff s) (\<lambda>(oldLevel, s).
     rbind (isHeldByCurrentThread conditionLock s) (\<lambda>held.
     rbind (if held
            then rbind (cond_get c s) (\<lambda>x.
                   case kl_remove (cond_waitingQueue x) of
                     (None, q) \<Rightarrow> cond_upd c (\<lambda>x. x\<lparr>cond_waitingQueue := q\<rparr>) s
                   | (Some (_, thread), q) \<Rightarrow>
                       rbind (cond_upd c (\<lambda>x. x\<lparr>cond_waitingQueue := q\<rparr>) s) (ReadyToRun thread))
            else Ok s) (\<lambda>s.
     rbind (SetLevel cb oldLevel s) (\<lambda>(_, s). Ok s))))"

text \<open>The loop of \<open>Broadcast\<close> over the waiting queue; the last \<open>Remove\<close> finds it empty.\<close>

fun broadcast_loop :: "nat \<Rightarrow> nat klist \<Rightarrow> 'a kern_scheme \<Rightarrow> 'a kern_scheme result" where
  "broadcast_loop c [] s = cond_upd c (\<lambda>x. x\<lparr>cond_waitingQueue := []\<rparr>) s"
| "broadcast_loop c ((_, thread) # q) s =
     rbind (cond_upd c (\<lambda>x. x\<lparr>cond_waitingQueue := q\<rparr>) s) (\<lambda>s.
     rbind (ReadyToRun thread s) (\<lambda>s. broadcast_loop c q s))"

definition Condition_Broadcast :: "'a kern_scheme callbacks \<Rightarrow> nat \<Rightarrow> nat \<Rightarrow> 'a kern_scheme \<Rightarrow>
    'a kern_scheme result" where
  "Condition_Broadcast cb c conditionLock s =
     rbind (SetLevel cb IntOff s) (\<lambda>(oldLevel, s).
     rbind (isHeldByCurrentThread conditionLock s) (\<lambda>held.
     rbind (if held
            then rbind (cond_get c s) (\<lambda>x. broadcast_loop c (cond_waitingQueue x) s)
            else Ok s) (\<lambda>s.
     rbind (SetLevel cb oldLevel s) (\<lambda>(_, s). Ok s))))"

end
