(* ===== verification/Disk_Device.thy ===== *)
theory Disk_Device
  imports Synch
begin

text \<open>
  The raw disk, src/machine/disk.cc and disk.h, on a UNIX file of the host (the calls of
  src/machine/sysdep.cc it makes): sector reads and writes, the latency of a request with seek,
  rotation and track buffer, and the completion interrupt.
\<close>

subsection \<open>The host file\<close>

text \<open>\<open>Read\<close> of sysdep.cc asserts that all bytes asked for were read.\<close>

definition file_read :: "nat \<Rightarrow> nat \<Rightarrow> unix_file \<Rightarrow> byte list result" where
  "file_read off n f =
     ASSERT (off + n \<le> f_len f) (Ok (map (f_bytes f) [off..<off + n]))"

definition file_write :: "nat \<Rightarrow> byte list \<Rightarrow> unix_file \<Rightarrow> unix_file" where
  "file_write off bs f =
     \<lparr>f_len = max (f_len f) (off + length bs),
      f_bytes = (\<lambda>i. if off \<le> i \<and> i < off + length bs then bs ! (i - off) else f_bytes f i)\<rparr>"

subsection \<open>The disk\<close>

definition SectorSize :: int where "SectorSize = 128"
definition SectorsPerTrack :: int where "SectorsPerTrack = 32"
definition NumTracks :: int where "NumTracks = 32"
definition NumSectors :: int where "NumSectors = SectorsPerTrack * NumTracks"
definition MagicNumber :: u32 where "MagicNumber = 0x456789ab"
definition MagicSize :: int where "MagicSize = 4"
definition DiskSize :: int where "DiskSize = MagicSize + NumSectors * SectorSize"

lemmas disk_defs = SectorSize_def SectorsPerTrack_def NumTracks_def NumSectors_def
  MagicSize_def DiskSize_def

text \<open>The argument is the file that \<open>OpenForReadWrite\<close> finds, if any.\<close>

definition Disk_new :: "unix_file option \<Rightarrow> Disk result" where
  "Disk_new file =
     rbind (case file of
              Some f \<Rightarrow>
                rbind (file_read 0 (nat MagicSize) f) (\<lambda>bs.
                ASSERT (u32_of_le bs = MagicNumber) (Ok f))
            | None \<Rightarrow>
                Ok (file_write (nat (DiskSize - 4)) (u32_to_le 0)
                     (file_write 0 (u32_to_le MagicNumber) \<lparr>f_len = 0, f_bytes = (\<lambda>_. 0)\<rparr>))) (\<lambda>f.
     Ok \<lparr>d_file = f, d_active = False, d_lastSector = 0, d_bufferInit = 0\<rparr>)"

definition TimeToSeek :: "int \<Rightarrow> int \<Rightarrow> Disk \<Rightarrow> int \<times> int" where
  "TimeToSeek now newSector d =
     (let newTrack = newSector sdiv SectorsPerTrack;
          oldTrack = d_lastSector d sdiv SectorsPerTrack;
          seek = abs (newTrack - oldTrack) * SeekTime;
          over = (now + seek) smod RotationTime;
          rotation = (if over > 0 then RotationTime - over else 0)
      in (seek, rotation))"

definition ModuloDiff :: "int \<Rightarrow> int \<Rightarrow> int" where
  "ModuloDiff to from =
     (let toOffset = to smod SectorsPerTrack; fromOffset = from smod SectorsPerTrack
      in ((toOffset - fromOffset) + SectorsPerTrack) smod SectorsPerTrack)"

definition ComputeLatency :: "int \<Rightarrow> int \<Rightarrow> bool \<Rightarrow> Disk \<Rightarrow> int" where
  "ComputeLatency now newSector writing d =
     (let (seek, rotation) = TimeToSeek now newSector d;
          timeAfter = now + seek + rotation
      in if \<not> writing \<and> seek = 0 \<and>
            (timeAfter - d_bufferInit d) sdiv RotationTime
              > ModuloDiff newSector (d_bufferInit d sdiv RotationTime)
         then RotationTime
         else let rotation = rotation +
                    ModuloDiff newSector (timeAfter sdiv RotationTime) * RotationTime
              in seek + rotation + RotationTime)"

definition UpdateLast :: "int \<Rightarrow> int \<Rightarrow> Disk \<Rightarrow> Disk" where
  "UpdateLast now newSector d =
     (let (seek, rotate) = TimeToSeek now newSector d
      in d\<lparr>d_bufferInit := (if seek \<noteq> 0 then now + seek + rotate else d_bufferInit d),
           d_lastSector := newSector\<rparr>)"

definition sd_get :: "'a kern_scheme \<Rightarrow> SynchDisk result" where
  "sd_get s = the_nonnull (synchDisk s)"

definition disk_put :: "SynchDisk \<Rightarrow> Disk \<Rightarrow> 'a kern_scheme \<Rightarrow> 'a kern_scheme" where
  "disk_put sd d s = s\<lparr>synchDisk := Some (sd\<lparr>sd_disk := d\<rparr>)\<rparr>"

definition sector_offset :: "int \<Rightarrow> nat" where
  "sector_offset sectorNumber = nat (SectorSize * sectorNumber + MagicSize)"

definition ReadRequest :: "int \<Rightarrow> 'a kern_scheme \<Rightarrow> (byte list \<times> 'a kern_scheme) result" where
  "ReadRequest sectorNumber s =
     rbind (sd_get s) (\<lambda>sd.
       let d = sd_disk sd; now = totalTicks (stats s);
           ticks = ComputeLatency now sectorNumber False d
       in ASSERT (\<not> d_active d) (ASSERT (sectorNumber \<ge> 0 \<and> sectorNumber < NumSectors)
         (rbind (file_read (sector_offset sectorNumber) (nat SectorSize) (d_file d)) (\<lambda>data.
            let d = UpdateLast now sectorNumber (d\<lparr>d_active := True\<rparr>);
                s = upd_stats (\<lambda>st. st\<lparr>numDiskReads := numDiskReads st + 1\<rparr>) (disk_put sd d s)
            in rbind (Schedule DiskDone 0 ticks DiskInt s) (\<lambda>s. Ok (data, s))))))"

definition WriteRequest :: "int \<Rightarrow> byte list \<Rightarrow> 'a kern_scheme \<Rightarrow> 'a kern_scheme result" where
  "WriteRequest sectorNumber data s =
     rbind (sd_get s) (\<lambda>sd.
       let d = sd_disk sd; now = totalTicks (stats s);
           ticks = ComputeLatency now sectorNumber True d
       in ASSERT (\<not> d_active d) (ASSERT (sectorNumber \<ge> 0 \<and> sectorNumber < NumSectors)
         (rbind (mem_read (nat SectorSize) 0 data) (\<lambda>bytes.
            let d = d\<lparr>d_file := file_write (sector_offset sectorNumber) bytes (d_file d)\<rparr>;
                d = UpdateLast now sectorNumber (d\<lparr>d_active := True\<rparr>);
                s = upd_stats (\<lambda>st. st\<lparr>numDiskWrites := numDiskWrites st + 1\<rparr>) (disk_put sd d s)
            in Schedule DiskDone 0 ticks DiskInt s))))"

subsection \<open>Latency\<close>

definition sector_ok :: "int \<Rightarrow> bool" where
  "sector_ok k \<longleftrightarrow> 0 \<le> k \<and> k < NumSectors"

definition Disk_ok :: "Disk \<Rightarrow> bool" where
  "Disk_ok d \<longleftrightarrow> sector_ok (d_lastSector d) \<and> 0 \<le> d_bufferInit d \<and> nat DiskSize \<le> f_len (d_file d)"

lemma TimeToSeek_spec:
  assumes "0 \<le> now" "sector_ok k" "Disk_ok d" "TimeToSeek now k d = (seek, rotation)"
  shows "0 \<le> seek" "seek \<le> 31 * SeekTime" "0 \<le> rotation" "rotation < RotationTime"
    "(now + seek + rotation) mod RotationTime = 0"
proof -
  have k: "0 \<le> k" "k < 1024" and l: "0 \<le> d_lastSector d" "d_lastSector d < 1024"
    using assms(2,3) by (auto simp: sector_ok_def Disk_ok_def disk_defs)
  have seek: "seek = abs (k div 32 - d_lastSector d div 32) * 500"
    and rot: "rotation = (if (now + seek) mod 500 > 0 then 500 - (now + seek) mod 500 else 0)"
    using assms(1,4) k l
    by (auto simp: TimeToSeek_def Let_def disk_defs SeekTime_def RotationTime_def sdiv_nonneg smod_nonneg)
  have "0 \<le> k div 32" "k div 32 \<le> 31" "0 \<le> d_lastSector d div 32" "d_lastSector d div 32 \<le> 31"
    using k l by auto
  then show "0 \<le> seek" "seek \<le> 31 * SeekTime"
    unfolding seek SeekTime_def by auto
  have "0 \<le> (now + seek) mod 500" "(now + seek) mod 500 < 500" by simp_all
  then show "0 \<le> rotation" "rotation < RotationTime" unfolding rot RotationTime_def by auto
  show "(now + seek + rotation) mod RotationTime = 0"
  proof (cases "(now + seek) mod 500 > 0")
    case True
    then have "rotation = 500 - (now + seek) mod 500" by (simp add: rot)
    then have "now + seek + rotation = ((now + seek) - (now + seek) mod 500) + 500" by simp
    moreover have "500 dvd (now + seek) - (now + seek) mod 500" by (rule dvd_minus_mod)
    ultimately have "500 dvd now + seek + rotation" by (metis dvd_add dvd_refl)
    then show ?thesis by (simp add: RotationTime_def)
  next
    case False
    then show ?thesis using \<open>0 \<le> (now + seek) mod 500\<close> by (simp add: rot RotationTime_def)
  qed
qed

lemma ModuloDiff_nonneg:
  assumes "0 \<le> to" "0 \<le> from"
  shows "ModuloDiff to from = (to - from) mod SectorsPerTrack"
proof -
  have "0 \<le> to mod 32" "to mod 32 < 32" "0 \<le> from mod 32" "from mod 32 < 32" by simp_all
  then have "0 \<le> to mod 32 - from mod 32 + 32" by linarith
  then have "ModuloDiff to from = (to mod 32 - from mod 32 + 32) mod 32"
    using assms by (simp add: ModuloDiff_def Let_def disk_defs smod_nonneg)
  also have "\<dots> = (to - from) mod 32" by (simp add: mod_simps)
  finally show ?thesis by (simp add: disk_defs)
qed

lemma ComputeLatency_cases:
  assumes "0 \<le> now" "sector_ok k" "Disk_ok d"
  shows "\<not> writing \<and> ComputeLatency now k writing d = RotationTime \<or>
    (\<exists>seek rotation. TimeToSeek now k d = (seek, rotation) \<and>
      ComputeLatency now k writing d =
        seek + rotation + ((k - (now + seek + rotation) div RotationTime) mod SectorsPerTrack)
          * RotationTime + RotationTime)"
proof -
  obtain seek rotation where t: "TimeToSeek now k d = (seek, rotation)" by fastforce
  note spec = TimeToSeek_spec[OF assms t]
  have nn: "0 \<le> now + seek + rotation" using spec assms(1) by linarith
  then have "(now + seek + rotation) sdiv RotationTime = (now + seek + rotation) div RotationTime"
    "0 \<le> (now + seek + rotation) div RotationTime"
    by (simp_all add: sdiv_nonneg RotationTime_def pos_imp_zdiv_nonneg_iff)
  moreover have "0 \<le> k" using assms(2) by (simp add: sector_ok_def)
  ultimately have "ComputeLatency now k writing d = RotationTime \<and> \<not> writing \<or>
      ComputeLatency now k writing d =
        seek + rotation + ((k - (now + seek + rotation) div RotationTime) mod SectorsPerTrack)
          * RotationTime + RotationTime"
    by (simp add: ComputeLatency_def Let_def t ModuloDiff_nonneg)
  with t show ?thesis by blast
qed

lemma ComputeLatency_bounds:
  assumes "0 \<le> now" "sector_ok k" "Disk_ok d"
  shows "RotationTime \<le> ComputeLatency now k writing d"
    "ComputeLatency now k writing d < 31 * SeekTime + 33 * RotationTime"
proof -
  show "RotationTime \<le> ComputeLatency now k writing d"
    using ComputeLatency_cases[OF assms, of writing]
  proof (elim disjE exE conjE)
    fix seek rotation
    assume rotate: "TimeToSeek now k d = (seek, rotation)" "ComputeLatency now k writing d =
        seek + rotation + ((k - (now + seek + rotation) div RotationTime) mod SectorsPerTrack)
          * RotationTime + RotationTime"
    with TimeToSeek_spec[OF assms rotate(1)] show ?thesis
      by (simp add: RotationTime_def disk_defs)
  qed simp
  show "ComputeLatency now k writing d < 31 * SeekTime + 33 * RotationTime"
    using ComputeLatency_cases[OF assms, of writing]
  proof (elim disjE exE conjE)
    fix seek rotation
    assume rotate: "TimeToSeek now k d = (seek, rotation)" "ComputeLatency now k writing d =
        seek + rotation + ((k - (now + seek + rotation) div RotationTime) mod SectorsPerTrack)
          * RotationTime + RotationTime"
    have "(k - (now + seek + rotation) div RotationTime) mod SectorsPerTrack \<le> 31"
      by (simp add: disk_defs)
    with TimeToSeek_spec[OF assms rotate(1)] rotate(2) show ?thesis
      by (simp add: RotationTime_def)
  qed (simp add: RotationTime_def SeekTime_def)
qed

lemma UpdateLast_ok:
  assumes "0 \<le> now" "sector_ok k" "Disk_ok d"
  shows "Disk_ok (UpdateLast now k d)"
proof -
  obtain seek rotation where t: "TimeToSeek now k d = (seek, rotation)" by fastforce
  with TimeToSeek_spec[OF assms t] assms show ?thesis
    by (simp add: UpdateLast_def Disk_ok_def)
qed



end
