(* ===== verification/Synch_Disk.thy ===== *)
theory Synch_Disk
  imports Disk_Device
begin

text \<open>
  The synchronous disk, src/filesys/synchdisk.cc, and the kernel's interrupt handlers: a thread
  that reads or writes a sector waits on a semaphore that the completion interrupt of the disk
  signals. The kernel's callbacks are interpreted here as the interface of the interrupt code,
  and the synchronous disk as a store of sectors.
\<close>

subsection \<open>Interrupt handlers\<close>

text \<open>
  Inside a handler interrupts cannot be enabled (\<open>SetLevel\<close> asserts it), so what a handler
  calls never reaches these callbacks.
\<close>

definition handler_cb :: "'s callbacks" where
  "handler_cb = \<lparr>cb_handler = (\<lambda>_ _. Err AssertFailed), cb_delayed_load = (\<lambda>_. Err AssertFailed),
                 cb_yield = (\<lambda>_. Err AssertFailed)\<rparr>"

definition RequestDone :: "'a kern_scheme \<Rightarrow> 'a kern_scheme result" where
  "RequestDone s = rbind (sd_get s) (\<lambda>sd. Semaphore_V handler_cb (sd_semaphore sd) s)"

definition HandleInterrupt :: "'a kern_scheme \<Rightarrow> 'a kern_scheme result" where
  "HandleInterrupt s =
     rbind (sd_get s) (\<lambda>sd. RequestDone (disk_put sd ((sd_disk sd)\<lparr>d_active := False\<rparr>) s))"

definition kernel_handler :: "PendingInterrupt \<Rightarrow> 'a kern_scheme \<Rightarrow> 'a kern_scheme result" where
  "kernel_handler p s =
     (case pi_handler p of
        TimerHandler \<Rightarrow> timer_expired (pi_arg p) s
      | DiskDone \<Rightarrow> HandleInterrupt s
      | _ \<Rightarrow> Err DanglingPointer)"

definition delayed_load :: "'a kern_scheme \<Rightarrow> 'a kern_scheme result" where
  "delayed_load s =
     (case machine s of None \<Rightarrow> Ok s | Some _ \<Rightarrow> mach_do (DelayedLoad 0 0) s)"

text \<open>
  A thread that yields because of a time slice re-enables interrupts on the way out, and the
  tick this takes may bring the next time slice. The argument bounds this nesting; it plays no
  role as long as no timer is running.
\<close>

fun kernel_cb :: "nat \<Rightarrow> 'a kern_scheme callbacks" where
  "kernel_cb 0 = \<lparr>cb_handler = kernel_handler, cb_delayed_load = delayed_load,
                  cb_yield = (\<lambda>s. Err Diverges)\<rparr>"
| "kernel_cb (Suc n) = \<lparr>cb_handler = kernel_handler, cb_delayed_load = delayed_load,
                        cb_yield = (\<lambda>s. Yield (kernel_cb n) (currentThread s) s)\<rparr>"

subsection \<open>The synchronous disk\<close>

definition SynchDisk_new :: "unix_file option \<Rightarrow> 'a kern_scheme \<Rightarrow> 'a kern_scheme result" where
  "SynchDisk_new file s =
     (let (sem, s) = Semaphore_new ''synch disk'' 0 s;
          (lock, s) = Lock_new ''synch disk lock'' s
      in rbind (Disk_new file) (\<lambda>d.
         Ok (s\<lparr>synchDisk := Some \<lparr>sd_disk = d, sd_semaphore = sem, sd_lock = lock\<rparr>\<rparr>)))"

definition SynchDisk_delete :: "'a kern_scheme \<Rightarrow> 'a kern_scheme result" where
  "SynchDisk_delete s =
     rbind (sd_get s) (\<lambda>sd.
     rbind (Lock_delete (sd_lock sd) s) (\<lambda>s.
     rbind (Semaphore_delete (sd_semaphore sd) s) (\<lambda>s.
     Ok (s\<lparr>synchDisk := None\<rparr>))))"

definition ReadSector :: "nat \<Rightarrow> int \<Rightarrow> 'a kern_scheme \<Rightarrow> (byte list \<times> 'a kern_scheme) result" where
  "ReadSector n sectorNumber s =
     rbind (sd_get s) (\<lambda>sd.
     rbind (Lock_Acquire (kernel_cb n) (sd_lock sd) s) (\<lambda>s.
     rbind (ReadRequest sectorNumber s) (\<lambda>(data, s).
     rbind (Semaphore_P (kernel_cb n) (sd_semaphore sd) s) (\<lambda>s.
     rbind (Lock_Release (kernel_cb n) (sd_lock sd) s) (\<lambda>s.
     Ok (data, s))))))"

definition WriteSector :: "nat \<Rightarrow> int \<Rightarrow> byte list \<Rightarrow> 'a kern_scheme \<Rightarrow> 'a kern_scheme result" where
  "WriteSector n sectorNumber data s =
     rbind (sd_get s) (\<lambda>sd.
     rbind (Lock_Acquire (kernel_cb n) (sd_lock sd) s) (\<lambda>s.
     rbind (WriteRequest sectorNumber data s) (\<lambda>s.
     rbind (Semaphore_P (kernel_cb n) (sd_semaphore sd) s) (\<lambda>s.
     Lock_Release (kernel_cb n) (sd_lock sd) s))))"

subsection \<open>The kernel's handlers meet the interface of the interrupt code\<close>

lemma ChangeLevel_same: "level (intr s) = l \<Longrightarrow> ChangeLevel old l s = s"
  by (simp add: ChangeLevel_def upd_intr_def)

lemma SetLevel_off: "SetLevel cb IntOff s = Ok (level (intr s), ChangeLevel (level (intr s)) IntOff s)"
  by (simp add: SetLevel_def Let_def)

lemma SetLevel_off_same [simp]: "level (intr s) = IntOff \<Longrightarrow> SetLevel cb IntOff s = Ok (IntOff, s)"
  by (simp add: SetLevel_off ChangeLevel_same)

lemma thread_upd_frame [frame_simps]:
  "thread_upd t f s = Ok s' \<Longrightarrow> intr s' = intr s \<and> stats s' = stats s"
  by (auto simp: thread_upd_def result_simps)

lemma sem_upd_frame [frame_simps]:
  "sem_upd t f s = Ok s' \<Longrightarrow> intr s' = intr s \<and> stats s' = stats s"
  by (auto simp: sem_upd_def result_simps)

lemma ReadyToRun_frame [frame_simps]:
  "ReadyToRun t s = Ok s' \<Longrightarrow> intr s' = intr s \<and> stats s' = stats s"
  by (auto simp: ReadyToRun_def result_simps dest!: thread_upd_frame)

lemma Semaphore_V_off_frame:
  assumes "level (intr s) = IntOff" "Semaphore_V cb a s = Ok s'"
  shows "intr s' = intr s \<and> stats s' = stats s"
proof -
  from assms obtain x q s1 s2 where s1:
    "(case kl_remove q of
        (None, q') \<Rightarrow> sem_upd a (\<lambda>x. x\<lparr>sem_queue := Some q'\<rparr>) s
      | (Some (_, thread), q') \<Rightarrow>
          rbind (sem_upd a (\<lambda>x. x\<lparr>sem_queue := Some q'\<rparr>) s) (\<lambda>s. ReadyToRun thread s)) = Ok s1"
    and s2: "sem_upd a (\<lambda>x. x\<lparr>sem_value := sem_value x + 1\<rparr>) s1 = Ok s2"
    and s': "rbind (SetLevel cb IntOff s2) (\<lambda>(_, s). Ok s) = Ok s'"
    by (auto simp: Semaphore_V_def result_simps)
  have "intr s1 = intr s \<and> stats s1 = stats s"
    using s1 by (auto simp: result_simps split: option.splits prod.splits
        dest!: sem_upd_frame ReadyToRun_frame)
  with sem_upd_frame[OF s2] assms(1) s' show ?thesis by auto
qed

lemma HandleInterrupt_frame:
  "level (intr s) = IntOff \<Longrightarrow> HandleInterrupt s = Ok s' \<Longrightarrow> intr s' = intr s \<and> stats s' = stats s"
  by (auto simp: HandleInterrupt_def RequestDone_def result_simps disk_put_def
      dest!: Semaphore_V_off_frame[rotated])

lemma timer_routine_frame:
  "timer_routine h s = Ok s' \<Longrightarrow>
     stats s' = stats s \<and> pending (intr s') = pending (intr s) \<and> level (intr s') = level (intr s)"
  by (auto simp: timer_routine_def YieldOnReturn_def Let_def result_simps
      split: TimerRoutine.splits if_splits)

lemma draw_frame: "draw b s = (r, s') \<Longrightarrow> intr s' = intr s \<and> stats s' = stats s"
  by (auto simp: draw_def Random_def split: if_splits)

lemma timer_expired_frame:
  assumes "pending_ok s" "timer_expired a s = Ok s'"
  shows "level (intr s') = level (intr s) \<and> clock s' = clock s \<and> pending_ok s' \<and> due s' = due s"
proof -
  from assms(2) obtain tm where tm: "timers s a = Some tm"
    by (auto simp: timer_expired_def result_simps)
  obtain r s1 where s1: "draw (tm_randomize tm) s = (r, s1)" by fastforce
  from assms(2) tm s1 obtain s2 where
    s2: "Schedule TimerHandler a (TimeOfNextInterrupt (tm_randomize tm) r) TimerInt s1 = Ok s2"
    and s': "timer_routine (tm_handler tm) s2 = Ok s'"
    by (auto simp: timer_expired_def TimerExpired_def result_simps)
  have "pending_ok s1" "level (intr s1) = level (intr s)" "clock s1 = clock s" "due s1 = due s"
    using draw_frame[OF s1] assms(1) by (auto simp: pending_ok_def clock_def due_def)
  with Schedule_spec[OF _ s2] timer_routine_frame[OF s'] show ?thesis
    by (auto simp: pending_ok_def clock_def due_def)
qed

interpretation kernel: interrupt_handlers "kernel_cb n" for n
proof unfold_locales
  fix s s' :: "'a kern_scheme"
  have [simp]: "cb_delayed_load (kernel_cb n) = delayed_load"
    "cb_handler (kernel_cb n) = kernel_handler" for n :: nat
    by (cases n; simp)+
  show "cb_delayed_load (kernel_cb n) s = Ok s' \<Longrightarrow> intr s' = intr s \<and> stats s' = stats s"
    by (auto simp: delayed_load_def mach_do_def result_simps split: option.splits)
  show "level (intr s') = IntOff \<and> clock s' = clock s \<and> pending_ok s' \<and> due s' \<le> due s"
    if "pending_ok s" "level (intr s) = IntOff" "cb_handler (kernel_cb n) p s = Ok s'" for p
  proof (cases "pi_handler p")
    case TimerHandler
    with timer_expired_frame[OF that(1)] that show ?thesis by (simp add: kernel_handler_def)
  next
    case DiskDone
    with HandleInterrupt_frame[OF that(2)] that show ?thesis
      by (auto simp: kernel_handler_def pending_ok_def clock_def due_def)
  qed (use that in \<open>simp_all add: kernel_handler_def\<close>)
qed

subsection \<open>The disk seen by a lone kernel thread\<close>

text \<open>
  Between disk operations of a kernel thread that is the only runnable one: interrupts are on,
  none is pending, the disk is idle and its lock free.
\<close>

definition off :: "'a kern_scheme \<Rightarrow> 'a kern_scheme" where
  "off s = upd_intr (level_update (\<lambda>_. IntOff)) s"

definition quiet :: "'a kern_scheme \<Rightarrow> bool" where
  "quiet s \<longleftrightarrow> level (intr s) = IntOn \<and> pending (intr s) = [] \<and> \<not> inHandler (intr s) \<and>
     \<not> yieldOnReturn (intr s) \<and> mstatus (intr s) = SystemMode"

definition tick :: "'a kern_scheme \<Rightarrow> 'a kern_scheme" where
  "tick s = upd_stats (\<lambda>st. st\<lparr>totalTicks := totalTicks st + SystemTick,
                              systemTicks := systemTicks st + SystemTick\<rparr>) s"

definition sem_set :: "nat \<Rightarrow> Semaphore \<Rightarrow> 'a kern_scheme \<Rightarrow> 'a kern_scheme" where
  "sem_set a x s = s\<lparr>sems := (sems s)(a := Some x)\<rparr>"

lemma quiet_tick [simp]: "quiet (tick s) = quiet s"
  by (simp add: quiet_def tick_def)

lemma quiet_upd [simp]: "quiet (sems_update f s) = quiet s" "quiet (locks_update g s) = quiet s"
  by (simp_all add: quiet_def)

lemma off_simps [simp]:
  "sems (off s) = sems s" "threads (off s) = threads s" "currentThread (off s) = currentThread s"
  "sems_update f (off s) = off (sems_update f s)" "intr (off s) = (intr s)\<lparr>level := IntOff\<rparr>"
  by (simp_all add: off_def)

lemma tick_simps [simp]: "sems (tick s) = sems s" "locks (tick s) = locks s" "intr (tick s) = intr s"
  "synchDisk (tick s) = synchDisk s"
  by (simp_all add: tick_def)

lemma due_loop_Nil:
  "level (intr s) = IntOff \<Longrightarrow> pending (intr s) = [] \<Longrightarrow> due_loop cb s = Some (Ok s)"
  by (simp add: due_loop.simps[of cb s] CheckIfDue_def)

lemma SetLevel_off_quiet: "quiet s \<Longrightarrow> SetLevel cb IntOff s = Ok (IntOn, off s)"
  by (simp add: SetLevel_off quiet_def off_def ChangeLevel_def)

lemma upd_intr_level_same: "level (intr s) = l \<Longrightarrow> upd_intr (\<lambda>i. i\<lparr>level := l\<rparr>) s = s"
  by (simp add: upd_intr_def)

lemma SetLevel_on_quiet:
  assumes "quiet s"
  shows "SetLevel cb IntOn (off s) = Ok (IntOff, tick s)"
proof -
  have "OneTick cb s = Ok (tick s)" if "quiet s" for s
  proof -
    let ?t = "off (tick s)"
    have "ChangeLevel IntOn IntOff (advance_ticks s) = ?t"
      using that by (simp add: advance_ticks_def tick_def off_def ChangeLevel_def quiet_def)
    moreover have "run_due cb ?t = Ok ?t"
      using that by (simp add: run_due_def due_loop_Nil off_def tick_def quiet_def)
    moreover have "ChangeLevel IntOff IntOn ?t = tick s"
      using that by (simp add: ChangeLevel_def off_def tick_def quiet_def upd_intr_def upd_stats_def)
    moreover have "\<not> yieldOnReturn (intr (tick s))" using that by (simp add: quiet_def tick_def)
    ultimately show ?thesis by (simp add: OneTick_def Let_def)
  qed
  moreover have "ChangeLevel IntOff IntOn (off s) = s"
    using assms by (simp add: ChangeLevel_def off_def upd_intr_def quiet_def)
  ultimately show ?thesis
    using assms by (simp add: SetLevel_def Let_def off_def quiet_def)
qed

lemma P_loop_nonzero: "sems s a = Some x \<Longrightarrow> sem_value x \<noteq> 0 \<Longrightarrow> P_loop cb a s = Some (Ok s)"
  by (simp add: P_loop.simps[of cb a s] sem_get_def)

lemma P_free:
  assumes "quiet s" "sems s a = Some x" "sem_value x \<noteq> 0"
  shows "Semaphore_P cb a s = Ok (tick (sem_set a (x\<lparr>sem_value := sem_value x - 1\<rparr>) s))"
proof -
  have "P_loop cb a (off s) = Some (Ok (off s))"
    using assms by (simp add: P_loop_nonzero)
  then show ?thesis
    using assms SetLevel_on_quiet[of "sem_set a (x\<lparr>sem_value := sem_value x - 1\<rparr>) s" cb]
    by (simp add: Semaphore_P_def SetLevel_off_quiet sem_upd_def sem_get_def sem_set_def)
qed

lemma V_free:
  assumes "quiet s" "sems s a = Some x" "sem_queue x = Some []"
  shows "Semaphore_V cb a s = Ok (tick (sem_set a (x\<lparr>sem_value := sem_value x + 1\<rparr>) s))"
proof -
  have q: "x\<lparr>sem_queue := Some []\<rparr> = x"
    using assms(3) by (cases x) simp
  show ?thesis
    using assms SetLevel_on_quiet[of "sem_set a (x\<lparr>sem_value := sem_value x + 1\<rparr>) s" cb]
    by (simp add: q Semaphore_V_def SetLevel_off_quiet sem_upd_def sem_get_def sem_set_def)
qed

lemma upd_intr_upd_intr [simp]: "upd_intr f (upd_intr g s) = upd_intr (\<lambda>i. f (g i)) s"
  by (simp add: upd_intr_def)

lemma upd_stats_upd_intr [simp]: "upd_stats f (upd_intr g s) = upd_intr g (upd_stats f s)"
  by (simp add: upd_intr_def upd_stats_def)

text \<open>The disk interrupt wakes the thread that waits for it.\<close>

lemma HandleInterrupt_wake:
  assumes "level (intr t) = IntOff" "synchDisk t = Some sd" "sems t (sd_semaphore sd) = Some y"
    "sem_queue y = Some [(k, c)]" "threads t c = Some th"
  shows "HandleInterrupt t =
    Ok (t\<lparr>synchDisk := Some (sd\<lparr>sd_disk := (sd_disk sd)\<lparr>d_active := False\<rparr>\<rparr>),
          sems := (sems t)(sd_semaphore sd :=
                     Some (y\<lparr>sem_queue := Some [], sem_value := sem_value y + 1\<rparr>)),
          threads := (threads t)(c := Some (th\<lparr>th_status := READY\<rparr>)),
          readyList := kl_insert c (th_priority th) (readyList t)\<rparr>)"
  using assms
  by (simp add: HandleInterrupt_def RequestDone_def sd_get_def disk_put_def Semaphore_V_def sem_get_def
      sem_upd_def ReadyToRun_def thread_get_def thread_upd_def)

definition mach_after :: "Machine option \<Rightarrow> Machine option \<Rightarrow> bool" where
  "mach_after m m' \<longleftrightarrow>
     (case m of None \<Rightarrow> m' = None | Some m \<Rightarrow> (\<exists>m1. DelayedLoad 0 0 m = Ok m1 \<and> m' = Some m1))"

lemma delayed_load_after:
  "mach_after (machine s) m' \<Longrightarrow> delayed_load s = Ok (s\<lparr>machine := m'\<rparr>)"
  by (auto simp: mach_after_def delayed_load_def mach_do_def mach_get_def split: option.splits)

definition idle_until :: "int \<Rightarrow> 'a kern_scheme \<Rightarrow> 'a kern_scheme" where
  "idle_until w s = upd_stats (\<lambda>st. st\<lparr>idleTicks := idleTicks st + (w - totalTicks st),
                                       totalTicks := w\<rparr>) s"

lemma idle_until_now:
  "upd_stats (\<lambda>st. st\<lparr>idleTicks := idleTicks st + (w - totalTicks (stats s)), totalTicks := w\<rparr>) s =
     idle_until w s"
  by (simp add: idle_until_def upd_stats_def)

lemma kernel_cb_simps [simp]:
  "cb_delayed_load (kernel_cb n) = delayed_load" "cb_handler (kernel_cb n) = kernel_handler"
  by (cases n; simp)+

lemma Idle_disk:
  assumes "level (intr t) = IntOff" "pending (intr t) = [(w, p)]" "pi_handler p = DiskDone"
    "pi_type p = DiskInt" "w > totalTicks (stats t)" "mach_after (machine t) m'"
    and t: "synchDisk t = Some sd" "sems t (sd_semaphore sd) = Some y"
    "sem_queue y = Some [(k, c)]" "threads t c = Some th"
  shows "Idle (kernel_cb n) t =
    Ok (upd_intr (\<lambda>i. i\<lparr>pending := [], inHandler := False, yieldOnReturn := False,
                         mstatus := SystemMode\<rparr>)
         (idle_until w
          (t\<lparr>machine := m',
             synchDisk := Some (sd\<lparr>sd_disk := (sd_disk sd)\<lparr>d_active := False\<rparr>\<rparr>),
             sems := (sems t)(sd_semaphore sd :=
                        Some (y\<lparr>sem_queue := Some [], sem_value := sem_value y + 1\<rparr>)),
             threads := (threads t)(c := Some (th\<lparr>th_status := READY\<rparr>)),
             readyList := kl_insert c (th_priority th) (readyList t)\<rparr>)))"
proof -
  let ?t1 = "upd_intr (\<lambda>i. i\<lparr>pending := [], inHandler := True, mstatus := SystemMode\<rparr>)
    (idle_until w (t\<lparr>machine := m'\<rparr>))"
  let ?t2 = "upd_intr (\<lambda>i. i\<lparr>pending := [], mstatus := IdleMode, inHandler := False\<rparr>)
    (idle_until w (t\<lparr>machine := m',
       synchDisk := Some (sd\<lparr>sd_disk := (sd_disk sd)\<lparr>d_active := False\<rparr>\<rparr>),
       sems := (sems t)(sd_semaphore sd :=
                  Some (y\<lparr>sem_queue := Some [], sem_value := sem_value y + 1\<rparr>)),
       threads := (threads t)(c := Some (th\<lparr>th_status := READY\<rparr>)),
       readyList := kl_insert c (th_priority th) (readyList t)\<rparr>))"
  have "fire (kernel_cb n) IdleMode w p
      (upd_intr (\<lambda>i. i\<lparr>mstatus := IdleMode, pending := []\<rparr>) (idle_until w t)) = Ok (True, ?t2)"
  proof -
    have "mach_after (machine (upd_intr (\<lambda>i. i\<lparr>mstatus := IdleMode, pending := []\<rparr>) (idle_until w t))) m'"
      using assms(6) by (simp add: idle_until_def)
    note delayed_load_after[OF this]
    moreover have "kernel_handler p ?t1 = HandleInterrupt ?t1"
      using assms(3) by (simp add: kernel_handler_def)
    moreover have "HandleInterrupt ?t1 = Ok (upd_intr (\<lambda>i. i\<lparr>pending := [], inHandler := True, mstatus := SystemMode\<rparr>)
        (idle_until w (t\<lparr>machine := m',
           synchDisk := Some (sd\<lparr>sd_disk := (sd_disk sd)\<lparr>d_active := False\<rparr>\<rparr>),
           sems := (sems t)(sd_semaphore sd :=
                      Some (y\<lparr>sem_queue := Some [], sem_value := sem_value y + 1\<rparr>)),
           threads := (threads t)(c := Some (th\<lparr>th_status := READY\<rparr>)),
           readyList := kl_insert c (th_priority th) (readyList t)\<rparr>)))"
      using assms(1) t by (simp add: HandleInterrupt_wake[where sd = sd] idle_until_def)
    ultimately show ?thesis
      using assms(4) by (simp add: fire_def setStatus_def idle_until_def)
  qed
  then have "CheckIfDue (kernel_cb n) True (setStatus IdleMode t) = Ok (True, ?t2)"
    using assms(1,2,5) by (simp add: CheckIfDue_def setStatus_def idle_until_now)
  moreover have "due_loop (kernel_cb n) ?t2 = Some (Ok ?t2)"
    using assms(1) by (intro due_loop_Nil) (simp_all add: idle_until_def)
  ultimately show ?thesis
    by (simp add: Idle_def run_due_def setStatus_def)
qed

text \<open>A thread that waits for the disk while no other thread is ready gets the processor back: on the way its
  user registers are saved and restored, and its address space is handed to the machine again.\<close>

definition thread_ready :: "(nat \<Rightarrow> AddrSpace option) \<Rightarrow> Machine option \<Rightarrow> Thread \<Rightarrow> bool" where
  "thread_ready sps mo th \<longleftrightarrow> th_stack th \<in> {None, Some STACK_FENCEPOST} \<and>
     (case th_space th of
        None \<Rightarrow> True
      | Some sp \<Rightarrow> sps sp \<noteq> None \<and> length (th_userRegisters th) = NumTotalRegs \<and>
          (case mo of None \<Rightarrow> False | Some m \<Rightarrow> length (registers m) = NumTotalRegs))"

definition back_thread :: "Machine option \<Rightarrow> Thread \<Rightarrow> Thread" where
  "back_thread mo th = th\<lparr>th_userRegisters :=
     (case th_space th of None \<Rightarrow> th_userRegisters th | Some sp \<Rightarrow> registers (the mo)), th_status := RUNNING\<rparr>"

definition back_machine :: "(nat \<Rightarrow> AddrSpace option) \<Rightarrow> Thread \<Rightarrow> Machine option \<Rightarrow> Machine option" where
  "back_machine sps th mo =
     (case th_space th of
        None \<Rightarrow> mo
      | Some sp \<Rightarrow> map_option (\<lambda>m. m\<lparr>pageTable := as_pageTable (the (sps sp)), pageTableSize := as_numPages (the (sps sp))\<rparr>) mo)"

lemma back_status [simp]:
  "thread_ready sps mo (th\<lparr>th_status := x\<rparr>) = thread_ready sps mo th" "back_thread mo (th\<lparr>th_status := x\<rparr>) = back_thread mo th"
  "back_machine sps (th\<lparr>th_status := x\<rparr>) mo = back_machine sps th mo"
  by (simp_all add: thread_ready_def back_thread_def back_machine_def cong: option.case_cong)

lemma save_regs_spec:
  assumes "length (registers m) = NumTotalRegs" "length us = NumTotalRegs" "k \<le> NumTotalRegs"
  shows "save_regs (map int [k..<NumTotalRegs]) m us = Ok (take k us @ drop k (registers m))"
  using assms
proof (induction "NumTotalRegs - k" arbitrary: k us)
  case 0
  then show ?case by simp
next
  case (Suc n)
  then have k: "k < NumTotalRegs" by simp
  then have "[k..<NumTotalRegs] = k # [Suc k..<NumTotalRegs]" by (simp add: upt_conv_Cons)
  moreover have "take (Suc k) (us[k := registers m ! k]) @ drop (Suc k) (registers m) = take k us @ drop k (registers m)"
    using k Suc.prems by (simp add: take_Suc_conv_app_nth Cons_nth_drop_Suc)
  ultimately show ?case using Suc.hyps(1)[of "Suc k" "us[k := registers m ! k]"] Suc.hyps(2) Suc.prems k
    by (simp add: ReadRegister_def ASSERT_def)
qed

lemma restore_regs_same:
  assumes "length (registers m) = NumTotalRegs" "\<forall>i\<in>set is. i < NumTotalRegs"
  shows "restore_regs (map int is) (registers m) m = Ok m"
  using assms by (induction "is") (auto simp: WriteRegister_def ASSERT_def)

lemma Run_self:
  assumes c: "threads s c = Some th" "currentThread s = c" "threadToBeDestroyed s = None"
    and r: "thread_ready (spaces s) (machine s) th"
  shows "Run c s = Ok (s\<lparr>threads := (threads s)(c := Some (back_thread (machine s) th)),
    machine := back_machine (spaces s) th (machine s)\<rparr>)"
proof -
  have id: "s\<lparr>currentThread := c\<rparr> = s" using c(2) by (intro kern.equality) simp_all
  have stack: "th_stack th = None \<or> th_stack th = Some STACK_FENCEPOST" using r by (simp add: thread_ready_def)
  show ?thesis
  proof (cases "th_space th")
    case None
    then show ?thesis using c id stack
      by (auto simp: Run_def Run_before_def Run_after_def thread_get_def thread_upd_def CheckOverflow_def back_thread_def back_machine_def
          intro!: kern.equality)
  next
    case (Some sp)
    then obtain m space where m: "machine s = Some m" "spaces s sp = Some space" "length (registers m) = NumTotalRegs"
      "length (th_userRegisters th) = NumTotalRegs"
      using r by (auto simp: thread_ready_def split: option.splits)
    have range: "[0..int NumTotalRegs - 1] = map int [0..<NumTotalRegs]" using upto_int[of NumTotalRegs] by simp
    have "save_regs [0..int NumTotalRegs - 1] m (th_userRegisters th) = Ok (registers m)"
      using save_regs_spec[OF m(3,4), of 0] unfolding range by simp
    moreover have "restore_regs [0..int NumTotalRegs - 1] (registers m) m = Ok m"
      unfolding range by (rule restore_regs_same) (simp_all add: m)
    ultimately show ?thesis using c m stack Some
      by (auto simp: Run_def Run_before_def Run_after_def thread_get_def thread_upd_def CheckOverflow_def SaveUserState_def
          RestoreUserState_def AddrSpace_SaveState_def AddrSpace_RestoreState_def space_get_def mach_get_def mach_do_def
          back_thread_def back_machine_def intro!: kern.equality)
  qed
qed

lemma P_wait:
  assumes i: "level (intr s) = IntOn" "pending (intr s) = [(w, p)]" "pi_handler p = DiskDone"
    "pi_type p = DiskInt" "w > totalTicks (stats s)" "\<not> inHandler (intr s)"
    "\<not> yieldOnReturn (intr s)" "mstatus (intr s) = SystemMode"
    and c: "readyList s = []" "threadToBeDestroyed s = None" "threads s (currentThread s) = Some th"
    "thread_ready (spaces s) m' th" "mach_after (machine s) m'"
    and d: "synchDisk s = Some sd" "sd_semaphore sd = a" "sems s a = Some y" "sem_value y = 0"
    "sem_queue y = Some []"
  shows "Semaphore_P (kernel_cb n) a s =
    Ok (tick (upd_intr (pending_update (\<lambda>_. [])) (idle_until w
      (s\<lparr>machine := back_machine (spaces s) th m', synchDisk := Some (sd\<lparr>sd_disk := (sd_disk sd)\<lparr>d_active := False\<rparr>\<rparr>),
         threads := (threads s)(currentThread s := Some (back_thread m' th))\<rparr>))))"
proof -
  let ?c = "currentThread s" and ?cb = "kernel_cb n"
  let ?y1 = "y\<lparr>sem_queue := Some [(0, ?c)]\<rparr>"
  let ?s1 = "off (s\<lparr>sems := (sems s)(a := Some ?y1)\<rparr>)"
  let ?s2 = "off (s\<lparr>sems := (sems s)(a := Some ?y1),
                    threads := (threads s)(?c := Some (th\<lparr>th_status := BLOCKED\<rparr>))\<rparr>)"
  let ?sd = "sd\<lparr>sd_disk := (sd_disk sd)\<lparr>d_active := False\<rparr>\<rparr>"
  let ?y3 = "y\<lparr>sem_queue := Some [], sem_value := 1\<rparr>"
  let ?s3 = "upd_intr (\<lambda>i. i\<lparr>level := IntOff, pending := []\<rparr>) (idle_until w
      (s\<lparr>machine := m', synchDisk := Some ?sd, sems := (sems s)(a := Some ?y3),
         threads := (threads s)(?c := Some (th\<lparr>th_status := READY\<rparr>)),
         readyList := [(th_priority th, ?c)]\<rparr>))"
  have idle: "Idle ?cb ?s2 = Ok ?s3"
  proof -
    have "Idle ?cb ?s2 = Ok (upd_intr (\<lambda>i. i\<lparr>pending := [], inHandler := False, yieldOnReturn := False,
                         mstatus := SystemMode\<rparr>)
         (idle_until w
          (?s2\<lparr>machine := m', synchDisk := Some ?sd,
             sems := (sems ?s2)(sd_semaphore sd :=
                        Some (?y1\<lparr>sem_queue := Some [], sem_value := sem_value ?y1 + 1\<rparr>)),
             threads := (threads ?s2)(?c := Some (th\<lparr>th_status := READY\<rparr>)),
             readyList := [(th_priority th, ?c)]\<rparr>)))"
      (is "_ = Ok ?r")
      using Idle_disk[of ?s2 w p m' sd ?y1 0 ?c "th\<lparr>th_status := BLOCKED\<rparr>" n] i c d
      by (simp add: off_def)
    also have "?r = ?s3"
      using i d by (intro kern.equality) (simp_all add: off_def idle_until_def)
    finally show ?thesis .
  qed
  have find: "FindNextToRun ?s2 = (None, ?s2)"
    "FindNextToRun ?s3 = (Some ?c, ?s3\<lparr>readyList := []\<rparr>)"
    using c(1) by (auto simp: FindNextToRun_def off_def idle_until_def intro!: kern.equality)
  have loop: "sleep_loop ?cb ?s2 = Some (Ok (?c, ?s3\<lparr>readyList := []\<rparr>))"
    by (simp add: sleep_loop.simps[of ?cb ?s2] sleep_loop.simps[of ?cb ?s3] find idle)
  let ?s4 = "upd_intr (\<lambda>i. i\<lparr>level := IntOff, pending := []\<rparr>) (idle_until w
      (s\<lparr>machine := back_machine (spaces s) th m', synchDisk := Some ?sd, sems := (sems s)(a := Some ?y3),
         threads := (threads s)(?c := Some (back_thread m' th))\<rparr>))"
  let ?r = "upd_intr (pending_update (\<lambda>_. [])) (idle_until w (s\<lparr>machine := back_machine (spaces s) th m', synchDisk := Some ?sd,
         threads := (threads s)(?c := Some (back_thread m' th))\<rparr>))"
  have "Run ?c (?s3\<lparr>readyList := []\<rparr>) = Ok ((?s3\<lparr>readyList := []\<rparr>)\<lparr>
      threads := (threads (?s3\<lparr>readyList := []\<rparr>))(?c := Some (back_thread m' th)), machine := back_machine (spaces s) th m'\<rparr>)"
    using Run_self[of "?s3\<lparr>readyList := []\<rparr>" ?c "th\<lparr>th_status := READY\<rparr>"] c by (simp add: idle_until_def)
  also have "(?s3\<lparr>readyList := []\<rparr>)\<lparr>threads := (threads (?s3\<lparr>readyList := []\<rparr>))(?c := Some (back_thread m' th)),
      machine := back_machine (spaces s) th m'\<rparr> = ?s4"
    using c by (intro kern.equality) (simp_all add: idle_until_def)
  finally have "Run ?c (?s3\<lparr>readyList := []\<rparr>) = Ok ?s4" .
  with loop have sleep: "Sleep ?cb ?c ?s1 = Ok ?s4"
    using c by (simp add: Sleep_def thread_upd_def thread_get_def off_def)
  have "P_loop ?cb a ?s4 = Some (Ok ?s4)"
    by (rule P_loop_nonzero[of _ _ ?y3]) (simp_all add: idle_until_def)
  with sleep have P: "P_loop ?cb a (off s) = Some (Ok ?s4)"
    using d by (simp add: P_loop.simps[of ?cb a "off s"] sem_get_def sem_upd_def kl_append_def)
  have y: "y\<lparr>sem_queue := Some [], sem_value := 0\<rparr> = y" using d by (cases y) simp
  have "sem_upd a (\<lambda>x. x\<lparr>sem_value := sem_value x - 1\<rparr>) ?s4 = Ok (off ?r)"
    using d by (simp add: sem_upd_def sem_get_def idle_until_def off_def) (intro kern.equality; simp add: y fun_upd_idem)
  moreover have "quiet ?r" using i by (simp add: quiet_def idle_until_def)
  moreover have "SetLevel ?cb IntOff s = Ok (IntOn, off s)"
    using i(1) by (simp add: SetLevel_off off_def ChangeLevel_def)
  ultimately show ?thesis
    using P by (simp add: Semaphore_P_def SetLevel_on_quiet)
qed

definition loadable :: "Machine option \<Rightarrow> bool" where
  "loadable m \<longleftrightarrow> (case m of None \<Rightarrow> True
     | Some m \<Rightarrow> length (registers m) = NumTotalRegs \<and>
         0 \<le> sint (registers m ! 37) \<and> sint (registers m ! 37) < int NumTotalRegs)"

lemma loadable_after: "loadable m \<Longrightarrow> \<exists>m'. mach_after m m' \<and> loadable m'"
  by (auto simp: loadable_def mach_after_def DelayedLoad_def reg_defs split: option.splits)

text \<open>What a disk request leaves alone: everything but the clock, the disk, its lock and semaphore, the saved
  registers of the thread, the page table register of the machine, and a pending delayed load of
  the user program, which the interrupt completes.\<close>

definition settle :: "Machine \<Rightarrow> Machine" where
  "settle m = (case DelayedLoad 0 0 m of Ok m' \<Rightarrow> m' | Err _ \<Rightarrow> m)"

definition bare :: "Machine \<Rightarrow> Machine" where
  "bare m = m\<lparr>pageTable := NullTable, pageTableSize := 0\<rparr>"

definition untouched where
  "untouched s = (kern.more s, currentThread s, thread_poiners s, ThreadIDOccupied s, spaces s, vdisks s, next_addr s, random_src s,
     (\<lambda>t. map_option (\<lambda>th. th\<lparr>th_userRegisters := [], th_status := RUNNING\<rparr>) (threads s t)), map_option (bare \<circ> settle) (machine s))"

lemma settle_twice: "DelayedLoad 0 0 m = Ok m' \<Longrightarrow> loadable (Some m') \<Longrightarrow> settle m' = m'"
proof -
  assume d: "DelayedLoad 0 0 m = Ok m'" and l: "loadable (Some m')"
  have n: "length (registers m') = 40" using l by (simp add: loadable_def NumTotalRegs_def)
  have "registers m' ! 37 = 0 \<and> registers m' ! 38 = 0 \<and> registers m' ! 0 = 0"
    using d n by (auto simp: DelayedLoad_def reg_defs aset_def result_simps split: if_splits)
  then have z: "registers m' ! 37 = 0" "registers m' ! 38 = 0" "registers m' ! 0 = 0" by auto
  have "(registers m')[i := 0] = registers m'" if "registers m' ! i = 0" for i
    using list_update_id[of "registers m'" i] that by simp
  then show ?thesis using n z by (simp add: settle_def DelayedLoad_def reg_defs)
qed

lemma settle_explicit:
  assumes "loadable (Some m)"
  shows "settle m = m\<lparr>registers := (registers m)[nat (sint (registers m ! 37)) := registers m ! 38, 37 := 0, 38 := 0, 0 := 0]\<rparr>"
  using assms by (simp add: settle_def DelayedLoad_def loadable_def reg_defs)

lemma registers_idem: "(m\<lparr>registers := rs\<rparr> = m) = (rs = registers m)"
  by (cases m) auto

lemma settle_registers:
  assumes "loadable (Some m)" "registers m' = registers m"
  shows "(settle m' = m') = (settle m = m)"
  using assms settle_explicit[of m] settle_explicit[of m'] by (simp add: loadable_def registers_idem)

lemma registers_back: "back_machine sps th mo = Some m' \<Longrightarrow> \<exists>m. mo = Some m \<and> registers m' = registers m \<and> bare m' = bare m"
  by (auto simp: back_machine_def bare_def split: option.splits)

lemma loadable_back: "loadable mo \<Longrightarrow> loadable (back_machine sps th mo)"
  by (cases "back_machine sps th mo") (auto simp: loadable_def dest!: registers_back)

lemma settle_back:
  assumes "mach_after m m'" "loadable m'"
  shows "map_option settle (back_machine sps th m') = back_machine sps th m'"
    "map_option (bare \<circ> settle) (back_machine sps th m') = map_option (bare \<circ> settle) m"
proof -
  have "map_option settle (back_machine sps th m') = back_machine sps th m' \<and>
      map_option (bare \<circ> settle) (back_machine sps th m') = map_option (bare \<circ> settle) m"
  proof (cases m)
    case None
    then show ?thesis using assms(1) by (simp add: mach_after_def back_machine_def split: option.splits)
  next
    case (Some a)
    then obtain m1 where m1: "DelayedLoad 0 0 a = Ok m1" "m' = Some m1" using assms(1) by (auto simp: mach_after_def)
    then have l: "loadable (Some m1)" using assms(2) by simp
    obtain b where b: "back_machine sps th m' = Some b" using m1(2) by (cases "back_machine sps th m'") (auto simp: back_machine_def split: option.splits)
    then have rb: "registers b = registers m1" "bare b = bare m1" using registers_back m1(2) by fastforce+
    have "settle a = m1" using m1(1) by (simp add: settle_def)
    moreover have "settle b = b" using settle_registers[OF l rb(1)] settle_twice[OF m1(1) l] by blast
    ultimately show ?thesis using b rb(2) Some by simp
  qed
  then show "map_option settle (back_machine sps th m') = back_machine sps th m'"
    "map_option (bare \<circ> settle) (back_machine sps th m') = map_option (bare \<circ> settle) m" by blast+
qed

lemma thread_ready_after:
  assumes "mach_after m m'" "loadable m'" "thread_ready sps m th"
  shows "thread_ready sps m' th" "thread_ready sps (back_machine sps th m') (back_thread m' th)"
  using assms by (cases m; auto simp: thread_ready_def mach_after_def loadable_def back_machine_def back_thread_def split: option.splits)+

definition settled :: "'a kern_scheme \<Rightarrow> bool" where
  "settled s \<longleftrightarrow> map_option settle (machine s) = machine s"

definition disk_free :: "'a kern_scheme \<Rightarrow> bool" where
  "disk_free s \<longleftrightarrow>
     (case synchDisk s of None \<Rightarrow> False | Some sd \<Rightarrow>
        \<not> d_active (sd_disk sd) \<and> Disk_ok (sd_disk sd) \<and>
        (case locks s (sd_lock sd) of None \<Rightarrow> False | Some l \<Rightarrow>
           lk_sema l \<noteq> sd_semaphore sd \<and>
           (case sems s (lk_sema l) of None \<Rightarrow> False | Some x \<Rightarrow>
              sem_value x = 1 \<and> sem_queue x = Some [])) \<and>
        (case sems s (sd_semaphore sd) of None \<Rightarrow> False | Some y \<Rightarrow>
           sem_value y = 0 \<and> sem_queue y = Some []))"

definition lone :: "'a kern_scheme \<Rightarrow> bool" where
  "lone s \<longleftrightarrow> quiet s \<and> 0 \<le> totalTicks (stats s) \<and> readyList s = [] \<and> threadToBeDestroyed s = None \<and>
     (case threads s (currentThread s) of None \<Rightarrow> False | Some th \<Rightarrow> thread_ready (spaces s) (machine s) th) \<and>
     loadable (machine s) \<and> disk_free s"

lemma lone_obtain:
  assumes "lone s" "synchDisk s = Some sd"
  obtains l x y th where "quiet s" "0 \<le> totalTicks (stats s)" "readyList s = []"
    "threadToBeDestroyed s = None" "threads s (currentThread s) = Some th" "thread_ready (spaces s) (machine s) th"
    "loadable (machine s)" "\<not> d_active (sd_disk sd)" "Disk_ok (sd_disk sd)"
    "locks s (sd_lock sd) = Some l" "lk_sema l \<noteq> sd_semaphore sd" "sems s (lk_sema l) = Some x"
    "sem_value x = 1" "sem_queue x = Some []" "sems s (sd_semaphore sd) = Some y" "sem_value y = 0"
    "sem_queue y = Some []"
  using assms by (auto simp: lone_def disk_free_def split: option.splits)

definition disk_sectors :: "Disk \<Rightarrow> int \<Rightarrow> byte list" where
  "disk_sectors d k = map (f_bytes (d_file d)) [sector_offset k..<sector_offset k + nat SectorSize]"

definition sectors :: "'a kern_scheme \<Rightarrow> int \<Rightarrow> byte list" where
  "sectors s k = (case synchDisk s of None \<Rightarrow> [] | Some sd \<Rightarrow> disk_sectors (sd_disk sd) k)"

lemma file_write_sectors:
  assumes "sector_ok j" "sector_ok k" "length bs = nat SectorSize"
  shows "map (f_bytes (file_write (sector_offset k) bs f)) [sector_offset j..<sector_offset j + nat SectorSize] =
    (if j = k then bs else map (f_bytes f) [sector_offset j..<sector_offset j + nat SectorSize])"
proof (cases "j = k")
  case True
  with assms show ?thesis by (intro nth_equalityI) (simp_all add: file_write_def)
next
  case False
  then have "sector_offset j + 128 \<le> sector_offset k \<or> sector_offset k + 128 \<le> sector_offset j"
    using assms(1,2) by (auto simp: sector_offset_def sector_ok_def disk_defs)
  with False assms show ?thesis by (auto simp: file_write_def SectorSize_def)
qed

text \<open>One request: the lock, the request, the wait for the interrupt, the release. The request
  is given by what it does to the disk.\<close>

lemma disk_operation:
  assumes lone: "lone s" and sd: "synchDisk s = Some sd"
    and req: "\<And>t. quiet t \<Longrightarrow> synchDisk t = Some sd \<Longrightarrow> 0 \<le> totalTicks (stats t) \<Longrightarrow>
      \<exists>w p st d. request t = Ok (data, upd_intr (pending_update (\<lambda>_. [(w, p)])) (upd_stats st
                 (t\<lparr>synchDisk := Some (sd\<lparr>sd_disk := d\<rparr>)\<rparr>))) \<and>
        totalTicks (st (stats t)) = totalTicks (stats t) \<and> Disk_ok d \<and> d_file d = f \<and>
        pi_handler p = DiskDone \<and> pi_type p = DiskInt \<and> w > totalTicks (stats t)"
  shows "\<exists>s' sd'. rbind (Lock_Acquire (kernel_cb n) (sd_lock sd) s) (\<lambda>s.
      rbind (request s) (\<lambda>(data, s).
      rbind (Semaphore_P (kernel_cb n) (sd_semaphore sd) s) (\<lambda>s.
      rbind (Lock_Release (kernel_cb n) (sd_lock sd) s) (\<lambda>s. Ok (data, s))))) = Ok (data, s') \<and>
    lone s' \<and> synchDisk s' = Some sd' \<and> d_file (sd_disk sd') = f \<and> untouched s' = untouched s \<and> settled s'"
proof -
  let ?cb = "kernel_cb n" and ?c = "currentThread s"
  obtain l x y th where s: "quiet s" "0 \<le> totalTicks (stats s)" "readyList s = []"
    "threadToBeDestroyed s = None" "threads s ?c = Some th" "thread_ready (spaces s) (machine s) th"
    "loadable (machine s)" "\<not> d_active (sd_disk sd)" "Disk_ok (sd_disk sd)"
    "locks s (sd_lock sd) = Some l" "lk_sema l \<noteq> sd_semaphore sd" "sems s (lk_sema l) = Some x"
    "sem_value x = 1" "sem_queue x = Some []" "sems s (sd_semaphore sd) = Some y" "sem_value y = 0"
    "sem_queue y = Some []"
    by (rule lone_obtain[OF lone sd])
  define t1 where "t1 = (tick (sem_set (lk_sema l) (x\<lparr>sem_value := 0\<rparr>) s))\<lparr>locks := (locks s)
    (sd_lock sd := Some (l\<lparr>lk_holdingThread := Held ?c\<rparr>))\<rparr>"
  have acq: "Lock_Acquire ?cb (sd_lock sd) s = Ok t1"
    using P_free[OF s(1) s(12), of ?cb] s
    by (simp add: Lock_Acquire_def lock_get_def lock_upd_def t1_def sem_set_def tick_def)
  have t1: "quiet t1" "synchDisk t1 = Some sd" "0 \<le> totalTicks (stats t1)"
    using s sd by (simp_all add: t1_def sem_set_def tick_def SystemTick_def quiet_def)
  from req[OF this] obtain w p st d where
    r: "request t1 = Ok (data, upd_intr (pending_update (\<lambda>_. [(w, p)])) (upd_stats st
          (t1\<lparr>synchDisk := Some (sd\<lparr>sd_disk := d\<rparr>)\<rparr>)))" (is "_ = Ok (_, ?t2)")
    and d: "Disk_ok d" "d_file d = f" "totalTicks (st (stats t1)) = totalTicks (stats t1)"
    and p: "pi_handler p = DiskDone" "pi_type p = DiskInt" "w > totalTicks (stats t1)"
    by blast
  obtain m' where m': "mach_after (machine s) m'" "loadable m'" using loadable_after[OF s(7)] by blast
  have ready: "thread_ready (spaces s) m' th" "thread_ready (spaces s) (back_machine (spaces s) th m') (back_thread m' th)"
    using thread_ready_after[OF m' s(6)] by simp_all
  define t3 where "t3 = tick (upd_intr (pending_update (\<lambda>_. [])) (idle_until w
      (?t2\<lparr>machine := back_machine (spaces s) th m', synchDisk := Some (sd\<lparr>sd_disk := d\<lparr>d_active := False\<rparr>\<rparr>),
         threads := (threads s)(?c := Some (back_thread m' th))\<rparr>)))"
  have P: "Semaphore_P ?cb (sd_semaphore sd) ?t2 = Ok t3"
    using P_wait[of ?t2 w p th m' "sd\<lparr>sd_disk := d\<rparr>" "sd_semaphore sd" y n] t1 d p m'(1) ready(1) s
    by (simp add: t3_def t1_def quiet_def sem_set_def tick_def)
  define t4 where "t4 = t3\<lparr>locks := (locks s)(sd_lock sd := Some (l\<lparr>lk_holdingThread := NoThread\<rparr>))\<rparr>"
  have t3: "quiet t3" "locks t3 (sd_lock sd) = Some (l\<lparr>lk_holdingThread := Held ?c\<rparr>)"
    "sems t3 (lk_sema l) = Some (x\<lparr>sem_value := 0\<rparr>)"
    using t1 by (simp_all add: t3_def t1_def quiet_def sem_set_def tick_def idle_until_def)
  have "Lock_Release ?cb (sd_lock sd) t3 = Semaphore_V ?cb (lk_sema l) t4"
    using t3 by (simp add: Lock_Release_def lock_upd_def lock_get_def t4_def t3_def t1_def idle_until_def
        tick_def sem_set_def)
  moreover have "quiet t4" "sems t4 (lk_sema l) = Some (x\<lparr>sem_value := 0\<rparr>)"
    using t3 by (simp_all add: t4_def)
  ultimately have rel: "Lock_Release ?cb (sd_lock sd) t3 =
      Ok (tick (sem_set (lk_sema l) (x\<lparr>sem_value := 1\<rparr>) t4))" (is "_ = Ok ?s'")
    using V_free[of t4 "lk_sema l" "x\<lparr>sem_value := 0\<rparr>" ?cb] s by simp
  have "quiet ?s'" "readyList ?s' = []" "threadToBeDestroyed ?s' = None" "0 \<le> totalTicks (stats ?s')"
    "threads ?s' (currentThread ?s') = Some (back_thread m' th)" "machine ?s' = back_machine (spaces s) th m'" "spaces ?s' = spaces s"
    using t3 s t1 p
    by (simp_all add: t4_def t3_def t1_def sem_set_def tick_def idle_until_def quiet_def SystemTick_def)
  moreover have "disk_free ?s'"
    using s d by (auto simp: disk_free_def t4_def t3_def t1_def sem_set_def tick_def idle_until_def Disk_ok_def)
  ultimately have "lone ?s'" using ready loadable_back[OF m'(2)] by (simp add: lone_def)
  moreover have "synchDisk ?s' = Some (sd\<lparr>sd_disk := d\<lparr>d_active := False\<rparr>\<rparr>)" "untouched ?s' = untouched s" "settled ?s'"
    using settle_back[OF m'] s(5)
    by (simp_all add: t4_def t3_def t1_def sem_set_def tick_def idle_until_def untouched_def settled_def back_thread_def fun_eq_iff)
  ultimately show ?thesis using acq r P rel d by auto
qed

lemma upd_intr_insert_empty:
  "pending (intr t) = [] \<Longrightarrow>
     upd_intr (pending_update (kl_insert p w)) t = upd_intr (pending_update (\<lambda>_. [(w, p)])) t"
  by (simp add: upd_intr_def)

lemma Schedule_empty:
  assumes "pending (intr t) = []" "0 < n"
  shows "Schedule h a n ty t =
    Ok (upd_intr (pending_update (\<lambda>_. [(totalTicks (stats t) + n,
          PendingInterrupt_new h a (totalTicks (stats t) + n) ty)])) t)"
  using assms by (simp add: Schedule_def upd_intr_insert_empty Let_def)

lemma ReadRequest_quiet:
  assumes "quiet t" "synchDisk t = Some sd" "0 \<le> totalTicks (stats t)" "\<not> d_active (sd_disk sd)"
    "Disk_ok (sd_disk sd)" "sector_ok k"
  shows "\<exists>w p st d. ReadRequest k t = Ok (disk_sectors (sd_disk sd) k,
        upd_intr (pending_update (\<lambda>_. [(w, p)])) (upd_stats st
          (t\<lparr>synchDisk := Some (sd\<lparr>sd_disk := d\<rparr>)\<rparr>))) \<and>
    totalTicks (st (stats t)) = totalTicks (stats t) \<and> Disk_ok d \<and> d_file d = d_file (sd_disk sd) \<and>
    pi_handler p = DiskDone \<and> pi_type p = DiskInt \<and> w > totalTicks (stats t)"
proof -
  let ?now = "totalTicks (stats t)"
  let ?n = "ComputeLatency ?now k False (sd_disk sd)"
  let ?d = "UpdateLast ?now k ((sd_disk sd)\<lparr>d_active := True\<rparr>)"
  let ?t = "upd_stats (\<lambda>st. st\<lparr>numDiskReads := numDiskReads st + 1\<rparr>) (t\<lparr>synchDisk := Some (sd\<lparr>sd_disk := ?d\<rparr>)\<rparr>)"
  have n: "0 < ?n"
    using ComputeLatency_bounds(1)[OF assms(3,6,5), of False] by (simp add: RotationTime_def)
  have "sector_offset k + 128 \<le> f_len (d_file (sd_disk sd))"
    using assms(5,6) by (auto simp: Disk_ok_def sector_ok_def sector_offset_def disk_defs)
  then have "file_read (sector_offset k) (nat SectorSize) (d_file (sd_disk sd)) = Ok (disk_sectors (sd_disk sd) k)"
    by (simp add: file_read_def disk_sectors_def SectorSize_def)
  then have "ReadRequest k t = rbind (Schedule DiskDone 0 ?n DiskInt ?t) (\<lambda>s. Ok (disk_sectors (sd_disk sd) k, s))"
    using assms by (simp add: ReadRequest_def sd_get_def disk_put_def sector_ok_def Let_def)
  also have "\<dots> = Ok (disk_sectors (sd_disk sd) k, upd_intr (pending_update (\<lambda>_. [(?now + ?n,
      PendingInterrupt_new DiskDone 0 (?now + ?n) DiskInt)])) ?t)"
    using Schedule_empty[of ?t ?n] n assms(1) by (simp add: quiet_def)
  finally have r: "ReadRequest k t = \<dots>" .
  have d: "Disk_ok ?d" "d_file ?d = d_file (sd_disk sd)"
    using UpdateLast_ok[OF assms(3,6), of "(sd_disk sd)\<lparr>d_active := True\<rparr>"] assms(5)
    by (simp_all add: Disk_ok_def UpdateLast_def split: prod.splits)
  show ?thesis
    by (intro exI conjI, rule r) (use d n in \<open>simp_all add: PendingInterrupt_new_def\<close>)
qed

lemma WriteRequest_quiet:
  assumes "quiet t" "synchDisk t = Some sd" "0 \<le> totalTicks (stats t)" "\<not> d_active (sd_disk sd)"
    "Disk_ok (sd_disk sd)" "sector_ok k" "length data = nat SectorSize"
  shows "\<exists>w p st d. WriteRequest k data t = Ok (
        upd_intr (pending_update (\<lambda>_. [(w, p)])) (upd_stats st
          (t\<lparr>synchDisk := Some (sd\<lparr>sd_disk := d\<rparr>)\<rparr>))) \<and>
    totalTicks (st (stats t)) = totalTicks (stats t) \<and> Disk_ok d \<and>
    d_file d = file_write (sector_offset k) data (d_file (sd_disk sd)) \<and>
    pi_handler p = DiskDone \<and> pi_type p = DiskInt \<and> w > totalTicks (stats t)"
proof -
  let ?now = "totalTicks (stats t)"
  let ?n = "ComputeLatency ?now k True (sd_disk sd)"
  let ?f = "file_write (sector_offset k) data (d_file (sd_disk sd))"
  let ?d = "UpdateLast ?now k ((sd_disk sd)\<lparr>d_file := ?f, d_active := True\<rparr>)"
  let ?t = "upd_stats (\<lambda>st. st\<lparr>numDiskWrites := numDiskWrites st + 1\<rparr>) (t\<lparr>synchDisk := Some (sd\<lparr>sd_disk := ?d\<rparr>)\<rparr>)"
  have n: "0 < ?n"
    using ComputeLatency_bounds(1)[OF assms(3,6,5), of True] by (simp add: RotationTime_def)
  have "WriteRequest k data t = Schedule DiskDone 0 ?n DiskInt ?t"
    using assms by (simp add: WriteRequest_def sd_get_def disk_put_def sector_ok_def mem_read_def Let_def)
  also have "\<dots> = Ok (upd_intr (pending_update (\<lambda>_. [(?now + ?n,
      PendingInterrupt_new DiskDone 0 (?now + ?n) DiskInt)])) ?t)"
    using Schedule_empty[of ?t ?n] n assms(1) by (simp add: quiet_def)
  finally have r: "WriteRequest k data t = \<dots>" .
  have "Disk_ok ((sd_disk sd)\<lparr>d_file := ?f, d_active := True\<rparr>)"
    using assms(5) by (auto simp: Disk_ok_def file_write_def)
  then have d: "Disk_ok ?d" "d_file ?d = ?f"
    using UpdateLast_ok[OF assms(3,6)] by (simp_all add: UpdateLast_def split: prod.splits)
  show ?thesis
    by (intro exI conjI, rule r) (use d n in \<open>simp_all add: PendingInterrupt_new_def\<close>)
qed

lemma sectors_eq: "synchDisk s = Some sd \<Longrightarrow> sectors s = disk_sectors (sd_disk sd)"
  by (simp add: sectors_def fun_eq_iff)

lemma disk_sectors_cong: "d_file d = d_file d' \<Longrightarrow> disk_sectors d = disk_sectors d'"
  by (simp add: disk_sectors_def fun_eq_iff)

lemma lone_disk: "lone s \<Longrightarrow> \<exists>sd. synchDisk s = Some sd"
  by (auto simp: lone_def disk_free_def split: option.splits)

lemma ReadSector_lone:
  assumes "lone s" "sector_ok k"
  shows "\<exists>s'. ReadSector n k s = Ok (sectors s k, s') \<and> lone s' \<and> sectors s' = sectors s \<and>
    untouched s' = untouched s \<and> settled s'"
proof -
  obtain sd where sd: "synchDisk s = Some sd" using lone_disk[OF assms(1)] by blast
  obtain l x y th where ok: "\<not> d_active (sd_disk sd)" "Disk_ok (sd_disk sd)"
    by (rule lone_obtain[OF assms(1) sd])
  have "\<exists>s' sd'. ReadSector n k s = Ok (disk_sectors (sd_disk sd) k, s') \<and> lone s' \<and>
      synchDisk s' = Some sd' \<and> d_file (sd_disk sd') = d_file (sd_disk sd) \<and> untouched s' = untouched s \<and> settled s'"
    unfolding ReadSector_def sd_get_def sd the_nonnull_simps rbind.simps
    by (rule disk_operation[where request = "ReadRequest k" and data = "disk_sectors (sd_disk sd) k"
        and f = "d_file (sd_disk sd)" and n = n, OF assms(1) sd], rule ReadRequest_quiet[OF _ _ _ ok assms(2)])
  then show ?thesis using sd by (metis sectors_eq disk_sectors_cong)
qed

lemma WriteSector_lone:
  assumes "lone s" "sector_ok k" "length data = nat SectorSize"
  shows "\<exists>s'. WriteSector n k data s = Ok s' \<and> lone s' \<and>
    (\<forall>j. sector_ok j \<longrightarrow> sectors s' j = (if j = k then data else sectors s j)) \<and>
    untouched s' = untouched s \<and> settled s'"
proof -
  obtain sd where sd: "synchDisk s = Some sd" using lone_disk[OF assms(1)] by blast
  obtain l x y th where ok: "\<not> d_active (sd_disk sd)" "Disk_ok (sd_disk sd)"
    by (rule lone_obtain[OF assms(1) sd])
  let ?f = "file_write (sector_offset k) data (d_file (sd_disk sd))"
  define request where "request t = rbind (WriteRequest k data t) (\<lambda>s. Ok ((), s))" for t :: "'a kern_scheme"
  have "\<exists>w p st d. request t = Ok ((), upd_intr (pending_update (\<lambda>_. [(w, p)])) (upd_stats st
                 (t\<lparr>synchDisk := Some (sd\<lparr>sd_disk := d\<rparr>)\<rparr>))) \<and>
        totalTicks (st (stats t)) = totalTicks (stats t) \<and> Disk_ok d \<and> d_file d = ?f \<and>
        pi_handler p = DiskDone \<and> pi_type p = DiskInt \<and> w > totalTicks (stats t)"
    if "quiet t" "synchDisk t = Some sd" "0 \<le> totalTicks (stats t)" for t :: "'a kern_scheme"
    using WriteRequest_quiet[OF that ok assms(2,3)] unfolding request_def by fastforce
  from disk_operation[where request = request, OF assms(1) sd this, of n]
  obtain s' sd' where r: "rbind (Lock_Acquire (kernel_cb n) (sd_lock sd) s) (\<lambda>s.
      rbind (request s) (\<lambda>(u, s).
      rbind (Semaphore_P (kernel_cb n) (sd_semaphore sd) s) (\<lambda>s.
      rbind (Lock_Release (kernel_cb n) (sd_lock sd) s) (\<lambda>s. Ok (u, s))))) = Ok ((), s')"
    and s': "lone s'" "synchDisk s' = Some sd'" "d_file (sd_disk sd') = ?f" "untouched s' = untouched s" "settled s'"
    by blast
  have "WriteSector n k data s = Ok s'"
    using r sd by (auto simp: WriteSector_def sd_get_def request_def result_simps)
  moreover have "sectors s' j = (if j = k then data else sectors s j)" if "sector_ok j" for j
    using file_write_sectors[OF that assms(2,3), of "d_file (sd_disk sd)"] s' sd
    by (simp add: sectors_eq disk_sectors_def)
  ultimately show ?thesis using s' by blast
qed

lemma acquire_lone:
  assumes "lone s" "synchDisk s = Some sd"
  shows "\<exists>t. Lock_Acquire (kernel_cb n) (sd_lock sd) s = Ok t \<and> synchDisk t = Some sd"
proof -
  obtain l x y th where s: "quiet s" "locks s (sd_lock sd) = Some l" "sems s (lk_sema l) = Some x"
    "sem_value x = 1"
    by (rule lone_obtain[OF assms])
  with P_free[OF s(1,3), of "kernel_cb n"] assms(2) show ?thesis
    by (auto simp: Lock_Acquire_def lock_get_def lock_upd_def sem_set_def tick_def)
qed

lemma SectorRequest_bad:
  assumes "lone s" "\<not> sector_ok k"
  shows "ReadSector n k s = Err AssertFailed" "WriteSector n k data s = Err AssertFailed"
proof -
  obtain sd where sd: "synchDisk s = Some sd" using lone_disk[OF assms(1)] by blast
  obtain t where "Lock_Acquire (kernel_cb n) (sd_lock sd) s = Ok t" "synchDisk t = Some sd"
    using acquire_lone[OF assms(1) sd] by blast
  moreover have "ReadRequest k t = Err AssertFailed" "WriteRequest k data t = Err AssertFailed"
    if "synchDisk t = Some sd" for t :: "'a kern_scheme"
    using that assms(2)
    by (auto simp: ReadRequest_def WriteRequest_def sd_get_def sector_ok_def Let_def ASSERT_def)
  ultimately show "ReadSector n k s = Err AssertFailed" "WriteSector n k data s = Err AssertFailed"
    using sd by (simp_all add: ReadSector_def WriteSector_def sd_get_def)
qed

subsection \<open>The interface of a store of sectors\<close>

text \<open>What the file system relies on of the disk below it.\<close>

locale block_store =
  fixes rd :: "int \<Rightarrow> 's \<Rightarrow> (byte list \<times> 's) result"
    and wr :: "int \<Rightarrow> byte list \<Rightarrow> 's \<Rightarrow> 's result"
    and ready :: "'s \<Rightarrow> bool"
    and sec :: "'s \<Rightarrow> int \<Rightarrow> byte list"
  assumes sec_length: "ready s \<Longrightarrow> sector_ok k \<Longrightarrow> length (sec s k) = nat SectorSize"
    and rd_ok: "ready s \<Longrightarrow> sector_ok k \<Longrightarrow>
      \<exists>s'. rd k s = Ok (sec s k, s') \<and> ready s' \<and> sec s' = sec s"
    and rd_bad: "ready s \<Longrightarrow> \<not> sector_ok k \<Longrightarrow> rd k s = Err AssertFailed"
    and wr_ok: "ready s \<Longrightarrow> sector_ok k \<Longrightarrow> length data = nat SectorSize \<Longrightarrow>
      \<exists>s'. wr k data s = Ok s' \<and> ready s' \<and>
        (\<forall>j. sector_ok j \<longrightarrow> sec s' j = (if j = k then data else sec s j))"
    and wr_bad: "ready s \<Longrightarrow> \<not> sector_ok k \<Longrightarrow> wr k data s = Err AssertFailed"

interpretation synch_disk: block_store "ReadSector n" "WriteSector n" lone sectors for n
proof unfold_locales
  fix s :: "'a kern_scheme" and k :: int and data :: "byte list"
  show "length (sectors s k) = nat SectorSize" if "lone s" "sector_ok k"
    using lone_disk[OF that(1)] by (auto simp: sectors_eq disk_sectors_def)
  show "\<exists>s'. ReadSector n k s = Ok (sectors s k, s') \<and> lone s' \<and> sectors s' = sectors s"
    if "lone s" "sector_ok k"
    using ReadSector_lone[OF that, of n] by blast
  show "ReadSector n k s = Err AssertFailed" "WriteSector n k data s = Err AssertFailed"
    if "lone s" "\<not> sector_ok k"
    using SectorRequest_bad[OF that] by simp_all
  show "\<exists>s'. WriteSector n k data s = Ok s' \<and> lone s' \<and>
      (\<forall>j. sector_ok j \<longrightarrow> sectors s' j = (if j = k then data else sectors s j))"
    if "lone s" "sector_ok k" "length data = nat SectorSize"
    using WriteSector_lone[OF that, of n] by blast
qed

text \<open>The same store, for clients that need to know what the requests leave alone.\<close>

interpretation kept_disk: block_store "ReadSector n" "WriteSector n" "\<lambda>s. lone s \<and> settled s \<and> untouched s = r" sectors for n r
proof unfold_locales
  fix s :: "'a kern_scheme" and k :: int and data :: "byte list"
  show "length (sectors s k) = nat SectorSize" if "lone s \<and> settled s \<and> untouched s = r" "sector_ok k"
    using synch_disk.sec_length that by blast
  show "\<exists>s'. ReadSector n k s = Ok (sectors s k, s') \<and> (lone s' \<and> settled s' \<and> untouched s' = r) \<and> sectors s' = sectors s"
    if "lone s \<and> settled s \<and> untouched s = r" "sector_ok k"
    using ReadSector_lone[OF _ that(2), of s n] that(1) by blast
  show "ReadSector n k s = Err AssertFailed" "WriteSector n k data s = Err AssertFailed"
    if "lone s \<and> settled s \<and> untouched s = r" "\<not> sector_ok k"
    using SectorRequest_bad[of s k] that by blast+
  show "\<exists>s'. WriteSector n k data s = Ok s' \<and> (lone s' \<and> settled s' \<and> untouched s' = r) \<and>
      (\<forall>j. sector_ok j \<longrightarrow> sectors s' j = (if j = k then data else sectors s j))"
    if "lone s \<and> settled s \<and> untouched s = r" "sector_ok k" "length data = nat SectorSize"
    using WriteSector_lone[OF _ that(2,3), of s n] that(1) by blast
qed

end
