(* ===== verification/File_Header.thy ===== *)
theory File_Header
  imports Bit_Map Synch_Disk
begin

text \<open>
  File headers: src/filesys/filehdr.h and filehdr.cc. A header is one disk sector: three time
  stamps, the sector of the next header of the file, the length in bytes and in sectors, and 26
  numbers of data sectors; a file with more than 26 sectors has a chain of headers. The sector
  operations of the disk below (\<open>synchDisk\<close>) are an argument, so that the same definitions run on
  the kernel's disk and are reasoned about through the interface \<open>block_store\<close>.
\<close>

subsection \<open>Representation\<close>

record 's sector_dev =
  dev_read :: "int \<Rightarrow> 's \<Rightarrow> (byte list \<times> 's) result"
  dev_write :: "int \<Rightarrow> byte list \<Rightarrow> 's \<Rightarrow> 's result"

definition kernel_dev :: "nat \<Rightarrow> 'a kern_scheme sector_dev" where
  "kernel_dev n = \<lparr>dev_read = ReadSector n, dev_write = WriteSector n\<rparr>"

record FileHeader =
  createTime :: u32
  lastAccessTime :: u32
  lastWriteTime :: u32
  nextFdrSector :: u32
  numBytes :: u32
  numSectors :: u32
  dataSectors :: "u32 list"

text \<open>\<open>NumDirect\<close> for 32-bit \<open>int\<close> and \<open>time_t\<close>: \<open>(128 - 3 * 4 - 3 * 4) / 4\<close>.\<close>

definition NumDirect :: nat where "NumDirect = 26"

definition words_to_bytes :: "u32 list \<Rightarrow> byte list" where
  "words_to_bytes ws = concat (map u32_to_le ws)"

fun bytes_to_words :: "nat \<Rightarrow> byte list \<Rightarrow> u32 list" where
  "bytes_to_words 0 bs = []"
| "bytes_to_words (Suc n) bs = u32_of_le (take 4 bs) # bytes_to_words n (drop 4 bs)"

text \<open>The object in memory, seen as the bytes of a sector.\<close>

definition hdr_to_bytes :: "FileHeader \<Rightarrow> byte list" where
  "hdr_to_bytes h =
     words_to_bytes ([createTime h, lastAccessTime h, lastWriteTime h, nextFdrSector h, numBytes h,
                      numSectors h] @ dataSectors h)"

definition hdr_of_bytes :: "byte list \<Rightarrow> FileHeader" where
  "hdr_of_bytes bs =
     (let ws = bytes_to_words 32 bs
      in \<lparr>createTime = ws ! 0, lastAccessTime = ws ! 1, lastWriteTime = ws ! 2, nextFdrSector = ws ! 3,
          numBytes = ws ! 4, numSectors = ws ! 5, dataSectors = drop 6 ws\<rparr>)"

definition hdr_shape :: "FileHeader \<Rightarrow> bool" where
  "hdr_shape h \<longleftrightarrow> length (dataSectors h) = NumDirect"

lemma bytes_to_words_inverse [simp]:
  "bytes_to_words (length ws) (words_to_bytes ws @ bs) = ws"
  by (induction ws) (simp_all add: words_to_bytes_def)

lemma length_words_to_bytes [simp]: "length (words_to_bytes ws) = 4 * length ws"
  by (induction ws) (simp_all add: words_to_bytes_def)

lemma length_bytes_to_words [simp]: "length (bytes_to_words n bs) = n"
  by (induction n arbitrary: bs) simp_all

lemma words_to_bytes_inverse: "length bs = 4 * n \<Longrightarrow> words_to_bytes (bytes_to_words n bs) = bs"
proof (induction n arbitrary: bs)
  case (Suc n)
  then have "words_to_bytes (bytes_to_words n (drop 4 bs)) = drop 4 bs" by simp
  with Suc.prems show ?case by (simp add: words_to_bytes_def)
qed (simp add: words_to_bytes_def)

lemma length_hdr_to_bytes [simp]: "hdr_shape h \<Longrightarrow> length (hdr_to_bytes h) = nat SectorSize"
  by (simp add: hdr_to_bytes_def hdr_shape_def NumDirect_def SectorSize_def)

lemma hdr_of_to_bytes [simp]:
  assumes "hdr_shape h"
  shows "hdr_of_bytes (hdr_to_bytes h) = h"
proof -
  let ?ws = "[createTime h, lastAccessTime h, lastWriteTime h, nextFdrSector h, numBytes h,
      numSectors h] @ dataSectors h"
  have "length ?ws = 32" using assms by (simp add: hdr_shape_def NumDirect_def)
  then have "bytes_to_words 32 (hdr_to_bytes h) = ?ws"
    using bytes_to_words_inverse[of ?ws "[]"] by (simp add: hdr_to_bytes_def)
  then show ?thesis by (simp add: hdr_of_bytes_def)
qed

lemma nth_6_drop: "length ws = 32 \<Longrightarrow>
    [ws ! 0, ws ! 1, ws ! 2, ws ! 3, ws ! 4, ws ! 5] @ drop 6 ws = ws"
  by (intro nth_equalityI) (auto simp: nth_append nth_Cons numeral_eq_Suc less_Suc_eq split: nat.splits)

lemma hdr_to_of_bytes [simp]:
  assumes "length bs = nat SectorSize"
  shows "hdr_to_bytes (hdr_of_bytes bs) = bs"
  using words_to_bytes_inverse[of bs 32] assms nth_6_drop[of "bytes_to_words 32 bs"]
  by (simp add: hdr_to_bytes_def hdr_of_bytes_def Let_def SectorSize_def)

lemma hdr_shape_of_bytes [simp]: "hdr_shape (hdr_of_bytes bs)"
  by (simp add: hdr_shape_def hdr_of_bytes_def Let_def NumDirect_def)

subsection \<open>Operations\<close>

definition FileHeader_FetchFrom :: "'s sector_dev \<Rightarrow> int \<Rightarrow> 's \<Rightarrow> (FileHeader \<times> 's) result" where
  "FileHeader_FetchFrom dev sector s =
     rbind (dev_read dev sector s) (\<lambda>(bs, s). Ok (hdr_of_bytes bs, s))"

definition FileHeader_WriteBack :: "'s sector_dev \<Rightarrow> FileHeader \<Rightarrow> int \<Rightarrow> 's \<Rightarrow> 's result" where
  "FileHeader_WriteBack dev h sector s = dev_write dev sector (hdr_to_bytes h) s"

definition FileHeader_FileLength :: "FileHeader \<Rightarrow> int" where
  "FileHeader_FileLength h = sint (numBytes h)"

text \<open>\<open>offset\<close> is compared with an unsigned number; the argument of the loop is its value as
  an unsigned int.\<close>

function byte_to_sector :: "'s sector_dev \<Rightarrow> FileHeader \<Rightarrow> nat \<Rightarrow> 's \<Rightarrow> (u32 \<times> 's) result" where
  "byte_to_sector dev h offset s =
     (if offset \<ge> NumDirect * nat SectorSize
      then rbind (FileHeader_FetchFrom dev (sint (nextFdrSector h)) s) (\<lambda>(h, s).
             byte_to_sector dev h (offset - NumDirect * nat SectorSize) s)
      else rbind (aget (dataSectors h) (int (offset div nat SectorSize))) (\<lambda>w. Ok (w, s)))"
  by pat_completeness auto
termination
  by (relation "measure (\<lambda>(dev, h, offset, s). offset)") (auto simp: NumDirect_def SectorSize_def)

declare byte_to_sector.simps [simp del]

definition FileHeader_ByteToSector :: "'s sector_dev \<Rightarrow> FileHeader \<Rightarrow> int \<Rightarrow> 's \<Rightarrow> (int \<times> 's) result" where
  "FileHeader_ByteToSector dev h offset s =
     rbind (byte_to_sector dev h (nat (offset mod 2 ^ 32)) s) (\<lambda>(w, s). Ok (sint w, s))"

text \<open>
  The loop of \<open>Allocate\<close>. \<open>hdr\<close> is the header being filled, \<open>None\<close> for the object itself;
  \<open>cur_sector\<close> is \<open>None\<close> as long as the variable is not assigned; \<open>junk i\<close> is the memory that
  \<^verbatim>\<open>new FileHeader\<close> returns in round \<open>i\<close>.
\<close>

record alloc_state =
  al_this :: FileHeader
  al_hdr :: "FileHeader option"
  al_sector :: "int option"
  al_map :: BitMap

definition al_put :: "(FileHeader \<Rightarrow> FileHeader) \<Rightarrow> alloc_state \<Rightarrow> alloc_state" where
  "al_put f a =
     (case al_hdr a of
        None \<Rightarrow> a\<lparr>al_this := f (al_this a)\<rparr>
      | Some h \<Rightarrow> a\<lparr>al_hdr := Some (f h)\<rparr>)"

definition al_get :: "alloc_state \<Rightarrow> FileHeader" where
  "al_get a = (case al_hdr a of None \<Rightarrow> al_this a | Some h \<Rightarrow> h)"

definition al_WriteBack :: "'s sector_dev \<Rightarrow> alloc_state \<Rightarrow> 's \<Rightarrow> 's result" where
  "al_WriteBack dev a s =
     (case al_sector a of
        None \<Rightarrow> Err Uninitialised
      | Some sector \<Rightarrow> FileHeader_WriteBack dev (al_get a) sector s)"

definition alloc_chain :: "'s sector_dev \<Rightarrow> (int \<Rightarrow> FileHeader) \<Rightarrow> int \<Rightarrow> alloc_state \<Rightarrow> 's \<Rightarrow>
    (alloc_state \<times> 's) result" where
  "alloc_chain dev junk i a s =
     (if i \<noteq> 0 \<and> i mod int NumDirect = 0
      then rbind (BitMap_Find (al_map a)) (\<lambda>(bm, next_sector).
           let a = al_put (\<lambda>h. h\<lparr>nextFdrSector := word_of_int next_sector\<rparr>) (a\<lparr>al_map := bm\<rparr>)
           in rbind (if i \<noteq> int NumDirect then al_WriteBack dev a s else Ok s) (\<lambda>s.
              Ok (a\<lparr>al_sector := Some next_sector, al_hdr := Some (junk i)\<rparr>, s)))
      else Ok (a, s))"

fun alloc_loop :: "'s sector_dev \<Rightarrow> (int \<Rightarrow> FileHeader) \<Rightarrow> int list \<Rightarrow> alloc_state \<Rightarrow> 's \<Rightarrow>
    (alloc_state \<times> 's) result" where
  "alloc_loop dev junk [] a s = Ok (a, s)"
| "alloc_loop dev junk (i # is) a s =
     rbind (alloc_chain dev junk i a s) (\<lambda>(a, s).
     rbind (BitMap_Find (al_map a)) (\<lambda>(bm, d).
     rbind (aset (dataSectors (al_get a)) (i mod int NumDirect) (word_of_int d)) (\<lambda>ds.
     alloc_loop dev junk is (al_put (\<lambda>h. h\<lparr>dataSectors := ds\<rparr>) (a\<lparr>al_map := bm\<rparr>)) s)))"

text \<open>The result is the returned flag, the header, the bitmap and the disk; \<open>currentTime\<close> is
  what \<open>time(NULL)\<close> returns.\<close>

definition FileHeader_Allocate :: "'s sector_dev \<Rightarrow> u32 \<Rightarrow> (int \<Rightarrow> FileHeader) \<Rightarrow> FileHeader \<Rightarrow> BitMap \<Rightarrow>
    int \<Rightarrow> 's \<Rightarrow> (bool \<times> FileHeader \<times> BitMap \<times> 's) result" where
  "FileHeader_Allocate dev currentTime junk this freeMap fileSize s =
     (let n = divRoundUp fileSize SectorSize;
          this = this\<lparr>numBytes := word_of_int fileSize, numSectors := word_of_int n\<rparr>
      in rbind (BitMap_NumClear freeMap) (\<lambda>free.
         if free < n then Ok (False, this, freeMap, s)
         else
           rbind (alloc_loop dev junk [0..n - 1]
                    \<lparr>al_this = this, al_hdr = None, al_sector = None, al_map = freeMap\<rparr> s) (\<lambda>(a, s).
           let a = al_put (\<lambda>h. h\<lparr>nextFdrSector := -1\<rparr>) a
           in rbind (if max 0 n \<ge> int NumDirect then al_WriteBack dev a s else Ok s) (\<lambda>s.
              Ok (True, (al_this a)\<lparr>createTime := currentTime, lastWriteTime := currentTime\<rparr>,
                  al_map a, s)))))"

text \<open>
  The inner \<open>for\<close> of \<open>Deallocate\<close>, whose \<open>break\<close> leaves only itself, and the \<open>while(true)\<close>
  around it.
\<close>

fun dealloc_for :: "'s sector_dev \<Rightarrow> int list \<Rightarrow> FileHeader \<Rightarrow> BitMap \<Rightarrow> 's \<Rightarrow>
    (FileHeader \<times> BitMap \<times> 's) result" where
  "dealloc_for dev [] h bm s = Ok (h, bm, s)"
| "dealloc_for dev (i # is) h bm s =
     rbind (aget (dataSectors h) (i mod int NumDirect)) (\<lambda>d.
     rbind (BitMap_Test bm (sint d)) (\<lambda>t.
     ASSERT t
       (rbind (BitMap_Clear bm (sint d)) (\<lambda>bm.
        if nextFdrSector h = -1 then Ok (h, bm, s)
        else rbind (FileHeader_FetchFrom dev (sint (nextFdrSector h)) s) (\<lambda>(h, s).
             dealloc_for dev is h bm s)))))"

partial_function (option) dealloc_while :: "'s sector_dev \<Rightarrow> int \<Rightarrow> FileHeader \<Rightarrow> BitMap \<Rightarrow> 's \<Rightarrow>
    (BitMap \<times> 's) result option" where
  "dealloc_while dev n h bm s =
     (case dealloc_for dev [0..n - 1] h bm s of
        Err e \<Rightarrow> Some (Err e)
      | Ok (h, bm, s) \<Rightarrow> dealloc_while dev n h bm s)"

definition FileHeader_Deallocate :: "'s sector_dev \<Rightarrow> FileHeader \<Rightarrow> BitMap \<Rightarrow> 's \<Rightarrow>
    (BitMap \<times> 's) result" where
  "FileHeader_Deallocate dev this freeMap s =
     loop_result (dealloc_while dev (sint (numSectors this)) this freeMap s)"

subsection \<open>Printing\<close>

text \<open>The sector numbers and the bytes that \<open>Print\<close> writes out.\<close>

definition next_header :: "'s sector_dev \<Rightarrow> int \<Rightarrow> FileHeader \<Rightarrow> 's \<Rightarrow> (FileHeader \<times> 's) result" where
  "next_header dev i h s =
     (if i \<noteq> 0 \<and> i mod int NumDirect = 0 then FileHeader_FetchFrom dev (sint (nextFdrSector h)) s
      else Ok (h, s))"

fun print_sectors :: "'s sector_dev \<Rightarrow> int list \<Rightarrow> FileHeader \<Rightarrow> 's \<Rightarrow> (int list \<times> 's) result" where
  "print_sectors dev [] h s = Ok ([], s)"
| "print_sectors dev (i # is) h s =
     rbind (next_header dev i h s) (\<lambda>(h, s).
     rbind (aget (dataSectors h) (i mod int NumDirect)) (\<lambda>d.
     rbind (print_sectors dev is h s) (\<lambda>(ds, s). Ok (sint d # ds, s))))"

fun print_contents :: "'s sector_dev \<Rightarrow> int \<Rightarrow> int list \<Rightarrow> int \<Rightarrow> FileHeader \<Rightarrow> 's \<Rightarrow>
    (byte list list \<times> 's) result" where
  "print_contents dev n [] k h s = Ok ([], s)"
| "print_contents dev n (i # is) k h s =
     rbind (next_header dev i h s) (\<lambda>(h, s).
     rbind (aget (dataSectors h) (i mod int NumDirect)) (\<lambda>d.
     rbind (dev_read dev (sint d) s) (\<lambda>(data, s).
     let line = take (nat (min SectorSize (n - k))) data
     in rbind (print_contents dev n is (k + int (length line)) h s) (\<lambda>(ls, s). Ok (line # ls, s)))))"

definition FileHeader_Print :: "'s sector_dev \<Rightarrow> FileHeader \<Rightarrow> 's \<Rightarrow>
    ((int list \<times> byte list list) \<times> 's) result" where
  "FileHeader_Print dev h s =
     (let n = [0..sint (numSectors h) - 1] in
      rbind (print_sectors dev n h s) (\<lambda>(ds, s).
      rbind (print_contents dev (sint (numBytes h)) n 0 h s) (\<lambda>(ls, s). Ok ((ds, ls), s))))"

subsection \<open>Deallocate does not return\<close>

lemma dealloc_while_not_Ok:
  assumes "dealloc_while dev n h bm s = Some r"
  shows "\<exists>e. r = Err e"
  by (rule dealloc_while.raw_induct[where P = "\<lambda>_ _ _ _ _ r. \<exists>e. r = Err e", OF _ assms])
    (auto split: result.splits prod.splits)

lemma dealloc_for_first:
  assumes "hdr_shape h" "0 < n" "nextFdrSector h = -1"
  shows "dealloc_for dev [0..n - 1] h bm s =
    (let d = sint (dataSectors h ! 0) in
     rbind (BitMap_Test bm d) (\<lambda>t. ASSERT t (rbind (BitMap_Clear bm d) (\<lambda>bm. Ok (h, bm, s)))))"
proof -
  have "[0..n - 1] = 0 # [1..n - 1]" using assms(2) by (simp add: upto_rec1)
  with assms show ?thesis by (simp add: hdr_shape_def NumDirect_def Let_def)
qed

lemma Deallocate_not_Ok: "FileHeader_Deallocate dev h bm s \<noteq> Ok r"
proof
  assume "FileHeader_Deallocate dev h bm s = Ok r"
  then have "dealloc_while dev (sint (numSectors h)) h bm s = Some (Ok r)"
    by (simp add: FileHeader_Deallocate_def loop_result_eq_Ok)
  from dealloc_while_not_Ok[OF this] show False by simp
qed

text \<open>For a file with one header the second turn of the \<open>while\<close> finds the sector free that the
  first one has freed.\<close>

lemma Deallocate_twice:
  assumes "hdr_shape h" "0 < sint (numSectors h)" "nextFdrSector h = -1" "BitMap_ok bm"
    and d: "sint (dataSectors h ! 0) = int d" "d < bm_size bm" "d \<in> marked bm"
  shows "FileHeader_Deallocate dev h bm s = Err AssertFailed"
proof -
  obtain bm' where c: "BitMap_Clear bm (int d) = Ok bm'" "BitMap_ok bm'" "bm_size bm' = bm_size bm"
    "d \<notin> marked bm'" using BitMap_Clear_spec[OF assms(4) d(2)] by auto
  note first = dealloc_for_first[OF assms(1-3), of dev]
  have "dealloc_for dev [0..sint (numSectors h) - 1] h bm s = Ok (h, bm', s)"
    using first[of bm s] BitMap_Test_spec[OF assms(4) d(2)] c(1) d(1,3) by simp
  moreover have "dealloc_for dev [0..sint (numSectors h) - 1] h bm' s = Err AssertFailed"
    using first[of bm' s] BitMap_Test_spec[OF c(2), of d] c(3,4) d by (simp add: ASSERT_def)
  ultimately show ?thesis
    unfolding FileHeader_Deallocate_def by (simp add: dealloc_while.simps)
qed

subsection \<open>Chains of headers\<close>

text \<open>
  \<open>chain sec h hs ds\<close>: a file whose first header is \<open>h\<close>, with further headers in the sectors
  \<open>hs\<close>, has the data sectors \<open>ds\<close>, on a disk with contents \<open>sec\<close>.
\<close>

fun chain :: "(int \<Rightarrow> byte list) \<Rightarrow> FileHeader \<Rightarrow> int list \<Rightarrow> int list \<Rightarrow> bool" where
  "chain sec h [] ds \<longleftrightarrow>
     length ds \<le> NumDirect \<and> map sint (take (length ds) (dataSectors h)) = ds"
| "chain sec h (k # hs) ds \<longleftrightarrow>
     length ds > NumDirect \<and> sint (nextFdrSector h) = k \<and> sector_ok k \<and>
     map sint (dataSectors h) = take NumDirect ds \<and>
     chain sec (hdr_of_bytes (sec k)) hs (drop NumDirect ds)"

lemma chain_cong:
  "(\<And>k. k \<in> set hs \<Longrightarrow> sec k = sec' k) \<Longrightarrow> chain sec h hs ds = chain sec' h hs ds"
  by (induction hs arbitrary: h ds) auto

lemma chain_cong_hdr:
  "dataSectors h = dataSectors h' \<Longrightarrow> nextFdrSector h = nextFdrSector h' \<Longrightarrow>
     chain sec h hs ds = chain sec h' hs ds"
  by (cases hs) auto

lemma chain_lengths: "chain sec h hs ds \<Longrightarrow>
    length ds \<le> NumDirect * Suc (length hs) \<and> (hs \<noteq> [] \<longrightarrow> NumDirect * length hs < length ds)"
  by (induction hs arbitrary: h ds) (fastforce simp: NumDirect_def)+

text \<open>The header at the end of a chain, and the disk after it is replaced.\<close>

definition last_hdr :: "(int \<Rightarrow> byte list) \<Rightarrow> FileHeader \<Rightarrow> int list \<Rightarrow> FileHeader" where
  "last_hdr sec h hs = (if hs = [] then h else hdr_of_bytes (sec (last hs)))"

lemma sint_sector: "sector_ok k \<Longrightarrow> sint (word_of_int k :: u32) = k"
  by (simp add: sector_ok_def disk_defs sint_of_range)

lemma chain_last_next:
  assumes "chain sec h hs ds" "distinct hs" "hs \<noteq> []" "hdr_shape g"
    "dataSectors g = dataSectors (last_hdr sec h hs)"
  shows "chain (sec(last hs := hdr_to_bytes g)) h hs ds"
  using assms
proof (induction hs arbitrary: h ds)
  case (Cons k hs)
  show ?case
  proof (cases "hs = []")
    case True
    with Cons.prems show ?thesis by (simp add: last_hdr_def)
  next
    case False
    then have "k \<noteq> last hs" using Cons.prems(2) by auto
    with Cons False show ?thesis by (simp add: last_hdr_def)
  qed
qed simp

lemma chain_put:
  assumes "chain sec h hs ds" "distinct hs" "hs \<noteq> []" "length ds < NumDirect * Suc (length hs)"
    "hdr_shape g" "dataSectors g = (dataSectors (last_hdr sec h hs))[length ds mod NumDirect := w]"
  shows "chain (sec(last hs := hdr_to_bytes g)) h hs (ds @ [sint w])"
  using assms
proof (induction hs arbitrary: h ds)
  case (Cons k hs)
  let ?ds = "drop NumDirect ds"
  have ds: "NumDirect < length ds" "length ds mod NumDirect = length ?ds mod NumDirect"
    using Cons.prems(1) by (simp_all add: le_mod_geq)
  show ?case
  proof (cases "hs = []")
    case True
    have c: "length ?ds < NumDirect" "map sint (take (length ?ds) (dataSectors (hdr_of_bytes (sec k)))) = ?ds"
      using Cons.prems(1,4) True by simp_all
    have "length (dataSectors (hdr_of_bytes (sec k))) = NumDirect"
      using hdr_shape_of_bytes by (simp add: hdr_shape_def)
    with c have "map sint (take (Suc (length ?ds)) ((dataSectors (hdr_of_bytes (sec k)))[length ?ds := w])) =
        ?ds @ [sint w]"
      by (simp add: take_Suc_conv_app_nth take_update_cancel)
    with True Cons.prems ds c show ?thesis by (simp add: last_hdr_def Suc_diff_le)
  next
    case False
    then have "k \<noteq> last hs" using Cons.prems(2) by auto
    moreover have "length ?ds < NumDirect * Suc (length hs)" using Cons.prems(4) ds by simp
    ultimately show ?thesis
      using Cons.IH[of "hdr_of_bytes (sec k)" ?ds] Cons.prems False ds by (simp add: last_hdr_def)
  qed
qed simp

lemma chain_grow:
  assumes "chain sec h hs ds" "distinct hs" "hs \<noteq> []" "length ds = NumDirect * Suc (length hs)"
    "sector_ok k'" "k' \<notin> set hs" "hdr_shape g" "hdr_shape g'"
    "dataSectors g = dataSectors (last_hdr sec h hs)" "sint (nextFdrSector g) = k'"
  shows "chain (sec(last hs := hdr_to_bytes g, k' := hdr_to_bytes g')) h (hs @ [k'])
    (ds @ [sint (dataSectors g' ! 0)])"
  using assms
proof (induction hs arbitrary: h ds)
  case (Cons k hs)
  let ?ds = "drop NumDirect ds"
  have ds: "NumDirect < length ds" "k \<noteq> k'" using Cons.prems(1,6) by simp_all
  show ?case
  proof (cases "hs = []")
    case True
    have len: "length (dataSectors g') = NumDirect" "length (dataSectors (hdr_of_bytes (sec k))) = NumDirect"
      using Cons.prems(8) hdr_shape_of_bytes by (simp_all add: hdr_shape_def)
    then have "[sint (dataSectors g' ! 0)] = map sint (take 1 (dataSectors g'))"
      by (cases "dataSectors g'") (simp_all add: NumDirect_def)
    with True Cons.prems ds len show ?thesis by (auto simp: last_hdr_def NumDirect_def)
  next
    case False
    then have "k \<noteq> last hs" using Cons.prems(2) by auto
    moreover have "length ?ds = NumDirect * Suc (length hs)" using Cons.prems(4) by simp
    ultimately show ?thesis
      using Cons.IH[of "hdr_of_bytes (sec k)" ?ds] Cons.prems False ds by (simp add: last_hdr_def)
  qed
qed simp

subsection \<open>The invariant of Allocate\<close>

definition map_ok :: "BitMap \<Rightarrow> bool" where
  "map_ok bm \<longleftrightarrow> BitMap_ok bm \<and> bm_size bm = nat NumSectors"

lemma find_sector:
  assumes "map_ok bm" "0 < bm.free bm"
  obtains bm' k where "BitMap_Find bm = Ok (bm', k)" "sector_ok k" "nat k \<notin> marked bm" "map_ok bm'"
    "marked bm' = insert (nat k) (marked bm)" "bm.free bm' = bm.free bm - 1"
proof -
  obtain bm' i where i: "BitMap_Find bm = Ok (bm', int i)" "BitMap_ok bm'" "bm_size bm' = bm_size bm"
    "i < bm_size bm" "i \<notin> marked bm" "marked bm' = insert i (marked bm)" "bm.free bm' = bm.free bm - 1"
    using bm.find_some[of bm] assms by (auto simp: map_ok_def)
  then have "sector_ok (int i)" using assms(1) by (simp add: map_ok_def sector_ok_def disk_defs)
  with i assms(1) show ?thesis using that[of bm' "int i"] by (simp add: map_ok_def)
qed

definition al_chain :: "(int \<Rightarrow> byte list) \<Rightarrow> alloc_state \<Rightarrow> int list \<Rightarrow> int list \<Rightarrow> bool" where
  "al_chain sec a hs ds \<longleftrightarrow>
     (if hs = [] then al_hdr a = None \<and> al_sector a = None \<and> chain sec (al_this a) [] ds
      else \<exists>h. al_hdr a = Some h \<and> hdr_shape h \<and> al_sector a = Some (last hs) \<and>
             chain (sec(last hs := hdr_to_bytes h)) (al_this a) hs ds)"

definition al_inv :: "(int \<Rightarrow> byte list) \<Rightarrow> (int \<Rightarrow> byte list) \<Rightarrow> FileHeader \<Rightarrow> nat set \<Rightarrow> alloc_state \<Rightarrow>
    int list \<Rightarrow> int list \<Rightarrow> bool" where
  "al_inv sec0 sec this0 M a hs ds \<longleftrightarrow>
     map_ok (al_map a) \<and> marked (al_map a) = M \<union> nat ` set (hs @ ds) \<and> distinct (hs @ ds) \<and>
     (\<forall>k\<in>set (hs @ ds). sector_ok k \<and> nat k \<notin> M) \<and> hdr_shape (al_this a) \<and>
     numBytes (al_this a) = numBytes this0 \<and> numSectors (al_this a) = numSectors this0 \<and>
     (\<forall>j. sector_ok j \<longrightarrow> j \<notin> set hs \<longrightarrow> sec j = sec0 j) \<and> al_chain sec a hs ds"

lemma al_inv_lengths:
  assumes "al_inv sec0 sec this0 M a hs ds"
  shows "length ds \<le> NumDirect * Suc (length hs)" "hs \<noteq> [] \<Longrightarrow> NumDirect * length hs < length ds"
  using assms chain_lengths[of _ "al_this a" hs ds]
  by (auto simp: al_inv_def al_chain_def split: if_splits)

lemma nat_sector_notin: "sector_ok k \<Longrightarrow> \<forall>j\<in>A. sector_ok j \<Longrightarrow> nat k \<notin> nat ` A \<Longrightarrow> k \<notin> A"
  by auto

lemma al_inv_free:
  assumes "al_inv sec0 sec this0 M a hs ds" "M \<subseteq> {..<nat NumSectors}"
  shows "bm.free (al_map a) = nat NumSectors - card M - length hs - length ds"
proof -
  have "\<forall>k\<in>set (hs @ ds). 0 \<le> k" using assms(1) by (auto simp: al_inv_def sector_ok_def)
  then have "inj_on nat (set (hs @ ds))" by (intro inj_onI) (metis nat_0_le)
  then have "card (nat ` set (hs @ ds)) = card (set (hs @ ds))" by (rule card_image)
  also have "\<dots> = length (hs @ ds)" using assms(1) by (intro distinct_card) (simp add: al_inv_def)
  finally have "card (nat ` set (hs @ ds)) = length (hs @ ds)" .
  moreover have "M \<inter> nat ` set (hs @ ds) = {}" using assms(1) by (auto simp: al_inv_def)
  moreover have "finite M" using assms(2) finite_subset by blast
  ultimately have "card (marked (al_map a)) = card M + length hs + length ds"
    using assms(1) card_Un_disjoint[of M "nat ` set (hs @ ds)"] by (simp add: al_inv_def)
  then show ?thesis using assms(1) by (simp add: bm.free_def al_inv_def map_ok_def)
qed

lemma al_chain_map [simp]: "al_chain sec (a\<lparr>al_map := m\<rparr>) hs ds = al_chain sec a hs ds"
  by (simp add: al_chain_def)

lemma al_put_map [simp]: "al_put f (a\<lparr>al_map := m\<rparr>) = (al_put f a)\<lparr>al_map := m\<rparr>"
  "al_get (a\<lparr>al_map := m\<rparr>) = al_get a" "al_sector (al_put f a) = al_sector a" "al_map (al_put f a) = al_map a"
  by (simp_all add: al_put_def al_get_def split: option.splits)

lemma al_get_put [simp]: "al_get (al_put f a) = f (al_get a)"
  by (simp add: al_put_def al_get_def split: option.splits)

lemma al_chain_put:
  assumes "al_chain sec a hs ds" "distinct hs" "hdr_shape (al_this a)"
    "length ds < NumDirect * Suc (length hs)"
  shows "al_chain sec (al_put (\<lambda>h. h\<lparr>dataSectors := (dataSectors (al_get a))[length ds mod NumDirect := w]\<rparr>) a)
    hs (ds @ [sint w])"
proof (cases "hs = []")
  case True
  then have "length ds < NumDirect" "map sint (take (length ds) (dataSectors (al_this a))) = ds"
    using assms(1,4) by (simp_all add: al_chain_def)
  then have "map sint (take (Suc (length ds)) ((dataSectors (al_this a))[length ds := w])) = ds @ [sint w]"
    using assms(3) by (simp add: take_Suc_conv_app_nth take_update_cancel hdr_shape_def)
  with True assms(1,4) show ?thesis by (simp add: al_chain_def al_put_def al_get_def)
next
  case False
  then obtain h where h: "al_hdr a = Some h" "hdr_shape h" "al_sector a = Some (last hs)"
    "chain (sec(last hs := hdr_to_bytes h)) (al_this a) hs ds"
    using assms(1) by (auto simp: al_chain_def)
  let ?g = "h\<lparr>dataSectors := (dataSectors h)[length ds mod NumDirect := w]\<rparr>"
  have "chain ((sec(last hs := hdr_to_bytes h))(last hs := hdr_to_bytes ?g)) (al_this a) hs (ds @ [sint w])"
    using chain_put[OF h(4) assms(2) False assms(4), of ?g w] h(2) False
    by (simp add: last_hdr_def hdr_shape_def)
  with h False show ?thesis by (simp add: al_chain_def al_put_def al_get_def hdr_shape_def)
qed

lemma al_chain_grow:
  assumes "al_chain sec a hs ds" "distinct hs" "hdr_shape (al_this a)"
    "length ds = NumDirect * Suc (length hs)" "sector_ok k" "k \<notin> set hs" "hdr_shape g"
    and sec': "\<And>j. j \<in> set hs \<Longrightarrow> sec' j =
      (if j = last hs then hdr_to_bytes ((al_get a)\<lparr>nextFdrSector := word_of_int k\<rparr>) else sec j)"
  shows "al_chain sec' ((al_put (\<lambda>h. h\<lparr>nextFdrSector := word_of_int k\<rparr>) a)
      \<lparr>al_sector := Some k, al_hdr := Some g\<rparr>) (hs @ [k]) (ds @ [sint (dataSectors g ! 0)])"
proof (cases "hs = []")
  case True
  then have ds: "length ds = NumDirect" "map sint (dataSectors (al_this a)) = ds" "al_hdr a = None"
    using assms(1,3,4) by (auto simp: al_chain_def hdr_shape_def)
  have "map sint (take 1 (dataSectors g)) = [sint (dataSectors g ! 0)]"
    using assms(7) by (cases "dataSectors g") (simp_all add: hdr_shape_def NumDirect_def)
  with True ds assms(5,7) show ?thesis
    by (auto simp: al_chain_def al_put_def sint_sector NumDirect_def)
next
  case False
  then obtain h where h: "al_hdr a = Some h" "hdr_shape h" "al_sector a = Some (last hs)"
    "chain (sec(last hs := hdr_to_bytes h)) (al_this a) hs ds"
    using assms(1) by (auto simp: al_chain_def)
  let ?g = "h\<lparr>nextFdrSector := word_of_int k\<rparr>"
  have "chain ((sec(last hs := hdr_to_bytes h))(last hs := hdr_to_bytes ?g, k := hdr_to_bytes g))
      (al_this a) (hs @ [k]) (ds @ [sint (dataSectors g ! 0)])"
    using chain_grow[OF h(4) assms(2) False assms(4,5,6), of ?g g] h(2) False assms(5,7)
    by (simp add: last_hdr_def hdr_shape_def sint_sector)
  also have "?this \<longleftrightarrow> chain (sec'(k := hdr_to_bytes g)) (al_this a) (hs @ [k]) (ds @ [sint (dataSectors g ! 0)])"
    using assms(6) sec' h(1) by (intro chain_cong) (auto simp: al_get_def)
  finally show ?thesis
    using h False assms(7) by (simp add: al_chain_def al_put_def)
qed

context block_store
begin

abbreviation dev :: "'s sector_dev" where
  "dev \<equiv> \<lparr>dev_read = rd, dev_write = wr\<rparr>"

lemma FetchFrom_ok:
  assumes "ready s" "sector_ok k"
  obtains s' where "FileHeader_FetchFrom dev k s = Ok (hdr_of_bytes (sec s k), s')"
    "ready s'" "sec s' = sec s"
  using rd_ok[OF assms] by (auto simp: FileHeader_FetchFrom_def)

lemma WriteBack_ok:
  assumes "ready s" "sector_ok k" "hdr_shape h"
  obtains s' where "FileHeader_WriteBack dev h k s = Ok s'" "ready s'"
    "\<And>j. sector_ok j \<Longrightarrow> sec s' j = (if j = k then hdr_to_bytes h else sec s j)"
  using wr_ok[OF assms(1,2), of "hdr_to_bytes h"] assms(3) by (auto simp: FileHeader_WriteBack_def)

lemma byte_to_sector_chain:
  assumes "ready s" "chain (sec s) h hs ds" "offset < length ds * nat SectorSize"
  shows "\<exists>w s'. byte_to_sector dev h offset s = Ok (w, s') \<and> sint w = ds ! (offset div nat SectorSize) \<and>
    ready s' \<and> sec s' = sec s"
  using assms
proof (induction hs arbitrary: h ds offset s)
  case Nil
  let ?i = "offset div nat SectorSize"
  have i: "?i < length ds" using Nil.prems(3) by (simp add: less_mult_imp_div_less)
  then have "offset < NumDirect * nat SectorSize"
    using Nil.prems(2,3) by (auto intro: order_less_le_trans)
  moreover have len: "length ds \<le> length (dataSectors h)" using Nil.prems(2)
    by (metis chain.simps(1) length_map length_take min.cobounded1)
  moreover have "sint (dataSectors h ! ?i) = ds ! ?i"
    using Nil.prems(2) i len by (metis chain.simps(1) length_map nth_map nth_take)
  ultimately show ?case
    using i Nil.prems(1) by (subst byte_to_sector.simps) (auto simp del: byte_to_sector.simps)
next
  case (Cons k hs)
  from Cons.prems have k: "sector_ok k" "sint (nextFdrSector h) = k" "length ds > NumDirect"
    "map sint (dataSectors h) = take NumDirect ds" by auto
  have S: "nat SectorSize = 128" by (simp add: SectorSize_def)
  show ?case
  proof (cases "offset \<ge> NumDirect * nat SectorSize")
    case True
    obtain s1 where s1: "FileHeader_FetchFrom dev k s = Ok (hdr_of_bytes (sec s k), s1)"
      "ready s1" "sec s1 = sec s" using FetchFrom_ok[OF Cons.prems(1) k(1)] by blast
    let ?off = "offset - NumDirect * nat SectorSize"
    have off: "?off < length (drop NumDirect ds) * nat SectorSize"
      using True Cons.prems(3) by (simp add: S algebra_simps) 
    have div: "offset div nat SectorSize = NumDirect + ?off div nat SectorSize"
      using True by (simp add: S)
    from Cons.IH[OF s1(2) _ off, of "hdr_of_bytes (sec s k)"] Cons.prems(2) s1(3)
    obtain w s' where w: "byte_to_sector dev (hdr_of_bytes (sec s k)) ?off s1 = Ok (w, s')"
      "sint w = drop NumDirect ds ! (?off div nat SectorSize)" "ready s'" "sec s' = sec s" by auto
    then have "byte_to_sector dev h offset s = Ok (w, s')"
      using True s1(1) k(2) by (subst byte_to_sector.simps) simp
    moreover have "sint w = ds ! (offset div nat SectorSize)"
      using w(2) div k(3) by simp
    ultimately show ?thesis using w by blast
  next
    case False
    let ?i = "offset div nat SectorSize"
    have i: "?i < NumDirect" using False by (simp add: less_mult_imp_div_less)
    moreover have len: "length (dataSectors h) = NumDirect"
      using arg_cong[OF k(4), of length] k(3) by simp
    moreover have "sint (dataSectors h ! ?i) = ds ! ?i"
      using k(4) i len by (metis nth_map nth_take)
    ultimately show ?thesis
      using False Cons.prems(1) by (subst byte_to_sector.simps) auto
  qed
qed

lemma al_find:
  assumes "al_inv sec0 (sec s) this0 M a hs ds" "0 < bm.free (al_map a)"
  obtains bm' k where "BitMap_Find (al_map a) = Ok (bm', k)" "sector_ok k" "nat k \<notin> M" "k \<notin> set (hs @ ds)"
    "map_ok bm'" "marked bm' = insert (nat k) (marked (al_map a))" "bm.free bm' = bm.free (al_map a) - 1"
proof -
  obtain bm' k where *: "BitMap_Find (al_map a) = Ok (bm', k)" "sector_ok k" "nat k \<notin> marked (al_map a)"
    "map_ok bm'" "marked bm' = insert (nat k) (marked (al_map a))" "bm.free bm' = bm.free (al_map a) - 1"
    using find_sector[OF _ assms(2)] assms(1) by (auto simp: al_inv_def)
  moreover have "nat k \<notin> M" "k \<notin> set (hs @ ds)" using *(3) assms(1) by (auto simp: al_inv_def)
  ultimately show ?thesis using that by blast
qed

text \<open>A round that puts a data sector into the current header.\<close>

lemma alloc_step_put:
  assumes "ready s" "al_inv sec0 (sec s) this0 M a hs ds" "0 < bm.free (al_map a)"
    "length ds < NumDirect * Suc (length hs)" "length ds = 0 \<or> length ds mod NumDirect \<noteq> 0"
  obtains a' d where "\<forall>is. alloc_loop dev junk (int (length ds) # is) a s = alloc_loop dev junk is a' s"
    "al_inv sec0 (sec s) this0 M a' hs (ds @ [d])"
proof -
  obtain bm' d where d: "BitMap_Find (al_map a) = Ok (bm', d)" "sector_ok d" "nat d \<notin> M" "d \<notin> set (hs @ ds)"
    "map_ok bm'" "marked bm' = insert (nat d) (marked (al_map a))"
    using al_find[OF assms(2,3)] by blast
  let ?a = "al_put (\<lambda>h. h\<lparr>dataSectors := (dataSectors (al_get a))[length ds mod NumDirect := word_of_int d]\<rparr>)
    (a\<lparr>al_map := bm'\<rparr>)"
  have "al_chain (sec s) (a\<lparr>al_map := bm'\<rparr>) hs ds" and shape: "hdr_shape (al_this a)" and "distinct hs"
    using assms(2) by (simp_all add: al_inv_def)
  then have "al_chain (sec s) ?a hs (ds @ [d])"
    using al_chain_put[of "sec s" "a\<lparr>al_map := bm'\<rparr>" hs ds "word_of_int d"] assms(4) d(2)
    by (simp add: sint_sector)
  moreover have "hdr_shape (al_this ?a)" "numBytes (al_this ?a) = numBytes (al_this a)"
    "numSectors (al_this ?a) = numSectors (al_this a)" "al_map ?a = bm'"
    using shape by (auto simp: al_put_def al_get_def hdr_shape_def split: option.splits)
  ultimately have inv: "al_inv sec0 (sec s) this0 M ?a hs (ds @ [d])"
    using assms(2) d by (auto simp: al_inv_def)
  have "length (dataSectors (al_get a)) = NumDirect"
    using assms(2) by (auto simp: al_inv_def al_chain_def al_get_def hdr_shape_def split: if_splits)
  moreover have idx: "int (length ds) mod int NumDirect = int (length ds mod NumDirect)"
    by (simp add: zmod_int)
  ultimately have "aset (dataSectors (al_get a)) (int (length ds) mod int NumDirect) (word_of_int d) =
      Ok ((dataSectors (al_get a))[length ds mod NumDirect := word_of_int d])"
    unfolding idx by (simp add: NumDirect_def)
  moreover have "alloc_chain dev junk (int (length ds)) a s = Ok (a, s)"
    using assms(5) unfolding alloc_chain_def idx by auto
  ultimately have "alloc_loop dev junk (int (length ds) # is) a s = alloc_loop dev junk is ?a s" for "is"
    using d(1) by simp
  then show ?thesis using inv that by blast
qed

text \<open>A round that starts a new header.\<close>

lemma alloc_step_grow:
  assumes "ready s" "al_inv sec0 (sec s) this0 M a hs ds" "1 < bm.free (al_map a)"
    "length ds = NumDirect * Suc (length hs)" "\<And>i. hdr_shape (junk i)"
  obtains a' s' k d where "\<forall>is. alloc_loop dev junk (int (length ds) # is) a s = alloc_loop dev junk is a' s'"
    "ready s'" "al_inv sec0 (sec s') this0 M a' (hs @ [k]) (ds @ [d])"
proof -
  let ?i = "int (length ds)"
  obtain bm1 k where k: "BitMap_Find (al_map a) = Ok (bm1, k)" "sector_ok k" "nat k \<notin> M" "k \<notin> set (hs @ ds)"
    "map_ok bm1" "marked bm1 = insert (nat k) (marked (al_map a))" "bm.free bm1 = bm.free (al_map a) - 1"
    using al_find[OF assms(2)] assms(3) by (metis gr_implies_not0 less_one nat_neq_iff)
  have "0 < bm.free bm1" using k(7) assms(3) by simp
  then obtain bm2 d where d: "BitMap_Find bm1 = Ok (bm2, d)" "sector_ok d" "nat d \<notin> marked bm1"
    "map_ok bm2" "marked bm2 = insert (nat d) (marked bm1)"
    using find_sector[OF k(5)] by metis
  have d_fresh: "nat d \<notin> M" "d \<notin> set (hs @ ds)" "d \<noteq> k"
    using d(3) k(6) assms(2) by (auto simp: al_inv_def)
  let ?put = "al_put (\<lambda>h. h\<lparr>nextFdrSector := word_of_int k\<rparr>) a"
  let ?a2 = "?put\<lparr>al_map := bm1, al_sector := Some k, al_hdr := Some (junk ?i)\<rparr>"
  let ?next = "hdr_to_bytes ((al_get a)\<lparr>nextFdrSector := word_of_int k\<rparr>)"
  have ac: "al_chain (sec s) a hs ds" "hdr_shape (al_this a)" "distinct hs" "\<forall>j\<in>set hs. sector_ok j"
    using assms(2) by (auto simp: al_inv_def)
  have i: "?i \<noteq> 0" "?i mod int NumDirect = 0" "?i = int NumDirect \<longleftrightarrow> hs = []"
    using assms(4) by (auto simp: NumDirect_def)
  obtain s1 where s1: "alloc_chain dev junk ?i a s = Ok (?a2, s1)" "ready s1"
    "\<And>j. sector_ok j \<Longrightarrow> sec s1 j = (if hs \<noteq> [] \<and> j = last hs then ?next else sec s j)"
  proof (cases "hs = []")
    case True
    then show ?thesis
      using that[of s] k(1) i assms(1) by (simp add: alloc_chain_def)
  next
    case False
    then have "al_sector a = Some (last hs)" "hdr_shape (al_get a)" "sector_ok (last hs)"
      using ac by (auto simp: al_chain_def al_get_def)
    then obtain s1 where "al_WriteBack dev (?put\<lparr>al_map := bm1\<rparr>) s = Ok s1" "ready s1"
      "\<And>j. sector_ok j \<Longrightarrow> sec s1 j = (if j = last hs then ?next else sec s j)"
      using WriteBack_ok[OF assms(1), of "last hs" "(al_get a)\<lparr>nextFdrSector := word_of_int k\<rparr>"]
      by (auto simp: al_WriteBack_def hdr_shape_def)
    then show ?thesis
      using that[of s1] k(1) i False by (simp add: alloc_chain_def)
  qed
  let ?g = "(junk ?i)\<lparr>dataSectors := (dataSectors (junk ?i))[0 := word_of_int d]\<rparr>"
  let ?a3 = "?put\<lparr>al_sector := Some k, al_map := bm2, al_hdr := Some ?g\<rparr>"
  have g: "hdr_shape ?g" "sint (dataSectors ?g ! 0) = d"
    using assms(5)[of ?i] d(2) by (auto simp: hdr_shape_def NumDirect_def sint_sector)
  have "sec s1 j = (if j = last hs then ?next else sec s j)" if "j \<in> set hs" for j
    using s1(3)[of j] ac(4) that by auto
  from al_chain_grow[OF ac(1,3,2) assms(4) k(2) _ g(1) this] k(4) g(2)
  have "al_chain (sec s1) (?put\<lparr>al_sector := Some k, al_hdr := Some ?g\<rparr>) (hs @ [k]) (ds @ [d])" by simp
  then have "al_chain (sec s1) ?a3 (hs @ [k]) (ds @ [d])" by (simp add: al_chain_def)
  moreover have "hdr_shape (al_this ?a3)" "numBytes (al_this ?a3) = numBytes (al_this a)"
    "numSectors (al_this ?a3) = numSectors (al_this a)"
    using ac(2) by (auto simp: al_put_def hdr_shape_def split: option.splits)
  moreover have "sec s1 j = sec0 j" if "sector_ok j" "j \<notin> set (hs @ [k])" for j
    using that s1(3)[of j] assms(2) by (auto simp: al_inv_def)
  ultimately have inv: "al_inv sec0 (sec s1) this0 M ?a3 (hs @ [k]) (ds @ [d])"
    using assms(2) k d d_fresh by (auto simp: al_inv_def)
  have "aset (dataSectors (junk ?i)) 0 (word_of_int d) = Ok (dataSectors ?g)"
    using assms(5)[of ?i] by (simp add: hdr_shape_def NumDirect_def)
  then have "alloc_loop dev junk (?i # is) a s = alloc_loop dev junk is ?a3 s1" for "is"
    using s1(1) d(1) i by (simp add: al_get_def al_put_def)
  then show ?thesis using that[of ?a3 s1 k d] s1(2) inv by blast
qed

lemma alloc_loop_spec:
  assumes "ready s" "al_inv sec0 (sec s) this0 M a hs ds" "length ds \<le> n" "\<And>i. hdr_shape (junk i)"
    "M \<subseteq> {..<nat NumSectors}" "n + (n - 1) div NumDirect \<le> nat NumSectors - card M"
  shows "\<exists>a' s' hs' ds'. alloc_loop dev junk (map int [length ds..<n]) a s = Ok (a', s') \<and> ready s' \<and>
    al_inv sec0 (sec s') this0 M a' hs' ds' \<and> length ds' = n"
  using assms(1-3)
proof (induction "n - length ds" arbitrary: a s hs ds)
  case 0
  then show ?case by fastforce
next
  case (Suc m)
  let ?L = "length ds" and ?H = "length hs"
  have L: "?L < n" "[?L..<n] = ?L # [Suc ?L..<n]" using Suc.hyps(2) by (auto simp: upt_conv_Cons)
  note len = al_inv_lengths[OF Suc.prems(2)]
  note free = al_inv_free[OF Suc.prems(2) assms(5)]
  have IH: "\<exists>a' s' hs' ds'. alloc_loop dev junk (map int [length ds1..<n]) a1 s1 = Ok (a', s') \<and> ready s' \<and>
      al_inv sec0 (sec s') this0 M a' hs' ds' \<and> length ds' = n"
    if "ready s1" "al_inv sec0 (sec s1) this0 M a1 hs1 ds1" "length ds1 = Suc ?L" for a1 s1 hs1 ds1
    using Suc.hyps(1)[of ds1 s1 a1 hs1] that Suc.hyps(2) L(1) by simp
  show ?case
  proof (cases "?L \<noteq> 0 \<and> ?L mod NumDirect = 0")
    case True
    have full: "?L = NumDirect * Suc ?H"
    proof (cases "hs = []")
      case True
      have "26 dvd ?L" "0 < ?L" using \<open>?L \<noteq> 0 \<and> ?L mod NumDirect = 0\<close> by (auto simp: NumDirect_def)
      then have "26 \<le> ?L" by (rule dvd_imp_le)
      with len True show ?thesis by (simp add: NumDirect_def)
    next
      case False
      with len True show ?thesis by (auto simp: NumDirect_def elim!: dvdE simp flip: dvd_eq_mod_eq_0)
    qed
    then have "Suc ?H \<le> (n - 1) div NumDirect"
      using L(1) by (simp add: less_eq_div_iff_mult_less_eq NumDirect_def)
    then have two: "1 < bm.free (al_map a)" using free assms(6) L(1) by linarith
    obtain a1 s1 k d where
      "\<forall>is. alloc_loop dev junk (int ?L # is) a s = alloc_loop dev junk is a1 s1"
      "ready s1" "al_inv sec0 (sec s1) this0 M a1 (hs @ [k]) (ds @ [d])"
      by (rule alloc_step_grow[where junk = junk, OF Suc.prems(1,2) two full assms(4)])
    with IH[of s1 a1 "hs @ [k]" "ds @ [d]"] L(2) show ?thesis by simp
  next
    case False
    then have room: "?L < NumDirect * Suc ?H" using len(1) by (auto simp: le_less NumDirect_def)
    have "?H \<le> (n - 1) div NumDirect"
      using len(2) L(1) by (cases "hs = []") (auto simp: less_eq_div_iff_mult_less_eq NumDirect_def)
    then have one: "0 < bm.free (al_map a)" using free assms(6) L(1) by linarith
    have "?L = 0 \<or> ?L mod NumDirect \<noteq> 0" using False by simp
    then obtain a1 d where
      "\<forall>is. alloc_loop dev junk (int ?L # is) a s = alloc_loop dev junk is a1 s"
      "al_inv sec0 (sec s) this0 M a1 hs (ds @ [d])"
      by (rule alloc_step_put[OF Suc.prems(1,2) one room])
    with IH[of s a1 hs "ds @ [d]"] L(2) Suc.prems(1) show ?thesis by simp
  qed
qed

text \<open>The last header is finished and, if it is not the object itself, written.\<close>

lemma alloc_finish:
  assumes "ready s" "al_inv sec0 (sec s) this0 M a hs ds" "length ds = n" "n \<noteq> NumDirect"
  defines "a' \<equiv> al_put (\<lambda>h. h\<lparr>nextFdrSector := -1\<rparr>) a"
  obtains s' where "(if int n \<ge> int NumDirect then al_WriteBack dev a' s else Ok s) = Ok s'" "ready s'"
    "chain (sec s') (al_this a') hs ds" "\<And>j. sector_ok j \<Longrightarrow> j \<notin> set hs \<Longrightarrow> sec s' j = sec s j"
proof (cases "hs = []")
  case True
  with al_inv_lengths[OF assms(2)] assms(3,4) have "\<not> int n \<ge> int NumDirect" by simp
  moreover have "chain (sec s) (al_this a') [] ds"
    using True assms(2) by (auto simp: al_inv_def al_chain_def a'_def al_put_def)
  ultimately show ?thesis using that[of s] assms(1) True by simp
next
  case False
  have "NumDirect < n"
    using al_inv_lengths(2)[OF assms(2) False] assms(3) False
    by (cases hs) (auto simp: NumDirect_def)
  obtain h where h: "al_hdr a = Some h" "hdr_shape h" "al_sector a = Some (last hs)"
    "chain ((sec s)(last hs := hdr_to_bytes h)) (al_this a) hs ds" "distinct hs" "\<forall>j\<in>set hs. sector_ok j"
    using assms(2) False by (auto simp: al_inv_def al_chain_def)
  let ?g = "h\<lparr>nextFdrSector := -1\<rparr>"
  have ok: "sector_ok (last hs)" "hdr_shape ?g" using h(2,6) False by (simp_all add: hdr_shape_def)
  then obtain s' where s': "FileHeader_WriteBack dev ?g (last hs) s = Ok s'" "ready s'"
    "\<And>j. sector_ok j \<Longrightarrow> sec s' j = (if j = last hs then hdr_to_bytes ?g else sec s j)"
    using WriteBack_ok[OF assms(1) ok] by blast
  have "chain ((sec s)(last hs := hdr_to_bytes h, last hs := hdr_to_bytes ?g)) (al_this a) hs ds"
    using chain_last_next[OF h(4,5) False ok(2)] h(2) False by (simp add: last_hdr_def)
  also have "?this \<longleftrightarrow> chain (sec s') (al_this a) hs ds"
    using h(6) s'(3) by (intro chain_cong) simp
  finally have "chain (sec s') (al_this a') hs ds" using h(1) by (simp add: a'_def al_put_def)
  moreover have "al_WriteBack dev a' s = Ok s'"
    using s'(1) h(1,3) al_get_def[of a] by (simp add: al_WriteBack_def a'_def)
  moreover have "sec s' j = sec s j" if "sector_ok j" "j \<notin> set hs" for j
    using s'(3)[OF that(1)] that(2) last_in_set[OF False] by auto
  ultimately show ?thesis
    using that[of s'] s'(2) \<open>NumDirect < n\<close> by simp
qed

lemma Allocate_spec:
  assumes "ready s" "map_ok bm" "hdr_shape this" "\<And>i. hdr_shape (junk i)"
    and sz: "0 \<le> fileSize" "fileSize < 2 ^ 31" "n = nat (divRoundUp fileSize SectorSize)" "n \<noteq> NumDirect"
    and room: "n + (n - 1) div NumDirect \<le> bm.free bm"
  shows "\<exists>hdr bm' s' hs ds. FileHeader_Allocate dev now junk this bm fileSize s = Ok (True, hdr, bm', s') \<and>
    ready s' \<and> hdr_shape hdr \<and> FileHeader_FileLength hdr = fileSize \<and> sint (numSectors hdr) = int n \<and>
    chain (sec s') hdr hs ds \<and> length ds = n \<and> distinct (hs @ ds) \<and>
    (\<forall>k\<in>set (hs @ ds). sector_ok k \<and> nat k \<notin> marked bm) \<and> map_ok bm' \<and>
    marked bm' = marked bm \<union> nat ` set (hs @ ds) \<and>
    (\<forall>j. sector_ok j \<longrightarrow> j \<notin> set hs \<longrightarrow> sec s' j = sec s j)"
proof -
  have n: "divRoundUp fileSize SectorSize = int n"
    using sz divRoundUp_nonneg_ge0[OF sz(1), of SectorSize] by (simp add: SectorSize_def)
  have "n \<le> nat NumSectors" using room by (simp add: bm.free_def) (use assms(2) in \<open>simp add: map_ok_def\<close>)
  then have n31: "int n < 2 ^ 31" by (simp add: disk_defs)
  let ?hd = "this\<lparr>numBytes := word_of_int fileSize, numSectors := word_of_int (int n)\<rparr>"
  let ?a0 = "\<lparr>al_this = ?hd, al_hdr = None, al_sector = None, al_map = bm\<rparr>"
  have free: "BitMap_NumClear bm = Ok (int (bm.free bm))"
    using assms(2) by (simp add: BitMap_NumClear_spec map_ok_def bm.free_def)
  have inv0: "al_inv (sec s) (sec s) ?hd (marked bm) ?a0 [] []"
    using assms(2,3) by (simp add: al_inv_def al_chain_def hdr_shape_def)
  have "marked bm \<subseteq> {..<nat NumSectors}" "bm.free bm = nat NumSectors - card (marked bm)"
    using marked_bound[of bm] assms(2) by (simp_all add: map_ok_def bm.free_def)
  with alloc_loop_spec[OF assms(1) inv0, of n junk] assms(4) room obtain a s1 hs ds where
    a: "alloc_loop dev junk (map int [0..<n]) ?a0 s = Ok (a, s1)" "ready s1"
    "al_inv (sec s) (sec s1) ?hd (marked bm) a hs ds" "length ds = n"
    by auto
  let ?a = "al_put (\<lambda>h. h\<lparr>nextFdrSector := -1\<rparr>) a"
  let ?hdr = "(al_this ?a)\<lparr>createTime := now, lastWriteTime := now\<rparr>"
  obtain s2 where s2: "(if int n \<ge> int NumDirect then al_WriteBack dev ?a s1 else Ok s1) = Ok s2" "ready s2"
    "chain (sec s2) (al_this ?a) hs ds" "\<And>j. sector_ok j \<Longrightarrow> j \<notin> set hs \<Longrightarrow> sec s2 j = sec s1 j"
    using alloc_finish[OF a(2,3,4) sz(4)] by metis
  have "FileHeader_Allocate dev now junk this bm fileSize s = Ok (True, ?hdr, al_map a, s2)"
    using a(1) s2(1) free room n
    by (simp add: FileHeader_Allocate_def Let_def)
  moreover have "chain (sec s2) ?hdr hs ds"
    using s2(3) chain_cong_hdr[of ?hdr "al_this ?a" "sec s2" hs ds] by simp
  moreover have "hdr_shape ?hdr" "numBytes ?hdr = word_of_int fileSize" "numSectors ?hdr = word_of_int (int n)"
    using a(3) by (auto simp: al_inv_def al_put_def hdr_shape_def split: option.splits)
  moreover have "\<forall>j. sector_ok j \<longrightarrow> j \<notin> set hs \<longrightarrow> sec s2 j = sec s j"
    using s2(4) a(3) by (auto simp: al_inv_def)
  moreover have "FileHeader_FileLength ?hdr = fileSize" "sint (numSectors ?hdr) = int n"
    using calculation(4,5) sz(1,2) n31 sint_of_range[of fileSize] sint_of_range[of "int n"]
    by (simp_all add: FileHeader_FileLength_def)
  moreover have "distinct (hs @ ds)" "\<forall>k\<in>set (hs @ ds). sector_ok k \<and> nat k \<notin> marked bm"
    "map_ok (al_map a)" "marked (al_map a) = marked bm \<union> nat ` set (hs @ ds)"
    using a(3) by (simp_all add: al_inv_def)
  ultimately show ?thesis
    using a(4) s2(2)
    by (intro exI[of _ ?hdr] exI[of _ "al_map a"] exI[of _ s2] exI[of _ hs] exI[of _ ds] conjI) assumption+
qed

text \<open>With exactly \<open>NumDirect\<close> sectors there is no chained header, but the end of \<open>Allocate\<close> writes
  one, to the sector that was never chosen.\<close>

lemma Allocate_NumDirect:
  assumes "ready s" "map_ok bm" "hdr_shape this" "\<And>i. hdr_shape (junk i)"
    and sz: "0 \<le> fileSize" "nat (divRoundUp fileSize SectorSize) = NumDirect" and room: "NumDirect \<le> bm.free bm"
  shows "FileHeader_Allocate dev now junk this bm fileSize s = Err Uninitialised"
proof -
  have n: "divRoundUp fileSize SectorSize = int NumDirect"
    using sz divRoundUp_nonneg_ge0[OF sz(1), of SectorSize] by (simp add: SectorSize_def)
  let ?hd = "this\<lparr>numBytes := word_of_int fileSize, numSectors := word_of_int (int NumDirect)\<rparr>"
  let ?a0 = "\<lparr>al_this = ?hd, al_hdr = None, al_sector = None, al_map = bm\<rparr>"
  have free: "BitMap_NumClear bm = Ok (int (bm.free bm))"
    using assms(2) by (simp add: BitMap_NumClear_spec map_ok_def bm.free_def)
  have inv0: "al_inv (sec s) (sec s) ?hd (marked bm) ?a0 [] []"
    using assms(2,3) by (simp add: al_inv_def al_chain_def hdr_shape_def)
  have "marked bm \<subseteq> {..<nat NumSectors}" "bm.free bm = nat NumSectors - card (marked bm)"
    using marked_bound[of bm] assms(2) by (simp_all add: map_ok_def bm.free_def)
  with alloc_loop_spec[OF assms(1) inv0, of NumDirect junk] assms(4) room obtain a s1 hs ds where
    a: "alloc_loop dev junk (map int [0..<NumDirect]) ?a0 s = Ok (a, s1)"
    "al_inv (sec s) (sec s1) ?hd (marked bm) a hs ds" "length ds = NumDirect"
    by (auto simp: NumDirect_def)
  have "hs = []" using al_inv_lengths(2)[OF a(2)] a(3) by (cases hs) (auto simp: NumDirect_def)
  then have "al_sector a = None" using a(2) by (simp add: al_inv_def al_chain_def)
  then show ?thesis using a(1) free room n
    by (simp add: FileHeader_Allocate_def Let_def al_WriteBack_def)
qed

end

end
