(* ===== verification/Open_File.thy ===== *)
theory Open_File
  imports File_Header
begin

text \<open>
  Open files: src/filesys/openfile.h and openfile.cc. A file is read and written at any byte
  position through sectors that are read and written whole. Positions and counts are C ints:
  an addition that leaves their range is a fault, and a negative position reaches before the
  buffer.
\<close>

subsection \<open>Operations\<close>

record OpenFile =
  of_hdr :: FileHeader
  of_seekPosition :: int
  of_hdrSector :: int

definition OpenFile_new :: "'s sector_dev \<Rightarrow> int \<Rightarrow> 's \<Rightarrow> (OpenFile \<times> 's) result" where
  "OpenFile_new dev sector s =
     rbind (FileHeader_FetchFrom dev sector s) (\<lambda>(h, s).
     Ok (\<lparr>of_hdr = h, of_seekPosition = 0, of_hdrSector = sector\<rparr>, s))"

definition OpenFile_Seek :: "int \<Rightarrow> OpenFile \<Rightarrow> OpenFile" where
  "OpenFile_Seek position f = f\<lparr>of_seekPosition := position\<rparr>"

definition OpenFile_Length :: "OpenFile \<Rightarrow> int" where
  "OpenFile_Length f = FileHeader_FileLength (of_hdr f)"

definition c_add :: "int \<Rightarrow> int \<Rightarrow> int result" where
  "c_add a b = (if - INT_MAX - 1 \<le> a + b \<and> a + b \<le> INT_MAX then Ok (a + b) else Err SignedOverflow)"

text \<open>The sectors \<open>is\<close> of the file go one after the other into the buffer.\<close>

fun read_loop :: "'s sector_dev \<Rightarrow> FileHeader \<Rightarrow> int list \<Rightarrow> byte list \<Rightarrow> 's \<Rightarrow> (byte list \<times> 's) result" where
  "read_loop dev h [] buf s = Ok (buf, s)"
| "read_loop dev h (i # is) buf s =
     rbind (FileHeader_ByteToSector dev h (i * SectorSize) s) (\<lambda>(sector, s).
     rbind (dev_read dev sector s) (\<lambda>(data, s).
     read_loop dev h is (buf @ data) s))"

fun write_loop :: "'s sector_dev \<Rightarrow> FileHeader \<Rightarrow> int \<Rightarrow> int list \<Rightarrow> byte list \<Rightarrow> 's \<Rightarrow> 's result" where
  "write_loop dev h firstSector [] buf s = Ok s"
| "write_loop dev h firstSector (i # is) buf s =
     rbind (FileHeader_ByteToSector dev h (i * SectorSize) s) (\<lambda>(sector, s).
     rbind (mem_read (nat SectorSize) ((i - firstSector) * SectorSize) buf) (\<lambda>data.
     rbind (dev_write dev sector data s) (\<lambda>s.
     write_loop dev h firstSector is buf s)))"

text \<open>\<open>ReadAt\<close> returns the number of bytes and the bytes it puts into \<open>into\<close>.\<close>

definition OpenFile_ReadAt :: "'s sector_dev \<Rightarrow> OpenFile \<Rightarrow> int \<Rightarrow> int \<Rightarrow> 's \<Rightarrow>
    (int \<times> byte list \<times> 's) result" where
  "OpenFile_ReadAt dev f nbytes position s =
     (let fileLength = FileHeader_FileLength (of_hdr f) in
      if nbytes \<le> 0 \<or> position \<ge> fileLength then Ok (0, [], s)
      else
        rbind (c_add position nbytes) (\<lambda>end_pos.
        let nbytes = (if end_pos > fileLength then fileLength - position else nbytes);
            firstSector = divRoundDown position SectorSize;
            lastSector = divRoundDown (position + nbytes - 1) SectorSize
        in rbind (read_loop dev (of_hdr f) [firstSector..lastSector] [] s) (\<lambda>(buf, s).
           rbind (mem_read (nat nbytes) (position - firstSector * SectorSize) buf) (\<lambda>data.
           Ok (nbytes, data, s)))))"

text \<open>\<open>junk\<close> is the content of the memory that \<^verbatim>\<open>new char[]\<close> returns for the buffer.\<close>

definition OpenFile_WriteAt :: "'s sector_dev \<Rightarrow> (nat \<Rightarrow> byte) \<Rightarrow> OpenFile \<Rightarrow> byte list \<Rightarrow> int \<Rightarrow> int \<Rightarrow> 's \<Rightarrow>
    (int \<times> 's) result" where
  "OpenFile_WriteAt dev junk f from nbytes position s =
     (let fileLength = FileHeader_FileLength (of_hdr f) in
      if nbytes \<le> 0 \<or> position \<ge> fileLength then Ok (0, s)
      else
        rbind (c_add position nbytes) (\<lambda>end_pos.
        let nbytes = (if end_pos > fileLength then fileLength - position else nbytes);
            firstSector = divRoundDown position SectorSize;
            lastSector = divRoundDown (position + nbytes - 1) SectorSize;
            buf = map junk [0..<nat ((1 + lastSector - firstSector) * SectorSize)];
            firstAligned = (position = firstSector * SectorSize);
            lastAligned = (position + nbytes = (lastSector + 1) * SectorSize)
        in rbind (if \<not> firstAligned
                  then rbind (OpenFile_ReadAt dev f SectorSize (firstSector * SectorSize) s)
                         (\<lambda>(n, data, s). rbind (mem_write data 0 buf) (\<lambda>buf. Ok (buf, s)))
                  else Ok (buf, s)) (\<lambda>(buf, s).
           rbind (if \<not> lastAligned \<and> (firstSector \<noteq> lastSector \<or> firstAligned)
                  then rbind (OpenFile_ReadAt dev f SectorSize (lastSector * SectorSize) s)
                         (\<lambda>(n, data, s).
                            rbind (mem_write data ((lastSector - firstSector) * SectorSize) buf) (\<lambda>buf.
                            Ok (buf, s)))
                  else Ok (buf, s)) (\<lambda>(buf, s).
           rbind (mem_read (nat nbytes) 0 from) (\<lambda>data.
           rbind (mem_write data (position - firstSector * SectorSize) buf) (\<lambda>buf.
           rbind (write_loop dev (of_hdr f) firstSector [firstSector..lastSector] buf s) (\<lambda>s.
           Ok (nbytes, s))))))))"

definition OpenFile_Read :: "'s sector_dev \<Rightarrow> u32 \<Rightarrow> OpenFile \<Rightarrow> int \<Rightarrow> 's \<Rightarrow>
    (int \<times> byte list \<times> OpenFile \<times> 's) result" where
  "OpenFile_Read dev currentTime f nbytes s =
     rbind (OpenFile_ReadAt dev f nbytes (of_seekPosition f) s) (\<lambda>(n, data, s).
     rbind (c_add (of_seekPosition f) n) (\<lambda>pos.
     let f = f\<lparr>of_seekPosition := pos, of_hdr := (of_hdr f)\<lparr>lastAccessTime := currentTime\<rparr>\<rparr>
     in rbind (FileHeader_WriteBack dev (of_hdr f) (of_hdrSector f) s) (\<lambda>s. Ok (n, data, f, s))))"

definition OpenFile_Write :: "'s sector_dev \<Rightarrow> (nat \<Rightarrow> byte) \<Rightarrow> u32 \<Rightarrow> OpenFile \<Rightarrow> byte list \<Rightarrow> int \<Rightarrow> 's \<Rightarrow>
    (int \<times> OpenFile \<times> 's) result" where
  "OpenFile_Write dev junk currentTime f into nbytes s =
     rbind (OpenFile_WriteAt dev junk f into nbytes (of_seekPosition f) s) (\<lambda>(n, s).
     rbind (c_add (of_seekPosition f) n) (\<lambda>pos.
     let f = f\<lparr>of_seekPosition := pos,
               of_hdr := (of_hdr f)\<lparr>lastAccessTime := currentTime, lastWriteTime := currentTime\<rparr>\<rparr>
     in rbind (FileHeader_WriteBack dev (of_hdr f) (of_hdrSector f) s) (\<lambda>s. Ok (n, f, s))))"

subsection \<open>Sequences of sectors\<close>

lemma upto_range: "[int a..int b - 1] = map int [a..<b]"
proof (induction b)
  case (Suc b)
  show ?case
  proof (cases "a \<le> b")
    case True
    then have "[int a..int (Suc b) - 1] = [int a..int b - 1] @ [int b]" by (simp add: upto_rec2)
    with Suc True show ?thesis by simp
  qed simp
qed simp

lemma mem_read_nat: "x + n \<le> length bs \<Longrightarrow> mem_read n (int x) bs = Ok (take n (drop x bs))"
  by (simp add: mem_read_def)

lemma mem_write_nat: "x + length new \<le> length bs \<Longrightarrow> mem_write new (int x) bs = Ok (overwrite x new bs)"
  by (simp add: mem_write_def)

text \<open>The sectors that hold \<open>n\<close> bytes from \<open>position\<close> on.\<close>

lemma sector_range:
  assumes "0 \<le> position" "0 < n" "position + n \<le> 128 * int m"
  defines "a \<equiv> nat position div 128" and "b \<equiv> Suc (nat (position + n - 1) div 128)"
  shows "divRoundDown position SectorSize = int a"
    "divRoundDown (position + n - 1) SectorSize = int b - 1" "a < b" "b \<le> m"
    "128 * a \<le> nat position" "nat position + nat n \<le> 128 * b"
    "nat position < 128 * a + 128" "128 * (b - 1) < nat position + nat n"
proof -
  show "divRoundDown position SectorSize = int a" "divRoundDown (position + n - 1) SectorSize = int b - 1"
    using assms(1,2) by (simp_all add: a_def b_def SectorSize_def zdiv_int)
  have "nat (position + n - 1) < 128 * m" using assms(1-3) by linarith
  then show "b \<le> m" by (simp add: b_def Suc_le_eq less_mult_imp_div_less)
  have "nat position \<le> nat (position + n - 1)" using assms(1,2) by simp
  then show "a < b" by (simp add: a_def b_def less_Suc_eq_le div_le_mono)
  show "128 * a \<le> nat position" "nat position < 128 * a + 128" by (simp_all add: a_def)
  have "nat (position + n - 1) < 128 * b" "128 * (b - 1) \<le> nat (position + n - 1)" by (simp_all add: b_def)
  then show "nat position + nat n \<le> 128 * b" "128 * (b - 1) < nat position + nat n"
    using assms(1,2) by linarith+
qed

lemma sector_offsets:
  assumes "a < b" "128 * a \<le> p"
  shows "(int p = int a * SectorSize) = (p = 128 * a)"
    "(int p + int m = (int (b - 1) + 1) * SectorSize) = (p + m = 128 * b)"
    "(int a = int (b - 1)) = (a = b - 1)" "int p - int a * SectorSize = int (p - 128 * a)"
    "(int (b - 1) - int a) * SectorSize = int (128 * (b - 1 - a))" "int b - 1 = int (b - 1)"
    "(1 + int (b - 1) - int a) * SectorSize = int (128 * (b - a))"
  using assms by (simp_all add: SectorSize_def algebra_simps of_nat_diff) linarith+

lemma rbind_pair_OkE:
  assumes "rbind m (\<lambda>(x, y). f x y) = Ok z"
  obtains x y where "m = Ok (x, y)" "f x y = Ok z"
  using assms by (auto simp: rbind_eq_Ok)

lemma length_concat_chunks:
  "\<forall>xs\<in>set xss. length xs = n \<Longrightarrow> length (concat xss) = n * length xss"
  by (induction xss) auto

lemma drop_concat_chunks:
  "\<forall>xs\<in>set xss. length xs = n \<Longrightarrow> drop (n * a) (concat xss) = concat (drop a xss)"
proof (induction xss arbitrary: a)
  case (Cons xs xss)
  then show ?case by (cases a) simp_all
qed simp

lemma take_concat_chunks:
  "\<forall>xs\<in>set xss. length xs = n \<Longrightarrow> take (n * a) (concat xss) = concat (take a xss)"
proof (induction xss arbitrary: a)
  case (Cons xs xss)
  then show ?case by (cases a) simp_all
qed simp

lemma concat_update_chunk:
  assumes "\<forall>xs\<in>set xss. length xs = n" "length new = n" "i < length xss"
  shows "concat (xss[i := new]) = overwrite (n * i) new (concat xss)"
  using assms
proof (induction xss arbitrary: i)
  case (Cons xs xss)
  show ?case
  proof (cases i)
    case 0
    with Cons.prems show ?thesis by (simp add: overwrite_def)
  next
    case (Suc j)
    with Cons have "concat (xss[j := new]) = overwrite (n * j) new (concat xss)" by simp
    with Suc Cons.prems show ?thesis by (simp add: overwrite_def add.assoc)
  qed
qed simp

subsection \<open>A file as an array of bytes\<close>

text \<open>
  The abstract view of a file: the first \<open>FileLength\<close> bytes of its data sectors, one after the
  other.
\<close>

definition file_ok :: "(int \<Rightarrow> byte list) \<Rightarrow> FileHeader \<Rightarrow> int list \<Rightarrow> int list \<Rightarrow> bool" where
  "file_ok sec h hs ds \<longleftrightarrow> hdr_shape h \<and> chain sec h hs ds \<and> distinct (hs @ ds) \<and>
     (\<forall>k\<in>set (hs @ ds). sector_ok k) \<and> 0 \<le> FileHeader_FileLength h \<and>
     FileHeader_FileLength h \<le> SectorSize * int (length ds)"

definition raw_bytes :: "(int \<Rightarrow> byte list) \<Rightarrow> int list \<Rightarrow> byte list" where
  "raw_bytes sec ds = concat (map sec ds)"

definition file_bytes :: "(int \<Rightarrow> byte list) \<Rightarrow> FileHeader \<Rightarrow> int list \<Rightarrow> byte list" where
  "file_bytes sec h ds = take (nat (FileHeader_FileLength h)) (raw_bytes sec ds)"

lemma FileLength_bound: "FileHeader_FileLength h \<le> INT_MAX"
  using sint_lt[of "numBytes h"] by (simp add: FileHeader_FileLength_def INT_MAX_def)

lemma file_ok_length:
  assumes "file_ok sec h hs ds"
  shows "length ds \<le> 1024"
proof -
  have "\<forall>k\<in>set ds. 0 \<le> k \<and> k < 1024" "distinct ds"
    using assms by (auto simp: file_ok_def sector_ok_def disk_defs)
  then have "set ds \<subseteq> {0..<1024}" by auto
  from card_mono[OF _ this] have "card (set ds) \<le> 1024" by simp
  with \<open>distinct ds\<close> show ?thesis by (simp add: distinct_card)
qed

lemma file_ok_cong:
  "file_ok sec h hs ds \<Longrightarrow> (\<And>k. k \<in> set hs \<Longrightarrow> sec' k = sec k) \<Longrightarrow> file_ok sec' h hs ds"
  using chain_cong[of hs sec sec' h ds] by (auto simp: file_ok_def)

text \<open>The time stamps of a header and the other sectors of the disk do not matter to a file.\<close>

lemma file_same:
  assumes "dataSectors h' = dataSectors h" "nextFdrSector h' = nextFdrSector h" "numBytes h' = numBytes h"
    "\<And>k. k \<in> set (hs @ ds) \<Longrightarrow> sec' k = sec k"
  shows "file_ok sec' h' hs ds = file_ok sec h hs ds" "file_bytes sec' h' ds = file_bytes sec h ds"
proof -
  have "chain sec' h' hs ds = chain sec h hs ds"
    using assms(4) by (subst chain_cong_hdr[OF assms(1,2)]) (intro chain_cong, simp)
  then show "file_ok sec' h' hs ds = file_ok sec h hs ds"
    using assms(1,3) by (simp add: file_ok_def hdr_shape_def FileHeader_FileLength_def)
  have "map sec' ds = map sec ds" using assms(4) by simp
  then show "file_bytes sec' h' ds = file_bytes sec h ds"
    using assms(3) by (simp only: file_bytes_def raw_bytes_def FileHeader_FileLength_def)
qed

lemma raw_nth:
  assumes "\<forall>k\<in>set ds. length (sec k) = 128" "i < length ds" "r < 128"
  shows "raw_bytes sec ds ! (128 * i + r) = sec (ds ! i) ! r"
  using assms
proof (induction ds arbitrary: i)
  case (Cons d ds)
  then show ?case by (cases i) (simp_all add: raw_bytes_def nth_append)
qed simp

context block_store
begin

lemma chunks: "ready s \<Longrightarrow> \<forall>k\<in>set ds. sector_ok k \<Longrightarrow> \<forall>xs\<in>set (map (sec s) ds). length xs = 128"
  using sec_length by (auto simp: SectorSize_def)

lemma length_raw: "ready s \<Longrightarrow> \<forall>k\<in>set ds. sector_ok k \<Longrightarrow> length (raw_bytes (sec s) ds) = 128 * length ds"
  using length_concat_chunks[OF chunks] by (simp add: raw_bytes_def)

lemma length_file_bytes:
  "ready s \<Longrightarrow> file_ok (sec s) h hs ds \<Longrightarrow> length (file_bytes (sec s) h ds) = nat (FileHeader_FileLength h)"
  using length_raw[of s ds] by (auto simp: file_bytes_def file_ok_def SectorSize_def)

lemma ByteToSector_ok:
  assumes "ready s" "file_ok (sec s) h hs ds" "i < length ds"
  obtains s' where "FileHeader_ByteToSector dev h (int i * SectorSize) s = Ok (ds ! i, s')"
    "ready s'" "sec s' = sec s"
proof -
  have "int i * SectorSize < 2 ^ 32" using file_ok_length[OF assms(2)] assms(3) by (simp add: SectorSize_def)
  then have "int i * SectorSize mod 2 ^ 32 = int i * SectorSize"
    by (intro mod_pos_pos_trivial) (simp_all add: SectorSize_def)
  then have off: "nat (int i * SectorSize mod 2 ^ 32) = i * nat SectorSize"
    by (simp add: SectorSize_def nat_mult_distrib)
  have "i * nat SectorSize < length ds * nat SectorSize" using assms(3) by (simp add: SectorSize_def)
  from byte_to_sector_chain[OF assms(1) _ this, of h hs] assms(2)
  obtain w s' where "byte_to_sector dev h (i * nat SectorSize) s = Ok (w, s')" "sint w = ds ! i"
    "ready s'" "sec s' = sec s"
    by (auto simp: file_ok_def SectorSize_def)
  then show ?thesis using that[of s'] unfolding FileHeader_ByteToSector_def off by simp
qed

lemma read_loop_spec:
  assumes "ready s" "file_ok (sec s) h hs ds" "b \<le> length ds"
  shows "\<exists>s'. read_loop dev h (map int [a..<b]) buf s =
      Ok (buf @ concat (map (sec s) (take (b - a) (drop a ds))), s') \<and> ready s' \<and> sec s' = sec s"
  using assms
proof (induction "b - a" arbitrary: a buf s)
  case 0
  then show ?case by fastforce
next
  case (Suc m)
  then have a: "a < b" "a < length ds" by simp_all
  have upt: "[a..<b] = a # [Suc a..<b]" using a(1) by (rule upt_conv_Cons)
  obtain s1 where s1: "FileHeader_ByteToSector dev h (int a * SectorSize) s = Ok (ds ! a, s1)"
    "ready s1" "sec s1 = sec s" by (rule ByteToSector_ok[OF Suc.prems(1,2) a(2)])
  have "sector_ok (ds ! a)" using Suc.prems(2) a(2) by (simp add: file_ok_def)
  from rd_ok[OF s1(2) this] s1(3) obtain s2 where
    s2: "rd (ds ! a) s1 = Ok (sec s (ds ! a), s2)" "ready s2" "sec s2 = sec s" by auto
  have "\<exists>s'. read_loop dev h (map int [Suc a..<b]) (buf @ sec s (ds ! a)) s2 =
      Ok ((buf @ sec s (ds ! a)) @ concat (map (sec s2) (take (b - Suc a) (drop (Suc a) ds))), s') \<and>
      ready s' \<and> sec s' = sec s2"
    using Suc.hyps(1)[of "Suc a" s2 "buf @ sec s (ds ! a)"] Suc.hyps(2) Suc.prems s2 by simp
  moreover have "take (b - a) (drop a ds) = ds ! a # take (b - Suc a) (drop (Suc a) ds)"
    using a by (simp add: Cons_nth_drop_Suc[symmetric] Suc_diff_Suc take_Cons')
  ultimately show ?case using s1(1) s2 upt by simp
qed

lemma slice_chunks:
  assumes "ready s" "\<forall>k\<in>set ds. sector_ok k" "b \<le> length ds" "a \<le> b"
  shows "concat (map (sec s) (take (b - a) (drop a ds))) =
    take (128 * (b - a)) (drop (128 * a) (raw_bytes (sec s) ds))"
proof -
  have "\<forall>xs\<in>set (drop a (map (sec s) ds)). length xs = 128"
    using chunks[OF assms(1,2)] by (meson in_set_dropD)
  then show ?thesis
    using drop_concat_chunks[OF chunks[OF assms(1,2)], of a]
      take_concat_chunks[of "map (sec s) (drop a ds)" 128 "b - a"]
    by (simp add: raw_bytes_def take_map drop_map)
qed

lemma ReadAt_spec:
  assumes "ready s" "file_ok (sec s) (of_hdr f) hs ds" "0 \<le> position" "position + nbytes \<le> INT_MAX"
  shows "\<exists>s'. OpenFile_ReadAt dev f nbytes position s =
      Ok (int (length (take (nat nbytes) (drop (nat position) (file_bytes (sec s) (of_hdr f) ds)))),
          take (nat nbytes) (drop (nat position) (file_bytes (sec s) (of_hdr f) ds)), s') \<and>
    ready s' \<and> sec s' = sec s"
proof -
  let ?h = "of_hdr f" and ?len = "FileHeader_FileLength (of_hdr f)"
  let ?B = "file_bytes (sec s) ?h ds"
  have lenB: "length ?B = nat ?len" by (rule length_file_bytes[OF assms(1,2)])
  have ok: "\<forall>k\<in>set ds. sector_ok k" "0 \<le> ?len" "?len \<le> 128 * int (length ds)"
    using assms(2) by (auto simp: file_ok_def SectorSize_def)
  show ?thesis
  proof (cases "nbytes \<le> 0 \<or> position \<ge> ?len")
    case True
    then have e: "take (nat nbytes) (drop (nat position) ?B) = []" using lenB by auto
    show ?thesis unfolding e using True assms(1) by (simp add: OpenFile_ReadAt_def Let_def)
  next
    case False
    define n where "n = (if position + nbytes > ?len then ?len - position else nbytes)"
    have n: "0 < n" "position + n \<le> ?len" "n \<le> nbytes" "n = nbytes \<or> position + n = ?len"
      using False by (auto simp: n_def)
    define a where "a = nat position div 128"
    define b where "b = Suc (nat (position + n - 1) div 128)"
    have "position + n \<le> 128 * int (length ds)" using n(2) ok(3) by linarith
    note ab = sector_range[OF assms(3) n(1) this, folded a_def b_def]
    obtain s' where s': "read_loop dev ?h (map int [a..<b]) [] s =
        Ok (concat (map (sec s) (take (b - a) (drop a ds))), s')" "ready s'" "sec s' = sec s"
      using read_loop_spec[OF assms(1,2) ab(4), of a "[]"] by auto
    let ?buf = "take (128 * (b - a)) (drop (128 * a) (raw_bytes (sec s) ds))"
    have buf: "concat (map (sec s) (take (b - a) (drop a ds))) = ?buf"
      using slice_chunks[OF assms(1) ok(1) ab(4)] ab(3) by simp
    have lenR: "length (raw_bytes (sec s) ds) = 128 * length ds" by (rule length_raw[OF assms(1) ok(1)])
    have len_buf: "length ?buf = 128 * (b - a)" using lenR ab(3,4) by simp
    have rel: "position - int a * SectorSize = int (nat position - 128 * a)"
      using assms(3) ab(5) by (simp add: SectorSize_def)
    have fits: "nat position - 128 * a + nat n \<le> 128 * (b - a)" using ab(3,5,6) by (simp add: diff_mult_distrib2)
    have "mem_read (nat n) (position - int a * SectorSize) ?buf =
        Ok (take (nat n) (drop (nat position - 128 * a) ?buf))"
      using fits len_buf unfolding rel by (intro mem_read_nat) simp
    also have "take (nat n) (drop (nat position - 128 * a) ?buf) =
        take (nat n) (drop (nat position) (raw_bytes (sec s) ds))"
    proof -
      have "min (nat n) (128 * (b - a) - (nat position - 128 * a)) = nat n" using fits by simp
      then show ?thesis using ab(5) by (simp only: drop_take take_take drop_drop) simp
    qed
    also have "\<dots> = take (nat nbytes) (drop (nat position) ?B)"
    proof -
      have "nat n \<le> nat nbytes" "nat n \<le> nat ?len - nat position"
        "nat n = nat nbytes \<or> nat n = nat ?len - nat position"
        using n assms(3) by linarith+
      then have "min (nat nbytes) (nat ?len - nat position) = nat n" by auto
      then show ?thesis by (simp only: file_bytes_def drop_take take_take)
    qed
    finally have read: "mem_read (nat n) (position - int a * SectorSize) ?buf =
        Ok (take (nat nbytes) (drop (nat position) ?B))" .
    have "length (take (nat nbytes) (drop (nat position) ?B)) = nat n"
      using n assms(3) lenB by auto
    moreover have "c_add position nbytes = Ok (position + nbytes)"
      using assms(3,4) False by (simp add: c_add_def INT_MAX_def)
    ultimately show ?thesis
      using False s' read ab(1,2) n(1) unfolding OpenFile_ReadAt_def Let_def
      by (simp add: upto_range buf flip: n_def)
  qed
qed

lemma write_loop_spec:
  assumes "ready s" "file_ok (sec s) h hs ds" "b \<le> length ds" "a0 \<le> a" "length buf = 128 * (b - a0)"
  shows "\<exists>s'. write_loop dev h (int a0) (map int [a..<b]) buf s = Ok s' \<and> ready s' \<and>
    (\<forall>j. sector_ok j \<longrightarrow> j \<notin> set ds \<longrightarrow> sec s' j = sec s j) \<and>
    (\<forall>i<length ds. sec s' (ds ! i) =
       (if a \<le> i \<and> i < b then take 128 (drop (128 * (i - a0)) buf) else sec s (ds ! i)))"
  using assms
proof (induction "b - a" arbitrary: a s)
  case 0
  then show ?case by force
next
  case (Suc m)
  then have a: "a < b" "a < length ds" by simp_all
  have upt: "[a..<b] = a # [Suc a..<b]" using a(1) by (rule upt_conv_Cons)
  obtain s1 where s1: "FileHeader_ByteToSector dev h (int a * SectorSize) s = Ok (ds ! a, s1)"
    "ready s1" "sec s1 = sec s" by (rule ByteToSector_ok[OF Suc.prems(1,2) a(2)])
  let ?data = "take 128 (drop (128 * (a - a0)) buf)"
  have "(int a - int a0) * SectorSize = int (128 * (a - a0))"
    using Suc.prems(4) by (simp add: SectorSize_def of_nat_diff)
  moreover have "128 * (a - a0) + 128 \<le> length buf" using a(1) Suc.prems(4,5) by simp
  ultimately have data: "mem_read (nat SectorSize) ((int a - int a0) * SectorSize) buf = Ok ?data"
    "length ?data = nat SectorSize"
    using mem_read_nat[of "128 * (a - a0)" 128 buf] by (simp_all add: SectorSize_def)
  have ds: "sector_ok (ds ! a)" "distinct ds" "\<forall>k\<in>set ds. sector_ok k" "set hs \<inter> set ds = {}"
    using Suc.prems(2) a(2) by (auto simp: file_ok_def)
  obtain s2 where s2: "wr (ds ! a) ?data s1 = Ok s2" "ready s2"
    "\<And>j. sector_ok j \<Longrightarrow> sec s2 j = (if j = ds ! a then ?data else sec s j)"
    using wr_ok[OF s1(2) ds(1) data(2)] s1(3) by auto
  have f2: "file_ok (sec s2) h hs ds"
  proof (rule file_ok_cong[OF Suc.prems(2)])
    fix k assume k: "k \<in> set hs"
    then have "sector_ok k" "k \<noteq> ds ! a" using Suc.prems(2) ds(4) a(2) by (auto simp: file_ok_def)
    then show "sec s2 k = sec s k" using s2(3) by simp
  qed
  have "m = b - Suc a" "a0 \<le> Suc a" using Suc.hyps(2) Suc.prems(4) by simp_all
  from Suc.hyps(1)[OF this(1) s2(2) f2 Suc.prems(3) this(2) Suc.prems(5)]
  obtain s' where s': "write_loop dev h (int a0) (map int [Suc a..<b]) buf s2 = Ok s'" "ready s'"
    "\<forall>j. sector_ok j \<longrightarrow> j \<notin> set ds \<longrightarrow> sec s' j = sec s2 j"
    "\<forall>i<length ds. sec s' (ds ! i) =
       (if Suc a \<le> i \<and> i < b then take 128 (drop (128 * (i - a0)) buf) else sec s2 (ds ! i))"
    by blast
  have "write_loop dev h (int a0) (map int [a..<b]) buf s = Ok s'"
    using s1(1) data(1) s2(1) s'(1) upt by simp
  moreover have "sec s' j = sec s j" if "sector_ok j" "j \<notin> set ds" for j
    using that s'(3) s2(3)[of j] a(2) by auto
  moreover have "sec s' (ds ! i) =
      (if a \<le> i \<and> i < b then take 128 (drop (128 * (i - a0)) buf) else sec s (ds ! i))" if i: "i < length ds" for i
  proof (cases "i = a")
    case True
    then show ?thesis using s'(4) a s2(3)[OF ds(1)] by simp
  next
    case False
    then have "ds ! i \<noteq> ds ! a" using ds(2) i a(2) by (simp add: nth_eq_iff_index_eq)
    moreover have "sector_ok (ds ! i)" using ds(3) i by simp
    ultimately show ?thesis using False s'(4) s2(3) i by auto
  qed
  ultimately show ?case using s'(2) by blast
qed

text \<open>The partial sectors at both ends are read into the buffer before the data.\<close>

lemma partial_reads:
  assumes "ready s" "file_ok (sec s) (of_hdr f) hs ds" and n: "0 < n" "pos + n \<le> length (file_bytes (sec s) (of_hdr f) ds)"
    and ab: "a < b" "b \<le> length ds" "128 * a \<le> pos" "pos < 128 * a + 128" "128 * (b - 1) < pos + n" "pos + n \<le> 128 * b"
    and buf: "length buf = 128 * (b - a)"
  shows "\<exists>buf' s'. rbind (if pos \<noteq> 128 * a
        then rbind (OpenFile_ReadAt dev f SectorSize (int a * SectorSize) s)
               (\<lambda>(n, data, s). rbind (mem_write data 0 buf) (\<lambda>buf. Ok (buf, s)))
        else Ok (buf, s)) (\<lambda>(buf, s).
      if pos + n \<noteq> 128 * b \<and> (a \<noteq> b - 1 \<or> pos = 128 * a)
        then rbind (OpenFile_ReadAt dev f SectorSize (int (b - 1) * SectorSize) s)
               (\<lambda>(n, data, s). rbind (mem_write data (int (128 * (b - 1 - a))) buf) (\<lambda>buf. Ok (buf, s)))
        else Ok (buf, s)) = Ok (buf', s') \<and> ready s' \<and> sec s' = sec s \<and> length buf' = 128 * (b - a) \<and>
    (\<forall>j. 128 * a \<le> j \<and> j < 128 * b \<and> j < length (file_bytes (sec s) (of_hdr f) ds) \<and> (j < pos \<or> pos + n \<le> j) \<longrightarrow>
       buf' ! (j - 128 * a) = file_bytes (sec s) (of_hdr f) ds ! j)"
proof -
  let ?B = "file_bytes (sec s) (of_hdr f) ds"
  have small: "128 * b \<le> 131072" using ab(2) file_ok_length[OF assms(2)] by simp
  have read: "\<exists>s'. OpenFile_ReadAt dev f SectorSize (int c * SectorSize) t =
      Ok (int (length (take 128 (drop (128 * c) ?B))), take 128 (drop (128 * c) ?B), s') \<and> ready s' \<and> sec s' = sec s"
    if "c < b" "ready t" "sec t = sec s" for c t
  proof -
    have "int c * SectorSize + SectorSize \<le> INT_MAX" "nat (int c * SectorSize) = 128 * c"
      using that(1) small by (simp_all add: SectorSize_def INT_MAX_def nat_mult_distrib)
    with ReadAt_spec[OF that(2), of f hs ds "int c * SectorSize" SectorSize] assms(2) that(3)
    show ?thesis by (simp add: SectorSize_def)
  qed
  define d1 where "d1 = take 128 (drop (128 * a) ?B)"
  define d2 where "d2 = take 128 (drop (128 * (b - 1)) ?B)"
  define buf1 where "buf1 = (if pos \<noteq> 128 * a then overwrite 0 d1 buf else buf)"
  define buf2 where "buf2 = (if pos + n \<noteq> 128 * b \<and> (a \<noteq> b - 1 \<or> pos = 128 * a)
    then overwrite (128 * (b - 1 - a)) d2 buf1 else buf1)"
  have ba: "128 * (b - 1 - a) + 128 = 128 * (b - a)" "128 \<le> 128 * (b - a)" using ab(1) by (simp_all add: algebra_simps)
  have len: "length d1 \<le> 128" "length d2 \<le> 128" by (simp_all add: d1_def d2_def)
  have len1: "length buf1 = 128 * (b - a)" using buf len ba by (simp add: buf1_def)
  have len2: "length buf2 = 128 * (b - a)" using len1 len ba by (simp add: buf2_def)
  obtain s1 where s1: "(if pos \<noteq> 128 * a
        then rbind (OpenFile_ReadAt dev f SectorSize (int a * SectorSize) s)
               (\<lambda>(n, data, s). rbind (mem_write data 0 buf) (\<lambda>buf. Ok (buf, s)))
        else Ok (buf, s)) = Ok (buf1, s1)" "ready s1" "sec s1 = sec s"
  proof (cases "pos = 128 * a")
    case True
    then show ?thesis using that[of s] assms(1) by (simp add: buf1_def)
  next
    case False
    obtain s' where "OpenFile_ReadAt dev f SectorSize (int a * SectorSize) s = Ok (int (length d1), d1, s')"
      "ready s'" "sec s' = sec s" using read[OF ab(1) assms(1) refl, folded d1_def] by blast
    moreover have "mem_write d1 0 buf = Ok (overwrite 0 d1 buf)"
      using mem_write_nat[of 0 d1 buf] len(1) ba(2) buf by simp
    ultimately show ?thesis using that[of s'] False by (simp add: buf1_def)
  qed
  obtain s2 where s2: "(if pos + n \<noteq> 128 * b \<and> (a \<noteq> b - 1 \<or> pos = 128 * a)
        then rbind (OpenFile_ReadAt dev f SectorSize (int (b - 1) * SectorSize) s1)
               (\<lambda>(n, data, s). rbind (mem_write data (int (128 * (b - 1 - a))) buf1) (\<lambda>buf. Ok (buf, s)))
        else Ok (buf1, s1)) = Ok (buf2, s2)" "ready s2" "sec s2 = sec s"
  proof (cases "pos + n \<noteq> 128 * b \<and> (a \<noteq> b - 1 \<or> pos = 128 * a)")
    case False
    show ?thesis
      by (rule that[of s1]) (simp_all only: buf2_def if_not_P[OF False] s1(2,3))
  next
    case True
    have "b - 1 < b" using ab(1) by simp
    then obtain s' where "OpenFile_ReadAt dev f SectorSize (int (b - 1) * SectorSize) s1 = Ok (int (length d2), d2, s')"
      "ready s'" "sec s' = sec s" using read[OF _ s1(2,3), of "b - 1", folded d2_def] by blast
    moreover have "mem_write d2 (int (128 * (b - 1 - a))) buf1 = Ok (overwrite (128 * (b - 1 - a)) d2 buf1)"
      using len(2) ba len1 by (intro mem_write_nat) simp
    ultimately show ?thesis
      by (intro that[of s']) (simp_all only: buf2_def if_P[OF True] rbind.simps prod.case)
  qed
  have "buf2 ! (j - 128 * a) = ?B ! j"
    if j: "128 * a \<le> j" "j < 128 * b" "j < length ?B" "j < pos \<or> pos + n \<le> j" for j
  proof -
    have i: "j - 128 * a < 128 * (b - a)" using j(1,2) by (simp add: algebra_simps)
    have first: "buf1 ! (j - 128 * a) = ?B ! j" if "j < 128 * a + 128" "pos \<noteq> 128 * a"
    proof -
      have "j - 128 * a < length d1" using j(1,3) that(1) by (auto simp: d1_def)
      then show ?thesis
        using that(2) i len(1) ba(2) buf j(1,3) by (simp add: buf1_def nth_overwrite) (simp add: d1_def)
    qed
    have last: "overwrite (128 * (b - 1 - a)) d2 buf1 ! (j - 128 * a) = ?B ! j" if "128 * (b - 1) \<le> j"
    proof -
      have eq: "j - 128 * a - 128 * (b - 1 - a) = j - 128 * (b - 1)" "128 * (b - 1 - a) \<le> j - 128 * a"
        using that ab(1) by (simp_all add: algebra_simps)
      have l: "j - 128 * (b - 1) < length d2" using j(2,3) that ab(1) by (auto simp: d2_def)
      then have "j - 128 * a < 128 * (b - 1 - a) + length d2" using eq by linarith
      moreover have "d2 ! (j - 128 * (b - 1)) = ?B ! j" using l that j(3) by (simp add: d2_def)
      ultimately show ?thesis using eq ba(1) len(2) len1 i by (subst nth_overwrite) simp_all
    qed
    have other: "overwrite (128 * (b - 1 - a)) d2 buf1 ! (j - 128 * a) = buf1 ! (j - 128 * a)" if "j < 128 * (b - 1)"
    proof -
      have "j - 128 * a < 128 * (b - 1 - a)" using that j(1) ab(1) by (simp add: diff_mult_distrib2)
      then show ?thesis using i len(2) ba(1) len1 by (subst nth_overwrite) simp_all
    qed
    consider (low) "j < 128 * a + 128" "pos \<noteq> 128 * a" "128 * (b - 1) \<le> j \<or> j < 128 * (b - 1)"
      | (high) "128 * (b - 1) \<le> j" "pos + n \<noteq> 128 * b" using j ab by linarith
    then show ?thesis
    proof cases
      case low
      from low(3) have "overwrite (128 * (b - 1 - a)) d2 buf1 ! (j - 128 * a) = ?B ! j"
        by (elim disjE) (simp_all only: last other first[OF low(1,2)])
      with first[OF low(1,2)] show ?thesis unfolding buf2_def by (simp split: if_split)
    next
      case high
      have "buf1 ! (j - 128 * a) = ?B ! j" if "a = b - 1" "pos \<noteq> 128 * a"
        using that(1) j(2) ab(1) by (intro first that(2)) simp
      with last[OF high(1)] high(2) show ?thesis unfolding buf2_def by (simp split: if_split)
    qed
  qed
  with s1 s2 len2 show ?thesis by (intro exI[of _ buf2] exI[of _ s2]) simp
qed

lemma bytes_after_write:
  assumes "ready s" "ready s'" "file_ok (sec s) h hs ds" "b \<le> length ds" "length buf = 128 * (b - a)"
    and sec': "\<forall>i<length ds. sec s' (ds ! i) =
       (if a \<le> i \<and> i < b then take 128 (drop (128 * (i - a)) buf) else sec s (ds ! i))"
    and j: "j < nat (FileHeader_FileLength h)"
  shows "file_bytes (sec s') h ds ! j =
    (if 128 * a \<le> j \<and> j < 128 * b then buf ! (j - 128 * a) else file_bytes (sec s) h ds ! j)"
proof -
  have ok: "\<forall>k\<in>set ds. sector_ok k" "FileHeader_FileLength h \<le> 128 * int (length ds)"
    using assms(3) by (auto simp: file_ok_def SectorSize_def)
  have len: "\<forall>k\<in>set ds. length (sec t k) = 128" if "ready t" for t
    using chunks[OF that ok(1)] by simp
  define i r where "i = j div 128" and "r = j mod 128"
  have jir: "j = 128 * i + r" "r < 128" by (simp_all add: i_def r_def)
  have i: "i < length ds" using j ok(2) jir by linarith
  have raw: "file_bytes (sec t) h ds ! j = sec t (ds ! i) ! r" if "ready t" for t
    using raw_nth[of ds "sec t", OF len[OF that] i jir(2)] j jir(1) by (simp add: file_bytes_def)
  have "sec s' (ds ! i) ! r = buf ! (j - 128 * a)" if "a \<le> i" "i < b"
  proof -
    have "128 * (i - a) + r = j - 128 * a" using that(1) jir(1) by simp
    moreover have "128 * (i - a) + 128 \<le> length buf" using that assms(5) by simp
    ultimately show ?thesis using that sec' i jir(2) by simp
  qed
  moreover have "(128 * a \<le> j \<and> j < 128 * b) = (a \<le> i \<and> i < b)" using jir by (auto simp: i_def)
  ultimately show ?thesis using sec' i by (simp add: raw[OF assms(1)] raw[OF assms(2)])
qed

lemma WriteAt_spec:
  assumes "ready s" "file_ok (sec s) (of_hdr f) hs ds" "0 \<le> position" "position + nbytes \<le> INT_MAX"
    "nat nbytes \<le> length from"
  defines "data \<equiv> take (nat (FileHeader_FileLength (of_hdr f)) - nat position) (take (nat nbytes) from)"
  shows "\<exists>s'. OpenFile_WriteAt dev junk f from nbytes position s = Ok (int (length data), s') \<and>
    ready s' \<and> file_ok (sec s') (of_hdr f) hs ds \<and>
    file_bytes (sec s') (of_hdr f) ds = overwrite (nat position) data (file_bytes (sec s) (of_hdr f) ds) \<and>
    (\<forall>j. sector_ok j \<longrightarrow> j \<notin> set ds \<longrightarrow> sec s' j = sec s j)"
proof -
  let ?h = "of_hdr f" and ?len = "FileHeader_FileLength (of_hdr f)"
  let ?B = "file_bytes (sec s) ?h ds"
  have lenB: "length ?B = nat ?len" by (rule length_file_bytes[OF assms(1,2)])
  have ok: "\<forall>k\<in>set ds. sector_ok k" "0 \<le> ?len" "?len \<le> 128 * int (length ds)"
    using assms(2) by (auto simp: file_ok_def SectorSize_def)
  show ?thesis
  proof (cases "nbytes \<le> 0 \<or> position \<ge> ?len")
    case True
    then have e: "data = []" by (auto simp: data_def)
    show ?thesis unfolding e using True assms(1,2)
      by (intro exI[of _ s]) (simp add: OpenFile_WriteAt_def Let_def overwrite_def)
  next
    case False
    define n where "n = (if position + nbytes > ?len then ?len - position else nbytes)"
    have n: "0 < n" "position + n \<le> ?len" "n \<le> nbytes" "n = nbytes \<or> position + n = ?len"
      using False by (auto simp: n_def)
    define p where "p = nat position"
    define m where "m = nat n"
    define a where "a = p div 128"
    define b where "b = Suc (nat (position + n - 1) div 128)"
    have "position + n \<le> 128 * int (length ds)" using n(2) ok(3) by linarith
    note ab = sector_range[OF assms(3) n(1) this, folded p_def m_def, folded a_def b_def]
    have pm: "position = int p" "n = int m" "0 < m" "p + m \<le> length ?B"
      using assms(3) n lenB by (simp_all add: p_def m_def)
    have data: "mem_read m 0 from = Ok data" "length data = m"
    proof -
      have "m \<le> nat nbytes" "m = nat nbytes \<or> m = nat ?len - p" "m \<le> nat ?len - p"
        using n assms(3) unfolding m_def p_def by linarith+
      then have "data = take m from" "m \<le> length from"
        using assms(5) by (auto simp: data_def p_def min_def)
      then show "mem_read m 0 from = Ok data" "length data = m" using mem_read_nat[of 0 m "from"] by simp_all
    qed
    define buf where "buf = map junk [0..<128 * (b - a)]"
    have buf: "length buf = 128 * (b - a)" by (simp add: buf_def)
    obtain buf2 s2 where s2: "rbind (if p \<noteq> 128 * a
        then rbind (OpenFile_ReadAt dev f SectorSize (int a * SectorSize) s)
               (\<lambda>(n, data, s). rbind (mem_write data 0 buf) (\<lambda>buf. Ok (buf, s)))
        else Ok (buf, s)) (\<lambda>(buf, s).
      if p + m \<noteq> 128 * b \<and> (a \<noteq> b - 1 \<or> p = 128 * a)
        then rbind (OpenFile_ReadAt dev f SectorSize (int (b - 1) * SectorSize) s)
               (\<lambda>(n, data, s). rbind (mem_write data (int (128 * (b - 1 - a))) buf) (\<lambda>buf. Ok (buf, s)))
        else Ok (buf, s)) = Ok (buf2, s2)" "ready s2" "sec s2 = sec s" "length buf2 = 128 * (b - a)"
      "\<forall>j. 128 * a \<le> j \<and> j < 128 * b \<and> j < length ?B \<and> (j < p \<or> p + m \<le> j) \<longrightarrow> buf2 ! (j - 128 * a) = ?B ! j"
      using partial_reads[OF assms(1,2) pm(3,4) ab(3,4,5,7,8,6) buf] by blast
    define buf3 where "buf3 = overwrite (p - 128 * a) data buf2"
    have fits: "p - 128 * a + m \<le> 128 * (b - a)" using ab(3,5,6) by (simp add: diff_mult_distrib2)
    then have wr: "mem_write data (int (p - 128 * a)) buf2 = Ok buf3" "length buf3 = 128 * (b - a)"
      using data(2) s2(4) unfolding buf3_def by (simp_all add: mem_write_nat)
    obtain s' where s': "write_loop dev ?h (int a) (map int [a..<b]) buf3 s2 = Ok s'" "ready s'"
      "\<forall>j. sector_ok j \<longrightarrow> j \<notin> set ds \<longrightarrow> sec s' j = sec s j"
      "\<forall>i<length ds. sec s' (ds ! i) =
         (if a \<le> i \<and> i < b then take 128 (drop (128 * (i - a)) buf3) else sec s (ds ! i))"
      using write_loop_spec[OF s2(2) _ ab(4) _ wr(2), of ?h hs a] assms(2) s2(3) by auto
    have f': "file_ok (sec s') ?h hs ds"
    proof (rule file_ok_cong[OF assms(2)])
      fix k assume "k \<in> set hs"
      then have "sector_ok k" "k \<notin> set ds" using assms(2) by (auto simp: file_ok_def)
      then show "sec s' k = sec s k" using s'(3) by blast
    qed
    have "file_bytes (sec s') ?h ds = overwrite p data ?B"
    proof (rule nth_equalityI)
      show "length (file_bytes (sec s') ?h ds) = length (overwrite p data ?B)"
        using pm(4) data(2) lenB length_file_bytes[OF s'(2) f'] by simp
      fix j assume "j < length (file_bytes (sec s') ?h ds)"
      then have j: "j < nat ?len" using length_file_bytes[OF s'(2) f'] by simp
      have "buf3 ! (j - 128 * a) = overwrite p data ?B ! j" if i: "128 * a \<le> j" "j < 128 * b"
      proof -
        have jb: "j - 128 * a < length buf2" "p - 128 * a + length data \<le> length buf2"
          using i fits s2(4) data(2) by (simp_all add: diff_mult_distrib2)
        have eq: "(p - 128 * a \<le> j - 128 * a \<and> j - 128 * a < p - 128 * a + length data) = (p \<le> j \<and> j < p + m)"
          "j - 128 * a - (p - 128 * a) = j - p" using i(1) ab(5) data(2) by auto
        have "overwrite p data ?B ! j = (if p \<le> j \<and> j < p + m then data ! (j - p) else ?B ! j)"
          using j lenB data(2) pm(4) by (simp add: nth_overwrite)
        moreover have "buf2 ! (j - 128 * a) = ?B ! j" if "\<not> (p \<le> j \<and> j < p + m)"
          using that s2(5) i j lenB by auto
        ultimately show ?thesis unfolding buf3_def nth_overwrite[OF jb(2,1)] eq by simp
      qed
      moreover have "overwrite p data ?B ! j = ?B ! j" if "\<not> (128 * a \<le> j \<and> j < 128 * b)"
        using that ab(5,6) j lenB data(2) pm(4) by (auto simp: nth_overwrite)
      ultimately show "file_bytes (sec s') ?h ds ! j = overwrite p data ?B ! j"
        using bytes_after_write[OF assms(1) s'(2) assms(2) ab(4) wr(2) s'(4) j] by (simp split: if_splits)
    qed
    moreover have "OpenFile_WriteAt dev junk f from nbytes position s = Ok (int (length data), s')"
    proof -
      have c: "c_add position nbytes = Ok (position + nbytes)"
        using assms(3,4) False by (simp add: c_add_def INT_MAX_def)
      obtain buf1 s1 where s1: "(if p \<noteq> 128 * a
          then rbind (OpenFile_ReadAt dev f SectorSize (int a * SectorSize) s)
                 (\<lambda>(n, data, s). rbind (mem_write data 0 buf) (\<lambda>buf. Ok (buf, s)))
          else Ok (buf, s)) = Ok (buf1, s1)"
        "(if p + m \<noteq> 128 * b \<and> (a \<noteq> b - 1 \<or> p = 128 * a)
          then rbind (OpenFile_ReadAt dev f SectorSize (int (b - 1) * SectorSize) s1)
                 (\<lambda>(n, data, s). rbind (mem_write data (int (128 * (b - 1 - a))) buf1) (\<lambda>buf. Ok (buf, s)))
          else Ok (buf1, s1)) = Ok (buf2, s2)"
        by (rule rbind_pair_OkE[OF s2(1)])
      have range: "[int a..int (b - 1)] = map int [a..<b]"
        using upto_range[of a b] unfolding sector_offsets(6)[OF ab(3,5)] .
      show ?thesis
        unfolding OpenFile_WriteAt_def Let_def if_not_P[OF False] c rbind.simps n_def[symmetric] ab(1,2)
        by (simp only: pm(1,2) sector_offsets[OF ab(3,5)] nat_int buf_def[symmetric] rbind.simps prod.case
            if_False simp_thms range data wr s'(1) s1)
    qed
    ultimately show ?thesis using s'(2,3) f' p_def by blast
  qed
qed

text \<open>Reading and writing at the seek position, which also date the header and write it back.\<close>

lemma Read_spec:
  fixes now :: u32
  assumes "ready s" "file_ok (sec s) (of_hdr f) hs ds" "0 \<le> of_seekPosition f" "0 \<le> nbytes"
    "of_seekPosition f + nbytes \<le> INT_MAX" "sector_ok (of_hdrSector f)" "of_hdrSector f \<notin> set (hs @ ds)"
  defines "data \<equiv> take (nat nbytes) (drop (nat (of_seekPosition f)) (file_bytes (sec s) (of_hdr f) ds))"
  defines "f' \<equiv> f\<lparr>of_seekPosition := of_seekPosition f + int (length data), of_hdr := (of_hdr f)\<lparr>lastAccessTime := now\<rparr>\<rparr>"
  obtains s' where "OpenFile_Read dev now f nbytes s = Ok (int (length data), data, f', s')" "ready s'"
    "file_ok (sec s') (of_hdr f') hs ds" "file_bytes (sec s') (of_hdr f') ds = file_bytes (sec s) (of_hdr f) ds"
    "\<forall>j. sector_ok j \<longrightarrow> sec s' j = (if j = of_hdrSector f then hdr_to_bytes (of_hdr f') else sec s j)"
proof -
  obtain s1 where s1: "OpenFile_ReadAt dev f nbytes (of_seekPosition f) s = Ok (int (length data), data, s1)"
    "ready s1" "sec s1 = sec s"
    using ReadAt_spec[OF assms(1-3,5)] unfolding data_def by blast
  have shape: "hdr_shape (of_hdr f')" using assms(2) by (simp add: f'_def file_ok_def hdr_shape_def)
  obtain s' where s': "FileHeader_WriteBack dev (of_hdr f') (of_hdrSector f) s1 = Ok s'" "ready s'"
    "\<forall>j. sector_ok j \<longrightarrow> sec s' j = (if j = of_hdrSector f then hdr_to_bytes (of_hdr f') else sec s j)"
    using WriteBack_ok[OF s1(2) assms(6) shape] s1(3) by metis
  have "length data \<le> nat nbytes" by (simp add: data_def)
  then have "of_seekPosition f + int (length data) \<le> INT_MAX" using assms(4,5) by linarith
  then have "c_add (of_seekPosition f) (int (length data)) = Ok (of_seekPosition f + int (length data))"
    using assms(3) by (simp add: c_add_def INT_MAX_def)
  then have "OpenFile_Read dev now f nbytes s = Ok (int (length data), data, f', s')"
    using s1(1) s'(1) by (simp add: OpenFile_Read_def f'_def Let_def)
  moreover have "sec s' k = sec s k" if "k \<in> set (hs @ ds)" for k
    using s'(3) assms(2,7) that by (auto simp: file_ok_def)
  then have "file_ok (sec s') (of_hdr f') hs ds"
    "file_bytes (sec s') (of_hdr f') ds = file_bytes (sec s) (of_hdr f) ds"
    using assms(2) file_same[of "of_hdr f'" "of_hdr f" hs ds "sec s'" "sec s"] by (simp_all add: f'_def)
  ultimately show ?thesis using s'(2,3) that by blast
qed

lemma Write_spec:
  fixes now :: u32
  assumes "ready s" "file_ok (sec s) (of_hdr f) hs ds" "0 \<le> of_seekPosition f" "0 \<le> nbytes"
    "of_seekPosition f + nbytes \<le> INT_MAX" "sector_ok (of_hdrSector f)" "of_hdrSector f \<notin> set (hs @ ds)"
    "nat nbytes \<le> length from"
  defines "data \<equiv> take (nat (FileHeader_FileLength (of_hdr f)) - nat (of_seekPosition f)) (take (nat nbytes) from)"
  defines "f' \<equiv> f\<lparr>of_seekPosition := of_seekPosition f + int (length data),
          of_hdr := (of_hdr f)\<lparr>lastAccessTime := now, lastWriteTime := now\<rparr>\<rparr>"
  obtains s' where "OpenFile_Write dev junk now f from nbytes s = Ok (int (length data), f', s')" "ready s'"
    "file_ok (sec s') (of_hdr f') hs ds"
    "file_bytes (sec s') (of_hdr f') ds = overwrite (nat (of_seekPosition f)) data (file_bytes (sec s) (of_hdr f) ds)"
    "\<forall>j. sector_ok j \<longrightarrow> j \<notin> set ds \<longrightarrow> sec s' j = (if j = of_hdrSector f then hdr_to_bytes (of_hdr f') else sec s j)"
proof -
  obtain s1 where s1: "OpenFile_WriteAt dev junk f from nbytes (of_seekPosition f) s = Ok (int (length data), s1)"
    "ready s1" "file_ok (sec s1) (of_hdr f) hs ds"
    "file_bytes (sec s1) (of_hdr f) ds = overwrite (nat (of_seekPosition f)) data (file_bytes (sec s) (of_hdr f) ds)"
    "\<forall>j. sector_ok j \<longrightarrow> j \<notin> set ds \<longrightarrow> sec s1 j = sec s j"
    using WriteAt_spec[OF assms(1-3,5,8), of junk] unfolding data_def by blast
  have shape: "hdr_shape (of_hdr f')" using assms(2) by (simp add: f'_def file_ok_def hdr_shape_def)
  obtain s' where s': "FileHeader_WriteBack dev (of_hdr f') (of_hdrSector f) s1 = Ok s'" "ready s'"
    "\<forall>j. sector_ok j \<longrightarrow> sec s' j = (if j = of_hdrSector f then hdr_to_bytes (of_hdr f') else sec s1 j)"
    using WriteBack_ok[OF s1(2) assms(6) shape] by metis
  have "length data \<le> nat nbytes" by (simp add: data_def)
  then have "of_seekPosition f + int (length data) \<le> INT_MAX" using assms(4,5) by linarith
  then have "c_add (of_seekPosition f) (int (length data)) = Ok (of_seekPosition f + int (length data))"
    using assms(3) by (simp add: c_add_def INT_MAX_def)
  then have "OpenFile_Write dev junk now f from nbytes s = Ok (int (length data), f', s')"
    using s1(1) s'(1) by (simp add: OpenFile_Write_def f'_def Let_def)
  moreover have "sec s' k = sec s1 k" if "k \<in> set (hs @ ds)" for k
    using s'(3) assms(2,7) that by (auto simp: file_ok_def)
  then have "file_ok (sec s') (of_hdr f') hs ds"
    "file_bytes (sec s') (of_hdr f') ds = overwrite (nat (of_seekPosition f)) data (file_bytes (sec s) (of_hdr f) ds)"
    using s1(3,4) file_same[of "of_hdr f'" "of_hdr f" hs ds "sec s'" "sec s1"] by (simp_all add: f'_def)
  moreover have "\<forall>j. sector_ok j \<longrightarrow> j \<notin> set ds \<longrightarrow>
      sec s' j = (if j = of_hdrSector f then hdr_to_bytes (of_hdr f') else sec s j)"
    using s'(3) s1(5) by simp
  ultimately show ?thesis using s'(2) that by blast
qed

end

end
