(* ===== verification/System_Init.thy ===== *)
theory System_Init
  imports Synch_Disk
begin

text \<open>
  Start-up of the kernel: the command line and the global objects, src/threads/system.cc
  (Initialize), as the builds with user programs and a file system compile it. The file system
  itself is started afterwards. The state after start-up is the concrete state from which the
  disk and the files can be used.
\<close>

subsection \<open>The command line\<close>

record options =
  debugArgs :: string
  randomSeed :: "string option"
  randomYield :: bool
  roundingSlice :: bool
  debugUserProg :: bool
  format :: bool

definition default_options :: options where
  "default_options = \<lparr>debugArgs = '''', randomSeed = None, randomYield = False, roundingSlice = False,
                      debugUserProg = False, format = False\<rparr>"

text \<open>One turn of the loop: the options and the number of arguments it consumes.\<close>

definition parse_arg :: "string \<Rightarrow> string list \<Rightarrow> options \<Rightarrow> (nat \<times> options) result" where
  "parse_arg arg rest opts =
     rbind (if arg = ''-d'' then
              (case rest of
                 [] \<Rightarrow> Ok (1, opts\<lparr>debugArgs := ''+''\<rparr>)
               | flags # _ \<Rightarrow> Ok (2, opts\<lparr>debugArgs := flags\<rparr>))
            else if arg = ''-rs'' then
              (case rest of
                 [] \<Rightarrow> Err AssertFailed
               | seed # _ \<Rightarrow> Ok (2, opts\<lparr>randomSeed := Some seed, randomYield := True\<rparr>))
            else Ok (1, opts)) (\<lambda>(argCount, opts).
     rbind (if arg = ''-rd'' then ASSERT (rest \<noteq> []) (Ok (2, opts\<lparr>roundingSlice := True\<rparr>))
            else Ok (argCount, opts)) (\<lambda>(argCount, opts).
     let opts = (if arg = ''-s'' then opts\<lparr>debugUserProg := True\<rparr> else opts);
         opts = (if arg = ''-f'' then opts\<lparr>format := True\<rparr> else opts)
     in Ok (argCount, opts)))"

function parse_args :: "string list \<Rightarrow> options \<Rightarrow> options result" where
  "parse_args [] opts = Ok opts"
| "parse_args (arg # rest) opts =
     rbind (parse_arg arg rest opts) (\<lambda>(argCount, opts). parse_args (drop (argCount - 1) rest) opts)"
  by pat_completeness auto
termination by (relation "measure (length \<circ> fst)") auto

subsection \<open>The global objects\<close>

text \<open>
  What the memory that \<open>new\<close> returns happens to hold: the saved registers of a thread, the
  fields of the machine and the entries of the TLB that their constructors do not set, and the
  numbers that the random generator delivers once it is seeded.
\<close>

record startup =
  use_tlb :: bool
  regs_junk :: "u32 list"
  machine_junk :: Machine
  tlb_junk :: "TranslationEntry list"
  srandom :: "string \<Rightarrow> nat \<Rightarrow> int"
  disk_image :: "unix_file option"

text \<open>The two timers that the command line can ask for have the addresses 0 and 1.\<close>

definition start_timer :: "bool \<Rightarrow> TimerRoutine \<Rightarrow> bool \<Rightarrow> int \<Rightarrow> 'a kern_scheme \<Rightarrow> 'a kern_scheme result" where
  "start_timer wanted routine random this s =
     (if wanted then timer_new \<lparr>tm_handler = routine, tm_randomize = random\<rparr> this s else Ok s)"

definition reset_globals :: "startup \<Rightarrow> options \<Rightarrow> 'a kern_scheme \<Rightarrow> 'a kern_scheme" where
  "reset_globals st opts s =
     (upd_intr (\<lambda>_. Interrupt_new) (upd_stats (\<lambda>_. Statistics_new) s))
       \<lparr>random_src := (case randomSeed opts of None \<Rightarrow> random_src s | Some seed \<Rightarrow> srandom st seed),
        random_pos := (case randomSeed opts of None \<Rightarrow> random_pos s | Some seed \<Rightarrow> 0),
        readyList := [], lastSwitchTime := 0\<rparr>"

definition Initialize :: "nat \<Rightarrow> startup \<Rightarrow> string list \<Rightarrow> 'a kern_scheme \<Rightarrow> (options \<times> 'a kern_scheme) result" where
  "Initialize n st args s =
     rbind (parse_args args default_options) (\<lambda>opts.
     rbind (start_timer (randomYield opts) TimerInterruptHandler (randomYield opts) 0
              (reset_globals st opts s)) (\<lambda>s.
     rbind (start_timer (roundingSlice opts) RoundingTimerInterruptHandler (randomYield opts) 1 s) (\<lambda>s.
     let s = s\<lparr>threadToBeDestroyed := None,
               ThreadIDOccupied := replicate MaxThreadCount False,
               thread_poiners := replicate MaxThreadCount None\<rparr>
     in rbind (Thread_new (regs_junk st) ''main'' 255 s) (\<lambda>(t, s).
        rbind (thread_upd t (\<lambda>th. th\<lparr>th_status := RUNNING\<rparr>) (s\<lparr>currentThread := t\<rparr>)) (\<lambda>s.
        rbind (Enable (kernel_cb n) s) (\<lambda>s.
        rbind (Machine_new (use_tlb st) (machine_junk st) (tlb_junk st) (debugUserProg opts)) (\<lambda>m.
        rbind (SynchDisk_new (disk_image st) (s\<lparr>machine := Some m\<rparr>)) (\<lambda>s.
        Ok (opts, s)))))))))"

subsection \<open>The state after start-up\<close>

text \<open>A host whose fresh memory is zero and that has no file for the disk yet.\<close>

definition plain_start :: startup where
  "plain_start = \<lparr>use_tlb = False, regs_junk = replicate NumTotalRegs 0,
     machine_junk = \<lparr>mainMemory = [], rt_page_table = replicate (nat NumPhysPages)
         \<lparr>virtualPage = 0, physicalPage = 0, valid = False, readOnly = False, use = False, dirty = False,
          LRU = 0, rt_tid = 0\<rparr>,
       registers = [], memoryBitmap = [], tlb = None, tlbTimes = 0, tlbHits = 0, tlbsize = 0,
       pageTable = NullTable, pageTableSize = 0, singleStep = False, runUntilTime = 0\<rparr>,
     tlb_junk = [], srandom = (\<lambda>_ _. 0), disk_image = None\<rparr>"

definition disk_image_ok :: "unix_file option \<Rightarrow> bool" where
  "disk_image_ok img \<longleftrightarrow> (case img of None \<Rightarrow> True
     | Some f \<Rightarrow> nat DiskSize \<le> f_len f \<and> u32_of_le (map (f_bytes f) [0..<nat MagicSize]) = MagicNumber)"

lemma Disk_new_ok:
  assumes "disk_image_ok img"
  shows "\<exists>d. Disk_new img = Ok d \<and> Disk_ok d \<and> \<not> d_active d"
  using assms
  by (auto simp: Disk_new_def disk_image_ok_def Disk_ok_def file_read_def file_write_def disk_defs sector_ok_def
      split: option.splits)

lemma SynchDisk_new_free:
  assumes "disk_image_ok img"
  shows "\<exists>d s'. SynchDisk_new img s = Ok s' \<and> Disk_new img = Ok d \<and> Disk_ok d \<and> \<not> d_active d \<and>
    disk_free s' \<and> sectors s' = disk_sectors d \<and> intr s' = intr s \<and> stats s' = stats s \<and>
    readyList s' = readyList s \<and> threadToBeDestroyed s' = threadToBeDestroyed s \<and>
    threads s' = threads s \<and> currentThread s' = currentThread s \<and> machine s' = machine s"
proof -
  obtain d where "Disk_new img = Ok d" "Disk_ok d" "\<not> d_active d"
    using Disk_new_ok[OF assms] by blast
  then show ?thesis
    by (auto simp: SynchDisk_new_def Semaphore_new_def Lock_new_def disk_free_def sectors_def Let_def fun_eq_iff)
qed

lemma main_thread:
  assumes "ThreadIDOccupied s = replicate MaxThreadCount False" "thread_poiners s = replicate MaxThreadCount None"
  shows "\<exists>th occ ptrs. Thread_new junk name 255 s = Ok (next_addr s,
      s\<lparr>threads := (threads s)(next_addr s := Some th), ThreadIDOccupied := occ, thread_poiners := ptrs,
        next_addr := Suc (next_addr s)\<rparr>) \<and> (\<forall>sps mo. thread_ready sps mo th)"
proof -
  let ?th = "\<lparr>th_start = None, th_uid = 0, th_tid = 0, th_priority = 255, th_stack = None,
     th_status = JUST_CREATED, th_name = name, th_userRegisters = junk, th_space = None\<rparr>"
  have "\<forall>sps mo. thread_ready sps mo ?th" by (simp add: thread_ready_def)
  moreover have "Thread_new junk name 255 s = Ok (next_addr s,
      s\<lparr>threads := (threads s)(next_addr s := Some ?th), ThreadIDOccupied := (replicate 128 False)[0 := True],
        thread_poiners := (replicate 128 None)[0 := Some (next_addr s)], next_addr := Suc (next_addr s)\<rparr>)"
    using assms by (simp add: Thread_new_def MaxThreadCount_def upto_rec1 Let_def)
  ultimately show ?thesis by blast
qed

lemma rt_init_ok:
  "\<forall>i\<in>set is. 0 \<le> i \<and> i < int (length rt) \<Longrightarrow> \<exists>rt'. rt_init is rt = Ok rt'"
  by (induction "is" arbitrary: rt) (auto simp: aget_def aset_def)

lemma Machine_new_loadable:
  assumes "length (rt_page_table junk) = nat NumPhysPages"
  shows "\<exists>m. Machine_new tlbs junk tj dbg = Ok m \<and> loadable (Some m)"
proof -
  obtain rt where "rt_init [0..NumPhysPages - 1] (rt_page_table junk) = Ok rt"
    using rt_init_ok[of "[0..NumPhysPages - 1]" "rt_page_table junk"] assms by (auto simp: mem_defs)
  then show ?thesis by (auto simp: Machine_new_def Let_def loadable_def NumTotalRegs_def)
qed

lemma Initialize_spec:
  assumes "parse_args args default_options = Ok opts" "\<not> randomYield opts" "\<not> roundingSlice opts"
    and "length (rt_page_table (machine_junk st)) = nat NumPhysPages" "disk_image_ok (disk_image st)"
  shows "\<exists>d s'. Initialize n st args s = Ok (opts, s') \<and> lone s' \<and>
    Disk_new (disk_image st) = Ok d \<and> sectors s' = disk_sectors d"
proof -
  let ?g = "(reset_globals st opts s)\<lparr>threadToBeDestroyed := None,
     ThreadIDOccupied := replicate MaxThreadCount False, thread_poiners := replicate MaxThreadCount None\<rparr>"
  obtain th occ ptrs where th: "Thread_new (regs_junk st) ''main'' 255 ?g = Ok (next_addr s,
      ?g\<lparr>threads := (threads s)(next_addr s := Some th), ThreadIDOccupied := occ, thread_poiners := ptrs,
        next_addr := Suc (next_addr s)\<rparr>)" "\<forall>sps mo. thread_ready sps mo th"
    using main_thread[of ?g "regs_junk st" "''main''"] by (auto simp: reset_globals_def)
  define t where "t = ?g\<lparr>threads := (threads s)(next_addr s := Some (th\<lparr>th_status := RUNNING\<rparr>)),
    ThreadIDOccupied := occ, thread_poiners := ptrs, next_addr := Suc (next_addr s),
    currentThread := next_addr s\<rparr>"
  have upd: "thread_upd (next_addr s) (\<lambda>th. th\<lparr>th_status := RUNNING\<rparr>)
     (?g\<lparr>threads := (threads s)(next_addr s := Some th), ThreadIDOccupied := occ, thread_poiners := ptrs,
        next_addr := Suc (next_addr s), currentThread := next_addr s\<rparr>) = Ok t"
    by (simp add: thread_upd_def thread_get_def t_def)
  define u where "u = upd_intr (level_update (\<lambda>_. IntOn)) t"
  have "quiet u" "off u = t"
    by (auto simp: u_def t_def reset_globals_def quiet_def off_def Interrupt_new_def upd_intr_def upd_stats_def)
  then have on: "Enable (kernel_cb n) t = Ok (tick u)"
    using SetLevel_on_quiet[of u "kernel_cb n"] by (simp add: Enable_def)
  obtain m where m: "Machine_new (use_tlb st) (machine_junk st) (tlb_junk st) (debugUserProg opts) = Ok m"
    "loadable (Some m)" using Machine_new_loadable[OF assms(4)] by blast
  obtain d s' where s': "SynchDisk_new (disk_image st) ((tick u)\<lparr>machine := Some m\<rparr>) = Ok s'"
    "Disk_new (disk_image st) = Ok d" "disk_free s'" "sectors s' = disk_sectors d"
    "intr s' = intr u" "stats s' = stats (tick u)" "readyList s' = []" "threadToBeDestroyed s' = None"
    "threads s' = threads t" "currentThread s' = next_addr s" "machine s' = Some m"
    using SynchDisk_new_free[OF assms(5), of "(tick u)\<lparr>machine := Some m\<rparr>"]
    by (auto simp: u_def t_def tick_def reset_globals_def)
  have "Initialize n st args s = Ok (opts, s')"
    using assms(1-3) th(1) upd on m(1) s'(1)
    by (simp add: Initialize_def start_timer_def Let_def)
  moreover have "lone s'"
    using s' m(2) th(2) \<open>quiet u\<close>
    by (simp add: lone_def quiet_def t_def u_def tick_def reset_globals_def Statistics_new_def SystemTick_def)
  ultimately show ?thesis using s'(2,4) by blast
qed

text \<open>The kernel started without arguments on an empty disk.\<close>

definition booted :: kern where
  "booted = (case Initialize 0 plain_start [] zeroed of Ok (_, s) \<Rightarrow> s | Err _ \<Rightarrow> zeroed)"

lemma booted_Initialize:
  "Initialize 0 plain_start [] zeroed = Ok (default_options, booted) \<and> lone booted \<and>
   (\<exists>d. Disk_new None = Ok d \<and> sectors booted = disk_sectors d)"
proof -
  have "parse_args [] default_options = Ok default_options" "disk_image_ok (disk_image plain_start)"
    "length (rt_page_table (machine_junk plain_start)) = nat NumPhysPages" "disk_image plain_start = None"
    by (simp_all add: disk_image_ok_def plain_start_def)
  then show ?thesis
    using Initialize_spec[of "[]" default_options plain_start 0 zeroed]
    by (auto simp: default_options_def booted_def)
qed

lemma lone_booted: "lone booted"
  using booted_Initialize by blast

lemma sectors_booted:
  assumes "sector_ok k"
  shows "sectors booted k = replicate (nat SectorSize) 0"
proof -
  obtain d where d: "Disk_new None = Ok d" "sectors booted = disk_sectors d"
    using booted_Initialize by blast
  have "f_bytes (d_file d) i = 0" if "4 \<le> i" for i
    using d(1) that by (auto simp: Disk_new_def file_write_def u32_to_le_def disk_defs nth_Cons')
  moreover have "4 \<le> sector_offset k" using assms by (auto simp: sector_offset_def sector_ok_def disk_defs)
  ultimately show ?thesis unfolding d(2) disk_sectors_def by (intro replicate_eqI) auto
qed

end
