(* ===== verification/Mips.thy ===== *)
theory Mips
  imports Machine
begin

text \<open>
  The instruction simulator: src/machine/mipssim.h and mipssim.cc, with the debugger of
  src/machine/machine.cc. An instruction is fetched and decoded, the switch of
  \<open>OneInstruction\<close> is a chain of blocks in the order of its cases, and each case either traps to
  the kernel or leaves a delayed load and the program counter after the next instruction.
  Registers are 32-bit words: sums, differences and shifts of the source wrap, as the host's
  do. The register file has 40 entries and an instruction names registers by 5-bit fields.
\<close>

subsection \<open>Decoding\<close>

datatype opcode =
    OP_ADD | OP_ADDI | OP_ADDIU | OP_ADDU | OP_AND | OP_ANDI | OP_BEQ | OP_BGEZ | OP_BGEZAL | OP_BGTZ
  | OP_BLEZ | OP_BLTZ | OP_BLTZAL | OP_BNE | OP_DIV | OP_DIVU | OP_J | OP_JAL | OP_JALR | OP_JR
  | OP_LB | OP_LBU | OP_LH | OP_LHU | OP_LUI | OP_LW | OP_LWL | OP_LWR | OP_MFHI | OP_MFLO
  | OP_MTHI | OP_MTLO | OP_MULT | OP_MULTU | OP_NOR | OP_OR | OP_ORI | OP_RFE | OP_SB | OP_SH
  | OP_SLL | OP_SLLV | OP_SLT | OP_SLTI | OP_SLTIU | OP_SLTU | OP_SRA | OP_SRAV | OP_SRL | OP_SRLV
  | OP_SUB | OP_SUBU | OP_SW | OP_SWL | OP_SWR | OP_XOR | OP_XORI | OP_SYSCALL | OP_UNIMP | OP_RES
  | SPECIAL | BCOND

datatype format = IFMT | JFMT | RFMT

definition IndexToAddr :: "u32 \<Rightarrow> u32" where "IndexToAddr x = push_bit 2 x"
definition SIGN_BIT :: u32 where "SIGN_BIT = 0x80000000"
definition R31 :: nat where "R31 = 31"

record Instruction =
  ivalue :: u32
  opCode :: opcode
  irs :: nat
  irt :: nat
  ird :: nat
  extra :: u32

definition opTable :: "(opcode \<times> format) list" where
  "opTable =
     [(SPECIAL, RFMT), (BCOND, IFMT), (OP_J, JFMT), (OP_JAL, JFMT),
      (OP_BEQ, IFMT), (OP_BNE, IFMT), (OP_BLEZ, IFMT), (OP_BGTZ, IFMT),
      (OP_ADDI, IFMT), (OP_ADDIU, IFMT), (OP_SLTI, IFMT), (OP_SLTIU, IFMT),
      (OP_ANDI, IFMT), (OP_ORI, IFMT), (OP_XORI, IFMT), (OP_LUI, IFMT),
      (OP_UNIMP, IFMT), (OP_UNIMP, IFMT), (OP_UNIMP, IFMT), (OP_UNIMP, IFMT),
      (OP_RES, IFMT), (OP_RES, IFMT), (OP_RES, IFMT), (OP_RES, IFMT),
      (OP_RES, IFMT), (OP_RES, IFMT), (OP_RES, IFMT), (OP_RES, IFMT),
      (OP_RES, IFMT), (OP_RES, IFMT), (OP_RES, IFMT), (OP_RES, IFMT),
      (OP_LB, IFMT), (OP_LH, IFMT), (OP_LWL, IFMT), (OP_LW, IFMT),
      (OP_LBU, IFMT), (OP_LHU, IFMT), (OP_LWR, IFMT), (OP_RES, IFMT),
      (OP_SB, IFMT), (OP_SH, IFMT), (OP_SWL, IFMT), (OP_SW, IFMT),
      (OP_RES, IFMT), (OP_RES, IFMT), (OP_SWR, IFMT), (OP_RES, IFMT),
      (OP_UNIMP, IFMT), (OP_UNIMP, IFMT), (OP_UNIMP, IFMT), (OP_UNIMP, IFMT),
      (OP_RES, IFMT), (OP_RES, IFMT), (OP_RES, IFMT), (OP_RES, IFMT),
      (OP_UNIMP, IFMT), (OP_UNIMP, IFMT), (OP_UNIMP, IFMT), (OP_UNIMP, IFMT),
      (OP_RES, IFMT), (OP_RES, IFMT), (OP_RES, IFMT), (OP_RES, IFMT)]"

definition specialTable :: "opcode list" where
  "specialTable =
     [OP_SLL, OP_RES, OP_SRL, OP_SRA, OP_SLLV, OP_RES, OP_SRLV, OP_SRAV,
      OP_JR, OP_JALR, OP_RES, OP_RES, OP_SYSCALL, OP_UNIMP, OP_RES, OP_RES,
      OP_MFHI, OP_MTHI, OP_MFLO, OP_MTLO, OP_RES, OP_RES, OP_RES, OP_RES,
      OP_MULT, OP_MULTU, OP_DIV, OP_DIVU, OP_RES, OP_RES, OP_RES, OP_RES,
      OP_ADD, OP_ADDU, OP_SUB, OP_SUBU, OP_AND, OP_OR, OP_XOR, OP_NOR,
      OP_RES, OP_RES, OP_SLT, OP_SLTU, OP_RES, OP_RES, OP_RES, OP_RES,
      OP_RES, OP_RES, OP_RES, OP_RES, OP_RES, OP_RES, OP_RES, OP_RES,
      OP_RES, OP_RES, OP_RES, OP_RES, OP_RES, OP_RES, OP_RES, OP_RES]"

definition Decode :: "u32 \<Rightarrow> Instruction" where
  "Decode value =
     (let rs = drop_bit 21 value AND 0x1f;
          rt = drop_bit 16 value AND 0x1f;
          rd = drop_bit 11 value AND 0x1f;
          (op, fmt) = opTable ! unat (drop_bit 26 value AND 0x3f);
          extra = (case fmt of
                     IFMT \<Rightarrow> (let e = value AND 0xffff in
                              if e AND 0x8000 \<noteq> 0 then e OR 0xffff0000 else e)
                   | RFMT \<Rightarrow> drop_bit 6 value AND 0x1f
                   | JFMT \<Rightarrow> value AND 0x3ffffff);
          op = (case op of
                  SPECIAL \<Rightarrow> specialTable ! unat (value AND 0x3f)
                | BCOND \<Rightarrow> (let i = value AND 0x1f0000 in
                            if i = 0 then OP_BLTZ
                            else if i = 0x10000 then OP_BGEZ
                            else if i = 0x100000 then OP_BLTZAL
                            else if i = 0x110000 then OP_BGEZAL
                            else OP_UNIMP)
                | _ \<Rightarrow> op)
      in \<lparr>ivalue = value, opCode = op, irs = unat rs, irt = unat rt, ird = unat rd, extra = extra\<rparr>)"

subsection \<open>Multiplication\<close>

text \<open>\<open>a >>= 1\<close> shifts an int, so it copies the sign bit.\<close>

fun mult_loop :: "nat \<Rightarrow> u32 \<Rightarrow> u32 \<Rightarrow> u32 \<Rightarrow> u32 \<Rightarrow> u32 \<Rightarrow> u32 \<times> u32" where
  "mult_loop 0 a bHi bLo hi lo = (hi, lo)"
| "mult_loop (Suc n) a bHi bLo hi lo =
     (let (hi, lo, stop) =
            (if a AND 1 \<noteq> 0
             then let lo = lo + bLo;
                      hi = (if lo < bLo then hi + 1 else hi);
                      hi = hi + bHi
                  in (hi, lo, a AND 0xfffffffe = 0)
             else (hi, lo, False))
      in if stop then (hi, lo)
         else let bHi = push_bit 1 bHi;
                  bHi = (if bLo AND 0x80000000 \<noteq> 0 then bHi OR 1 else bHi);
                  bLo = push_bit 1 bLo
              in mult_loop n (signed_drop_bit 1 a) bHi bLo hi lo)"

text \<open>The result is the pair of \<open>*hiPtr\<close> and \<open>*loPtr\<close>.\<close>

definition Mult :: "u32 \<Rightarrow> u32 \<Rightarrow> bool \<Rightarrow> u32 \<times> u32" where
  "Mult a b signedArith =
     (if a = 0 \<or> b = 0 then (0, 0)
      else let (negative, a) = (if signedArith \<and> a <s 0 then (True, - a) else (False, a));
               (negative, b) = (if signedArith \<and> b <s 0 then (\<not> negative, - b) else (negative, b));
               (hi, lo) = mult_loop 32 a 0 b 0 0
           in if negative
              then let hi = NOT hi;
                       lo = NOT lo;
                       lo = lo + 1;
                       hi = (if lo = 0 then hi + 1 else hi)
                   in (hi, lo)
              else (hi, lo))"

subsection \<open>The cases of the switch\<close>

text \<open>
  \<open>Trap\<close> is a return from \<open>OneInstruction\<close> after an exception; \<open>Done\<close> leaves the switch with
  \<open>nextLoadReg\<close>, \<open>nextLoadValue\<close> and \<open>pcAfter\<close>. A block passes the cases it does not hold on to
  the next one.
\<close>

datatype 's exec = Trap 's | Done u32 u32 u32 's

type_synonym 's handler = "ExceptionType \<Rightarrow> 's \<Rightarrow> 's result"

definition set_reg :: "nat \<Rightarrow> u32 \<Rightarrow> Machine \<Rightarrow> Machine" where
  "set_reg d v m = m\<lparr>registers := (registers m)[d := v]\<rparr>"

definition leave :: "u32 \<Rightarrow> Machine \<Rightarrow> 'a kern_scheme \<Rightarrow> 'a kern_scheme exec result" where
  "leave pcAfter m s = Ok (Done 0 0 pcAfter (s\<lparr>machine := Some m\<rparr>))"

definition trap :: "'a kern_scheme handler \<Rightarrow> ExceptionType \<Rightarrow> u32 \<Rightarrow> 'a kern_scheme \<Rightarrow>
    'a kern_scheme exec result" where
  "trap eh e badVAddr s = rbind (RaiseException eh e badVAddr s) (\<lambda>s. Ok (Trap s))"

text \<open>OP_RES, OP_UNIMP and the default of the switch, which is \<open>ASSERT(FALSE)\<close>.\<close>

definition exec_illegal :: "'a kern_scheme handler \<Rightarrow> Instruction \<Rightarrow> Machine \<Rightarrow> u32 \<Rightarrow> 'a kern_scheme \<Rightarrow>
    'a kern_scheme exec result" where
  "exec_illegal eh i m pcAfter s =
     (case opCode i of
        OP_RES \<Rightarrow> trap eh IllegalInstrException 0 s
      | OP_UNIMP \<Rightarrow> trap eh IllegalInstrException 0 s
      | _ \<Rightarrow> Err AssertFailed)"

definition exec_xor :: "'a kern_scheme handler \<Rightarrow> Instruction \<Rightarrow> Machine \<Rightarrow> u32 \<Rightarrow> 'a kern_scheme \<Rightarrow>
    'a kern_scheme exec result" where
  "exec_xor eh i m pcAfter s =
     (let rs = registers m ! irs i; rt = registers m ! irt i in
      case opCode i of
        OP_SYSCALL \<Rightarrow> trap eh SyscallException 0 s
      | OP_XOR \<Rightarrow> leave pcAfter (set_reg (ird i) (rs XOR rt) m) s
      | OP_XORI \<Rightarrow> leave pcAfter (set_reg (irt i) (rs XOR (extra i AND 0xffff)) m) s
      | _ \<Rightarrow> exec_illegal eh i m pcAfter s)"

text \<open>The unaligned stores are reached with an aligned address only, but the source has all
  four cases.\<close>

definition store_word :: "'a kern_scheme handler \<Rightarrow> u32 \<Rightarrow> int \<Rightarrow> u32 \<Rightarrow> u32 \<Rightarrow> 'a kern_scheme \<Rightarrow>
    'a kern_scheme exec result" where
  "store_word eh addr sz v pcAfter s =
     rbind (WriteMem eh addr sz v s) (\<lambda>(ok, s). Ok (if ok then Done 0 0 pcAfter s else Trap s))"

definition swl_merge :: "u32 \<Rightarrow> u32 \<Rightarrow> u32 \<Rightarrow> u32" where
  "swl_merge tmp value rt =
     (if tmp AND 3 = 0 then rt
      else if tmp AND 3 = 1 then (value AND 0xff000000) OR (signed_drop_bit 8 rt AND 0xffffff)
      else if tmp AND 3 = 2 then (value AND 0xffff0000) OR (signed_drop_bit 16 rt AND 0xffff)
      else (value AND 0xffffff00) OR (signed_drop_bit 24 rt AND 0xff))"

definition swr_merge :: "u32 \<Rightarrow> u32 \<Rightarrow> u32 \<Rightarrow> u32" where
  "swr_merge tmp value rt =
     (if tmp AND 3 = 0 then (value AND 0xffffff) OR push_bit 24 rt
      else if tmp AND 3 = 1 then (value AND 0xffff) OR push_bit 16 rt
      else if tmp AND 3 = 2 then (value AND 0xff) OR push_bit 8 rt
      else rt)"

definition store_part :: "'a kern_scheme handler \<Rightarrow> (u32 \<Rightarrow> u32 \<Rightarrow> u32 \<Rightarrow> u32) \<Rightarrow> u32 \<Rightarrow> u32 \<Rightarrow> u32 \<Rightarrow>
    'a kern_scheme \<Rightarrow> 'a kern_scheme exec result" where
  "store_part eh merge tmp rt pcAfter s =
     ASSERT (tmp AND 3 = 0)
       (rbind (ReadMem eh (tmp AND NOT 3) 4 s) (\<lambda>(r, s).
        case r of
          None \<Rightarrow> Ok (Trap s)
        | Some value \<Rightarrow> store_word eh (tmp AND NOT 3) 4 (merge tmp value rt) pcAfter s))"

definition exec_sw :: "'a kern_scheme handler \<Rightarrow> Instruction \<Rightarrow> Machine \<Rightarrow> u32 \<Rightarrow> 'a kern_scheme \<Rightarrow>
    'a kern_scheme exec result" where
  "exec_sw eh i m pcAfter s =
     (let rs = registers m ! irs i; rt = registers m ! irt i; tmp = rs + extra i in
      case opCode i of
        OP_SW \<Rightarrow> store_word eh tmp 4 rt pcAfter s
      | OP_SWL \<Rightarrow> store_part eh swl_merge tmp rt pcAfter s
      | OP_SWR \<Rightarrow> store_part eh swr_merge tmp rt pcAfter s
      | _ \<Rightarrow> exec_xor eh i m pcAfter s)"

definition exec_sub :: "'a kern_scheme handler \<Rightarrow> Instruction \<Rightarrow> Machine \<Rightarrow> u32 \<Rightarrow> 'a kern_scheme \<Rightarrow>
    'a kern_scheme exec result" where
  "exec_sub eh i m pcAfter s =
     (let rs = registers m ! irs i; rt = registers m ! irt i in
      case opCode i of
        OP_SUB \<Rightarrow>
          (let diff = rs - rt in
           if (rs XOR rt) AND SIGN_BIT \<noteq> 0 \<and> (rs XOR diff) AND SIGN_BIT \<noteq> 0
           then trap eh OverflowException 0 s
           else leave pcAfter (set_reg (ird i) diff m) s)
      | OP_SUBU \<Rightarrow> leave pcAfter (set_reg (ird i) (rs - rt) m) s
      | _ \<Rightarrow> exec_sw eh i m pcAfter s)"

definition exec_shift_right :: "'a kern_scheme handler \<Rightarrow> Instruction \<Rightarrow> Machine \<Rightarrow> u32 \<Rightarrow> 'a kern_scheme \<Rightarrow>
    'a kern_scheme exec result" where
  "exec_shift_right eh i m pcAfter s =
     (let rs = registers m ! irs i; rt = registers m ! irt i;
          put = (\<lambda>v. leave pcAfter (set_reg (ird i) v m) s) in
      case opCode i of
        OP_SRA \<Rightarrow> put (signed_drop_bit (unat (extra i)) rt)
      | OP_SRAV \<Rightarrow> put (signed_drop_bit (unat (rs AND 0x1f)) rt)
      | OP_SRL \<Rightarrow> put (signed_drop_bit (unat (extra i)) rt)
      | OP_SRLV \<Rightarrow> put (signed_drop_bit (unat (rs AND 0x1f)) rt)
      | _ \<Rightarrow> exec_sub eh i m pcAfter s)"

definition exec_set :: "'a kern_scheme handler \<Rightarrow> Instruction \<Rightarrow> Machine \<Rightarrow> u32 \<Rightarrow> 'a kern_scheme \<Rightarrow>
    'a kern_scheme exec result" where
  "exec_set eh i m pcAfter s =
     (let rs = registers m ! irs i; rt = registers m ! irt i;
          put = (\<lambda>d b. leave pcAfter (set_reg d (if b then 1 else 0) m) s) in
      case opCode i of
        OP_SLT \<Rightarrow> put (ird i) (rs <s rt)
      | OP_SLTI \<Rightarrow> put (irt i) (rs <s extra i)
      | OP_SLTIU \<Rightarrow> put (irt i) (rs < extra i)
      | OP_SLTU \<Rightarrow> put (ird i) (rs < rt)
      | _ \<Rightarrow> exec_shift_right eh i m pcAfter s)"

definition exec_store_shift :: "'a kern_scheme handler \<Rightarrow> Instruction \<Rightarrow> Machine \<Rightarrow> u32 \<Rightarrow> 'a kern_scheme \<Rightarrow>
    'a kern_scheme exec result" where
  "exec_store_shift eh i m pcAfter s =
     (let rs = registers m ! irs i; rt = registers m ! irt i in
      case opCode i of
        OP_SB \<Rightarrow> store_word eh (rs + extra i) 1 rt pcAfter s
      | OP_SH \<Rightarrow> store_word eh (rs + extra i) 2 rt pcAfter s
      | OP_SLL \<Rightarrow> leave pcAfter (set_reg (ird i) (push_bit (unat (extra i)) rt) m) s
      | OP_SLLV \<Rightarrow> leave pcAfter (set_reg (ird i) (push_bit (unat (rs AND 0x1f)) rt) m) s
      | _ \<Rightarrow> exec_set eh i m pcAfter s)"

definition exec_move :: "'a kern_scheme handler \<Rightarrow> Instruction \<Rightarrow> Machine \<Rightarrow> u32 \<Rightarrow> 'a kern_scheme \<Rightarrow>
    'a kern_scheme exec result" where
  "exec_move eh i m pcAfter s =
     (let rs = registers m ! irs i; rt = registers m ! irt i;
          hi = nat HiReg; lo = nat LoReg;
          mult = (\<lambda>signed. let (h, l) = Mult rs rt signed
                           in leave pcAfter (set_reg lo l (set_reg hi h m)) s) in
      case opCode i of
        OP_MFHI \<Rightarrow> leave pcAfter (set_reg (ird i) (registers m ! hi) m) s
      | OP_MFLO \<Rightarrow> leave pcAfter (set_reg (ird i) (registers m ! lo) m) s
      | OP_MTHI \<Rightarrow> leave pcAfter (set_reg hi rs m) s
      | OP_MTLO \<Rightarrow> leave pcAfter (set_reg lo rs m) s
      | OP_MULT \<Rightarrow> mult True
      | OP_MULTU \<Rightarrow> mult False
      | OP_NOR \<Rightarrow> leave pcAfter (set_reg (ird i) (NOT (rs OR rt)) m) s
      | OP_OR \<Rightarrow> leave pcAfter (set_reg (ird i) (rs OR rs) m) s
      | OP_ORI \<Rightarrow> leave pcAfter (set_reg (irt i) (rs OR (extra i AND 0xffff)) m) s
      | _ \<Rightarrow> exec_store_shift eh i m pcAfter s)"

definition load_with :: "'a kern_scheme handler \<Rightarrow> u32 \<Rightarrow> int \<Rightarrow> (u32 \<Rightarrow> u32) \<Rightarrow> nat \<Rightarrow> u32 \<Rightarrow>
    'a kern_scheme \<Rightarrow> 'a kern_scheme exec result" where
  "load_with eh addr sz f rt pcAfter s =
     rbind (ReadMem eh addr sz s) (\<lambda>(r, s).
       Ok (case r of None \<Rightarrow> Trap s | Some value \<Rightarrow> Done (of_nat rt) (f value) pcAfter s))"

definition lwl_merge :: "u32 \<Rightarrow> u32 \<Rightarrow> u32 \<Rightarrow> u32" where
  "lwl_merge tmp old value =
     (if tmp AND 3 = 0 then value
      else if tmp AND 3 = 1 then (old AND 0xff) OR push_bit 8 value
      else if tmp AND 3 = 2 then (old AND 0xffff) OR push_bit 16 value
      else (old AND 0xffffff) OR push_bit 24 value)"

definition lwr_merge :: "u32 \<Rightarrow> u32 \<Rightarrow> u32 \<Rightarrow> u32" where
  "lwr_merge tmp old value =
     (if tmp AND 3 = 0 then (old AND 0xffffff00) OR (signed_drop_bit 24 value AND 0xff)
      else if tmp AND 3 = 1 then (old AND 0xffff0000) OR (signed_drop_bit 16 value AND 0xffff)
      else if tmp AND 3 = 2 then (old AND 0xff000000) OR (signed_drop_bit 8 value AND 0xffffff)
      else value)"

definition exec_load_word :: "'a kern_scheme handler \<Rightarrow> Instruction \<Rightarrow> Machine \<Rightarrow> u32 \<Rightarrow> 'a kern_scheme \<Rightarrow>
    'a kern_scheme exec result" where
  "exec_load_word eh i m pcAfter s =
     (let tmp = registers m ! irs i + extra i;
          old = (if registers m ! nat LoadReg = of_nat (irt i) then registers m ! nat LoadValueReg
                 else registers m ! irt i) in
      case opCode i of
        OP_LUI \<Rightarrow> leave pcAfter (set_reg (irt i) (push_bit 16 (extra i)) m) s
      | OP_LW \<Rightarrow>
          if tmp AND 3 \<noteq> 0 then trap eh AddressErrorException tmp s
          else load_with eh tmp 4 (\<lambda>v. v) (irt i) pcAfter s
      | OP_LWL \<Rightarrow> ASSERT (tmp AND 3 = 0) (load_with eh tmp 4 (lwl_merge tmp old) (irt i) pcAfter s)
      | OP_LWR \<Rightarrow> ASSERT (tmp AND 3 = 0) (load_with eh tmp 4 (lwr_merge tmp old) (irt i) pcAfter s)
      | _ \<Rightarrow> exec_move eh i m pcAfter s)"

definition exec_load :: "'a kern_scheme handler \<Rightarrow> Instruction \<Rightarrow> Machine \<Rightarrow> u32 \<Rightarrow> 'a kern_scheme \<Rightarrow>
    'a kern_scheme exec result" where
  "exec_load eh i m pcAfter s =
     (let tmp = registers m ! irs i + extra i;
          byte = (\<lambda>sgn v. if v AND 0x80 \<noteq> 0 \<and> sgn then v OR 0xffffff00 else v AND 0xff);
          half = (\<lambda>sgn v. if v AND 0x8000 \<noteq> 0 \<and> sgn then v OR 0xffff0000 else v AND 0xffff);
          load_half = (\<lambda>sgn. if tmp AND 1 \<noteq> 0 then trap eh AddressErrorException tmp s
                             else load_with eh tmp 2 (half sgn) (irt i) pcAfter s) in
      case opCode i of
        OP_LB \<Rightarrow> load_with eh tmp 1 (byte True) (irt i) pcAfter s
      | OP_LBU \<Rightarrow> load_with eh tmp 1 (byte False) (irt i) pcAfter s
      | OP_LH \<Rightarrow> load_half True
      | OP_LHU \<Rightarrow> load_half False
      | _ \<Rightarrow> exec_load_word eh i m pcAfter s)"

definition exec_jump :: "'a kern_scheme handler \<Rightarrow> Instruction \<Rightarrow> Machine \<Rightarrow> u32 \<Rightarrow> 'a kern_scheme \<Rightarrow>
    'a kern_scheme exec result" where
  "exec_jump eh i m pcAfter s =
     (let link = registers m ! nat NextPCReg + 4;
          target = (pcAfter AND 0xf0000000) OR IndexToAddr (extra i) in
      case opCode i of
        OP_JAL \<Rightarrow> leave target (set_reg R31 link m) s
      | OP_J \<Rightarrow> leave target m s
      | OP_JALR \<Rightarrow> (let m = set_reg (ird i) link m in leave (registers m ! irs i) m s)
      | OP_JR \<Rightarrow> leave (registers m ! irs i) m s
      | _ \<Rightarrow> exec_load eh i m pcAfter s)"

definition exec_div :: "'a kern_scheme handler \<Rightarrow> Instruction \<Rightarrow> Machine \<Rightarrow> u32 \<Rightarrow> 'a kern_scheme \<Rightarrow>
    'a kern_scheme exec result" where
  "exec_div eh i m pcAfter s =
     (let rs = registers m ! irs i; rt = registers m ! irt i;
          put = (\<lambda>l h. leave pcAfter (set_reg (nat HiReg) h (set_reg (nat LoReg) l m)) s) in
      case opCode i of
        OP_DIV \<Rightarrow>
          if rt = 0 then put 0 0
          else if rs = SIGN_BIT \<and> rt = - 1 then Err DivideFault
          else put (word_of_int (sint rs sdiv sint rt)) (word_of_int (sint rs smod sint rt))
      | OP_DIVU \<Rightarrow> if rt = 0 then put 0 0 else put (rs div rt) (rs mod rt)
      | _ \<Rightarrow> exec_jump eh i m pcAfter s)"

definition exec_branch :: "'a kern_scheme handler \<Rightarrow> Instruction \<Rightarrow> Machine \<Rightarrow> u32 \<Rightarrow> 'a kern_scheme \<Rightarrow>
    'a kern_scheme exec result" where
  "exec_branch eh i m pcAfter s =
     (let rs = registers m ! irs i; rt = registers m ! irt i;
          nextPC = registers m ! nat NextPCReg;
          branch = (\<lambda>b m. leave (if b then nextPC + IndexToAddr (extra i) else pcAfter) m s);
          linked = set_reg R31 (nextPC + 4) m in
      case opCode i of
        OP_BEQ \<Rightarrow> branch (rs = rt) m
      | OP_BGEZAL \<Rightarrow> branch (registers linked ! irs i AND SIGN_BIT = 0) linked
      | OP_BGEZ \<Rightarrow> branch (rs AND SIGN_BIT = 0) m
      | OP_BGTZ \<Rightarrow> branch (0 <s rs) m
      | OP_BLEZ \<Rightarrow> branch (rs \<le>s 0) m
      | OP_BLTZAL \<Rightarrow> branch (registers linked ! irs i AND SIGN_BIT \<noteq> 0) linked
      | OP_BLTZ \<Rightarrow> branch (rs AND SIGN_BIT \<noteq> 0) m
      | OP_BNE \<Rightarrow> branch (rs \<noteq> rt) m
      | _ \<Rightarrow> exec_div eh i m pcAfter s)"

definition exec_add :: "'a kern_scheme handler \<Rightarrow> Instruction \<Rightarrow> Machine \<Rightarrow> u32 \<Rightarrow> 'a kern_scheme \<Rightarrow>
    'a kern_scheme exec result" where
  "exec_add eh i m pcAfter s =
     (let rs = registers m ! irs i; rt = registers m ! irt i in
      case opCode i of
        OP_ADD \<Rightarrow>
          (let sum = rs + rt in
           if (rs XOR rt) AND SIGN_BIT = 0 \<and> (rs XOR sum) AND SIGN_BIT \<noteq> 0
           then trap eh OverflowException 0 s
           else leave pcAfter (set_reg (ird i) sum m) s)
      | OP_ADDI \<Rightarrow>
          (let sum = rs + extra i in
           if (rs XOR extra i) AND SIGN_BIT = 0 \<and> (extra i XOR sum) AND SIGN_BIT \<noteq> 0
           then trap eh OverflowException 0 s
           else leave pcAfter (set_reg (irt i) sum m) s)
      | OP_ADDIU \<Rightarrow> leave pcAfter (set_reg (irt i) (rs + extra i) m) s
      | OP_ADDU \<Rightarrow> leave pcAfter (set_reg (ird i) (rs + rt) m) s
      | OP_AND \<Rightarrow> leave pcAfter (set_reg (ird i) (rs AND rt) m) s
      | OP_ANDI \<Rightarrow> leave pcAfter (set_reg (irt i) (rs AND (extra i AND 0xffff)) m) s
      | _ \<Rightarrow> exec_branch eh i m pcAfter s)"

lemmas exec_defs = exec_add_def exec_branch_def exec_div_def exec_jump_def exec_load_def
  exec_load_word_def exec_move_def exec_store_shift_def exec_set_def exec_shift_right_def
  exec_sub_def exec_sw_def exec_xor_def exec_illegal_def

subsection \<open>One instruction\<close>

definition step_pc :: "u32 \<Rightarrow> Machine \<Rightarrow> Machine" where
  "step_pc pcAfter m =
     (let m = set_reg (nat PrevPCReg) (registers m ! nat PCReg) m;
          m = set_reg (nat PCReg) (registers m ! nat NextPCReg) m
      in set_reg (nat NextPCReg) pcAfter m)"

definition OneInstruction :: "'a kern_scheme handler \<Rightarrow> 'a kern_scheme \<Rightarrow> 'a kern_scheme result" where
  "OneInstruction eh s =
     rbind (mach_get s) (\<lambda>m.
     rbind (ReadMem eh (registers m ! nat PCReg) 4 s) (\<lambda>(raw, s).
     case raw of
       None \<Rightarrow> Ok s
     | Some raw \<Rightarrow>
         rbind (mach_get s) (\<lambda>m.
         rbind (exec_add eh (Decode raw) m (registers m ! nat NextPCReg + 4) s) (\<lambda>r.
         case r of
           Trap s \<Rightarrow> Ok s
         | Done nextLoadReg nextLoadValue pcAfter s \<Rightarrow>
             rbind (mach_do (DelayedLoad nextLoadReg nextLoadValue) s) (\<lambda>s.
             mach_do (\<lambda>m. Ok (step_pc pcAfter m)) s)))))"

text \<open>
  \<open>scan_int\<close> is what \<^verbatim>\<open>sscanf("%d")\<close> finds in the line; the first character of the line
  decides otherwise.
\<close>

definition Debugger :: "(string \<Rightarrow> int option) \<Rightarrow> string \<Rightarrow> Machine \<Rightarrow> Machine" where
  "Debugger scan_int line m =
     (case scan_int line of
        Some num \<Rightarrow> m\<lparr>runUntilTime := num\<rparr>
      | None \<Rightarrow>
          (let m = m\<lparr>runUntilTime := 0\<rparr> in
           case line of [] \<Rightarrow> m | c # _ \<Rightarrow> if c = CHR ''c'' then m\<lparr>singleStep := False\<rparr> else m))"

text \<open>One turn of the loop of \<open>Run\<close>; \<open>lines\<close> are the lines typed to the debugger so far unread.\<close>

definition Run_step :: "'a kern_scheme callbacks \<Rightarrow> 'a kern_scheme handler \<Rightarrow> (string \<Rightarrow> int option) \<Rightarrow>
    (nat \<Rightarrow> string) \<times> 'a kern_scheme \<Rightarrow> ((nat \<Rightarrow> string) \<times> 'a kern_scheme) result" where
  "Run_step cb eh scan_int =
     (\<lambda>(lines, s).
        rbind (OneInstruction eh s) (\<lambda>s.
        rbind (OneTick cb s) (\<lambda>s.
        rbind (mach_get s) (\<lambda>m.
        if singleStep m \<and> runUntilTime m \<le> totalTicks (stats s)
        then rbind (mach_do (\<lambda>m. Ok (Debugger scan_int (lines 0) m)) s) (\<lambda>s. Ok (\<lambda>n. lines (Suc n), s))
        else Ok (lines, s)))))"

partial_function (option) Run_loop :: "'a kern_scheme callbacks \<Rightarrow> 'a kern_scheme handler \<Rightarrow>
    (string \<Rightarrow> int option) \<Rightarrow> (nat \<Rightarrow> string) \<times> 'a kern_scheme \<Rightarrow> 'a kern_scheme result option" where
  "Run_loop cb eh scan_int ls =
     (case Run_step cb eh scan_int ls of Err e \<Rightarrow> Some (Err e) | Ok ls \<Rightarrow> Run_loop cb eh scan_int ls)"

definition Machine_Run :: "'a kern_scheme callbacks \<Rightarrow> 'a kern_scheme handler \<Rightarrow> (string \<Rightarrow> int option) \<Rightarrow>
    (nat \<Rightarrow> string) \<Rightarrow> 'a kern_scheme \<Rightarrow> 'a kern_scheme result" where
  "Machine_Run cb eh scan_int lines s =
     loop_result (Run_loop cb eh scan_int (lines, setStatus UserMode s))"

end
