(* ===== verification/Virtual_Memory.thy ===== *)
theory Virtual_Memory
  imports Machine
begin

text \<open>
  Facts on address translation and paging (\<open>Machine\<close>): translation through the reverse page
  table is total and stays inside physical memory, frames are never shared, memory returns what
  was stored, and the replacement routine of the page-fault handler makes the faulting page
  accessible, with the contents of the thread's disk and without losing a dirty page.
\<close>

subsection \<open>The invariant of the page tables\<close>

definition frames_ok :: "Machine \<Rightarrow> bool" where
  "frames_ok m \<longleftrightarrow> length (mainMemory m) = nat MemorySize \<and> length (rt_page_table m) = nat NumPhysPages \<and>
     (\<forall>i<length (rt_page_table m). physicalPage (rt_page_table m ! i) = word_of_nat i)"

lemma frames_ok_simps:
  assumes "frames_ok m"
  shows "length (mainMemory m) = 4096" "length (rt_page_table m) = 32"
    "i < 32 \<Longrightarrow> physicalPage (rt_page_table m ! i) = word_of_nat i"
  using assms by (auto simp: frames_ok_def mem_defs)

definition maps :: "ReverseTranslationEntry \<Rightarrow> u32 \<Rightarrow> int \<Rightarrow> bool" where
  "maps e vpn tid \<longleftrightarrow> valid e \<and> virtualPage e = vpn \<and> rt_tid e = tid"

definition frame_of :: "Machine \<Rightarrow> u32 \<Rightarrow> int \<Rightarrow> nat option" where
  "frame_of m vpn tid = List.find (\<lambda>i. maps (rt_page_table m ! i) vpn tid) [0..<32]"

lemma rt_find_spec:
  assumes "\<forall>i\<in>set is. i < length rt"
  shows "rt_find (map int is) vpn tid rt = Ok (map_option int (List.find (\<lambda>i. maps (rt ! i) vpn tid) is))"
  using assms by (induction "is") (auto simp: maps_def)

lemma frame_of_Some:
  assumes "frame_of m vpn tid = Some i"
  shows "i < 32" "maps (rt_page_table m ! i) vpn tid"
  using assms by (auto simp: frame_of_def find_Some_iff)

lemma rt_init_spec:
  assumes "\<forall>i\<in>set is. i < length rt" "distinct is"
  shows "\<exists>rt'. rt_init (map int is) rt = Ok rt' \<and> length rt' = length rt \<and>
    (\<forall>i<length rt. rt' ! i = (if i \<in> set is then rt_entry_new (int i) (rt ! i) else rt ! i))"
  using assms
proof (induction "is" arbitrary: rt)
  case (Cons i "is")
  from Cons.IH[of "rt[i := rt_entry_new (int i) (rt ! i)]"] Cons.prems
  obtain rt' where rt': "rt_init (map int is) (rt[i := rt_entry_new (int i) (rt ! i)]) = Ok rt'"
    "length rt' = length rt"
    "\<forall>j<length rt. rt' ! j = (if j \<in> set is then rt_entry_new (int j) (rt[i := rt_entry_new (int i) (rt ! i)] ! j)
       else rt[i := rt_entry_new (int i) (rt ! i)] ! j)"
    by auto
  then show ?case using Cons.prems by (auto simp: nth_list_update)
qed simp

lemma Machine_new_frames:
  assumes "length (rt_page_table junk) = nat NumPhysPages"
  shows "\<exists>m. Machine_new tlbs junk tj dbg = Ok m \<and> frames_ok m \<and> registers m = replicate NumTotalRegs 0 \<and>
    (\<forall>vpn tid. frame_of m vpn tid = None)"
proof -
  have "[0..NumPhysPages - 1] = map int [0..<32]" using upto_int[of 32] by (simp add: mem_defs)
  moreover obtain rt where rt: "rt_init (map int [0..<32]) (rt_page_table junk) = Ok rt" "length rt = 32"
    "\<forall>i<32. rt ! i = rt_entry_new (int i) (rt_page_table junk ! i)"
    using rt_init_spec[of "[0..<32]" "rt_page_table junk"] assms by (auto simp: mem_defs)
  moreover have "frame_of m vpn tid = None" if "rt_page_table m = rt" for m vpn tid
    using that rt(3) by (auto simp: frame_of_def find_None_iff maps_def rt_entry_new_def)
  ultimately show ?thesis
    by (auto simp: Machine_new_def Let_def frames_ok_def rt_entry_new_def mem_defs)
qed

subsection \<open>Translation\<close>

definition aligned :: "u32 \<Rightarrow> int \<Rightarrow> bool" where
  "aligned va sz \<longleftrightarrow> \<not> (sz = 4 \<and> va AND 3 \<noteq> 0 \<or> sz = 2 \<and> va AND 1 \<noteq> 0)"

definition touch :: "bool \<Rightarrow> nat \<Rightarrow> Machine \<Rightarrow> Machine" where
  "touch writing i m = m\<lparr>rt_page_table := (rt_page_table m)[i :=
     (rt_page_table m ! i)\<lparr>use := True, dirty := writing \<or> dirty (rt_page_table m ! i)\<rparr>]\<rparr>"

definition phys :: "nat \<Rightarrow> u32 \<Rightarrow> nat" where
  "phys i va = 128 * i + unat va mod 128"

lemma phys_word:
  assumes "i < 32"
  shows "word_of_nat i * word_of_int PageSize + va mod word_of_int PageSize = (word_of_nat (phys i va) :: u32)"
    "unat (word_of_nat (phys i va) :: u32) = phys i va" "sint (word_of_nat (phys i va) :: u32) = int (phys i va)"
    "phys i va < 4096"
proof -
  show lt: "phys i va < 4096" using assms mod_less_divisor[of 128 "unat va"] by (simp add: phys_def)
  show u: "unat (word_of_nat (phys i va) :: u32) = phys i va" using lt by (simp add: unat_of_nat)
  show "sint (word_of_nat (phys i va) :: u32) = int (phys i va)"
    using lt sint_of_range[of "int (phys i va)"] by simp
  have "unat (va mod 128) = unat va mod 128" by (simp add: unat_mod)
  moreover have "va mod 128 = word_of_nat (unat (va mod 128))" by simp
  ultimately have "va mod 128 = word_of_nat (unat va mod 128)" by (simp only:)
  then show "word_of_nat i * word_of_int PageSize + va mod word_of_int PageSize = (word_of_nat (phys i va) :: u32)"
    by (simp add: mem_defs phys_def)
qed

lemma aligned_fits:
  assumes "aligned va sz" "sz \<in> {1, 2, 4}" "i < 32"
  shows "int (phys i va) + sz \<le> MemorySize"
proof -
  have and3: "x AND 3 = x mod 4" "x AND 1 = x mod 2" for x :: nat
    using take_bit_eq_mask[of 2 x] take_bit_eq_mask[of 1 x]
    by (simp_all add: take_bit_eq_mod mask_eq_exp_minus_1)
  have "unat (va AND 3) = unat va mod 4" "unat (va AND 1) = unat va mod 2"
    unfolding and3[symmetric] by (simp_all add: unsigned_and_eq)
  then have "sz = 4 \<Longrightarrow> unat va mod 128 mod 4 = 0" "sz = 2 \<Longrightarrow> unat va mod 128 mod 2 = 0"
    using assms(1) by (auto simp: aligned_def mod_mod_cancel)
  moreover have "r + 4 \<le> 128" if "r < 128" "r mod 4 = 0" for r :: nat using that by presburger
  moreover have "r + 2 \<le> 128" if "r < 128" "r mod 2 = 0" for r :: nat using that by presburger
  moreover have "unat va mod 128 < 128" by simp
  ultimately have "int (unat va mod 128) + sz \<le> 128" using assms(2) by force
  then show ?thesis using assms(3) by (simp add: phys_def mem_defs)
qed

lemma update_nth_same:
  "f new = f (xs ! i) \<Longrightarrow> f (xs[i := new] ! j) = f (xs ! j)"
  by (cases "i < length xs"; cases "j = i") (simp_all add: list_update_beyond)

lemma frames_ok_touch [simp]: "frames_ok m \<Longrightarrow> frames_ok (touch w i m)"
  by (simp add: frames_ok_def touch_def update_nth_same[where f = physicalPage])

lemma Translate_spec:
  assumes "frames_ok m" "sz \<in> {1, 2, 4}"
  defines "t \<equiv> m\<lparr>tlbTimes := tlbTimes m + 1\<rparr>"
  shows "Translate va sz writing tid m =
    (if \<not> aligned va sz then Ok (Inl AddressErrorException, m)
     else case frame_of m (va div 128) tid of
            None \<Rightarrow> Ok (Inl PageFaultException, t)
          | Some i \<Rightarrow> if readOnly (rt_page_table m ! i) \<and> writing then Ok (Inl ReadOnlyException, t)
                      else Ok (Inr (word_of_nat (phys i va)), touch writing i t))"
proof (cases "aligned va sz")
  case True
  have range: "[0..NumPhysPages - 1] = map int [0..<32]" using upto_int[of 32] by (simp add: mem_defs)
  have find: "rt_find (map int [0..<32]) (va div 128) tid (rt_page_table m) =
      Ok (map_option int (frame_of m (va div 128) tid))"
    using rt_find_spec[of "[0..<32]" "rt_page_table m"] frames_ok_simps(2)[OF assms(1)]
    by (simp add: frame_of_def)
  show ?thesis
  proof (cases "frame_of m (va div 128) tid")
    case None
    with True find show ?thesis
      unfolding Translate_def aligned_def range t_def by (simp add: Let_def mem_defs)
  next
    case (Some i)
    note i = frame_of_Some[OF Some]
    have "physicalPage (rt_page_table m ! i) = word_of_nat i" using frames_ok_simps(3)[OF assms(1)] i(1) by simp
    moreover have "uint (word_of_nat i :: u32) = int i" using i(1) by (simp add: uint_nat unat_of_nat)
    moreover note phys_word[OF i(1), of va] aligned_fits[OF True assms(2) i(1)]
    ultimately show ?thesis
      using True find Some i(1) frames_ok_simps(2)[OF assms(1)]
      unfolding Translate_def aligned_def range t_def touch_def by (auto simp: Let_def mem_defs)
  qed
qed (simp add: Translate_def aligned_def)

lemma frame_of_tlbTimes [simp]: "frame_of (m\<lparr>tlbTimes := n\<rparr>) = frame_of m"
  by (simp add: frame_of_def fun_eq_iff)

lemma frame_of_touch [simp]: "frame_of (touch w i m) = frame_of m"
proof -
  have "maps (rt_page_table (touch w i m) ! j) vpn tid = maps (rt_page_table m ! j) vpn tid" for j vpn tid
    unfolding touch_def by (simp, rule update_nth_same) (simp add: maps_def)
  then show ?thesis by (simp add: frame_of_def fun_eq_iff)
qed

lemma frames_ok_tlbTimes [simp]: "frames_ok (m\<lparr>tlbTimes := n\<rparr>) = frames_ok m"
  by (simp add: frames_ok_def)

lemma Translate_Inr:
  assumes "frames_ok m" "sz \<in> {1, 2, 4}" "Translate va sz w tid m = Ok (Inr pa, m')"
  obtains i where "aligned va sz" "frame_of m (va div 128) tid = Some i" "i < 32" "pa = word_of_nat (phys i va)"
    "m' = touch w i (m\<lparr>tlbTimes := tlbTimes m + 1\<rparr>)"
  using assms(3) frame_of_Some(1) unfolding Translate_spec[OF assms(1,2)]
  by (auto split: if_splits option.splits)


text \<open>C29. Two threads never share a frame: when two translations give physical addresses in the same frame,
  they are of the same thread and the same virtual page.\<close>

theorem Translate_isolated:
  assumes "frames_ok m" "sz1 \<in> {1, 2, 4}" "sz2 \<in> {1, 2, 4}"
    and "Translate va1 sz1 w1 tid1 m = Ok (Inr pa1, m1)" "Translate va2 sz2 w2 tid2 m = Ok (Inr pa2, m2)"
    and "uint pa1 div PageSize = uint pa2 div PageSize"
  shows "tid1 = tid2 \<and> va1 div word_of_int PageSize = va2 div word_of_int PageSize"
proof -
  obtain i1 where 1: "frame_of m (va1 div 128) tid1 = Some i1" "i1 < 32" "pa1 = word_of_nat (phys i1 va1)"
    using assms(1,2,4) by (rule Translate_Inr)
  obtain i2 where 2: "frame_of m (va2 div 128) tid2 = Some i2" "i2 < 32" "pa2 = word_of_nat (phys i2 va2)"
    using assms(1,3,5) by (rule Translate_Inr)
  have "uint pa1 div 128 = int i1" "uint pa2 div 128 = int i2"
    using 1 2 phys_word(2)[of i1 va1] phys_word(2)[of i2 va2] by (simp_all add: uint_nat phys_def)
  then have "i1 = i2" using assms(6) by (simp add: mem_defs)
  then show ?thesis using frame_of_Some(2)[OF 1(1)] frame_of_Some(2)[OF 2(1)] by (simp add: maps_def mem_defs)
qed

text \<open>A machine with two pages in memory: page 7 of thread 0 in frame 0 and page 7 of thread 1 in
  frame 1.\<close>

definition two_pages :: Machine where
  "two_pages = \<lparr>mainMemory = replicate 4096 0,
     rt_page_table = map (\<lambda>i. \<lparr>virtualPage = 7, physicalPage = word_of_nat i, valid = (i < 2),
       readOnly = False, use = False, dirty = False, LRU = -1, rt_tid = int i\<rparr>) [0..<32],
     registers = replicate 40 0, memoryBitmap = replicate 32 False, tlb = None, tlbTimes = 0, tlbHits = 0,
     tlbsize = 0, pageTable = NullTable, pageTableSize = 0, singleStep = False, runUntilTime = 0\<rparr>"

lemma frames_ok_two_pages: "frames_ok two_pages"
  by (simp add: frames_ok_def two_pages_def mem_defs)

lemma frame_of_two_pages: "t < 2 \<Longrightarrow> frame_of two_pages 7 (int t) = Some t"
  by (auto simp: frame_of_def two_pages_def maps_def find_Some_iff intro!: exI[of _ t])


lemma Translate_two_pages:
  assumes "va div 128 = 7" "va AND 3 = 0" "t < 2"
  shows "\<exists>m'. Translate va 4 w (int t) two_pages = Ok (Inr (word_of_nat (phys t va)), m')"
proof -
  have "\<not> readOnly (rt_page_table two_pages ! t)" using assms(3) by (simp add: two_pages_def)
  then show ?thesis
    using assms frame_of_two_pages[OF assms(3)] unfolding Translate_spec[OF frames_ok_two_pages, of 4, simplified]
    by (simp add: aligned_def)
qed

theorem Translate_isolated_witness:
  "\<exists>m1 m2. Translate 900 4 True 1 two_pages = Ok (Inr (word_of_nat (phys 1 900)), m1) \<and>
     Translate 904 4 False 1 two_pages = Ok (Inr (word_of_nat (phys 1 904)), m2) \<and>
     (1::int) = 1 \<and> (900 :: u32) div word_of_int PageSize = 904 div word_of_int PageSize"
proof -
  obtain m1 m2 where t: "Translate 900 4 True 1 two_pages = Ok (Inr (word_of_nat (phys 1 900)), m1)"
    "Translate 904 4 False 1 two_pages = Ok (Inr (word_of_nat (phys 1 904)), m2)"
    using Translate_two_pages[of 900 1 True] Translate_two_pages[of 904 1 False] by auto
  have "uint (word_of_nat (phys 1 900) :: u32) div PageSize = uint (word_of_nat (phys 1 904) :: u32) div PageSize"
    by (simp add: phys_def mem_defs)
  with Translate_isolated[OF frames_ok_two_pages _ _ t] t show ?thesis by auto
qed

subsection \<open>Loads and stores\<close>

lemma load_store:
  assumes "store sz (int a) v mem = Ok mem'" "sz \<in> {1, 2, 4}"
  shows "load sz (int a) mem' = Ok (if sz = 1 then scast (ucast v :: byte)
    else if sz = 2 then ucast (ucast v :: u16) else v)"
proof -
  have read: "mem_read (length bs) (int a) (overwrite a bs mem) = Ok bs" if "a + length bs \<le> length mem" for bs
    using that by (simp add: mem_read_def overwrite_def)
  have mask: "v AND 0xff = take_bit 8 v" "v AND 0xffff = take_bit 16 v"
    by (simp_all add: take_bit_eq_mask mask_eq_exp_minus_1)
  have "ucast (v AND 0xff) = (ucast v :: byte)" "ucast (v AND 0xffff) = (ucast v :: u16)"
    unfolding mask by (rule bit_eqI, auto simp: bit_simps)+
  with assms read[of "u16_to_le (ucast v)"] read[of "u32_to_le v"] show ?thesis
    by (auto simp: load_def store_def mem_write_def ShortToHost_def ShortToMachine_def WordToHost_def
        WordToMachine_def aset_def split: if_splits)
qed

text \<open>C30. Memory returns what was stored: after a successful store of 1, 2 or 4 bytes, a load of the same
  size from the same virtual address succeeds and gives the value, cut to the size and extended
  to a register.\<close>

theorem ReadMem_after_WriteMem:
  assumes "machine s = Some m" "frames_ok m" "sz \<in> {1, 2, 4}"
    and "WriteMem eh a sz v s = Ok (True, s')"
  shows "\<exists>s''. ReadMem eh' a sz s' = Ok (Some (if sz = 1 then scast (ucast v :: byte)
    else if sz = 2 then ucast (ucast v :: u16) else v), s'')"
proof -
  from assms(1,4) obtain tid r m1 where t: "current_tid s = Ok tid" "Translate a sz True tid m = Ok (r, m1)"
    by (auto simp: WriteMem_def result_simps mach_get_def Let_def)
  with assms(1,4) obtain pa mem where w: "current_tid s = Ok tid"
    "Translate a sz True tid m = Ok (Inr pa, m1)" "store sz (sint pa) v (mainMemory m1) = Ok mem"
    "s' = s\<lparr>machine := Some (m1\<lparr>mainMemory := mem\<rparr>)\<rparr>"
    by (cases r) (auto simp: WriteMem_def result_simps mach_get_def Let_def)
  obtain i where i: "aligned a sz" "frame_of m (a div 128) tid = Some i" "i < 32" "pa = word_of_nat (phys i a)"
    "m1 = touch True i (m\<lparr>tlbTimes := tlbTimes m + 1\<rparr>)"
    using assms(2,3) w(2) by (rule Translate_Inr)
  let ?m = "m1\<lparr>mainMemory := mem\<rparr>"
  have "length mem = length (mainMemory m1)"
    using w(3) by (auto simp: store_def mem_write_def result_simps split: if_splits)
  then have ok: "frames_ok ?m" using assms(2) i(5) frames_ok_touch[of "m\<lparr>tlbTimes := tlbTimes m + 1\<rparr>" True i]
    by (simp add: frames_ok_def)
  have "frame_of ?m = frame_of m1" by (simp add: frame_of_def fun_eq_iff)
  then have "frame_of ?m (a div 128) tid = Some i" using i(2,5) by simp
  then have "Translate a sz False tid ?m = Ok (Inr pa, touch False i (?m\<lparr>tlbTimes := tlbTimes ?m + 1\<rparr>))"
    using i(1,4) unfolding Translate_spec[OF ok assms(3)] by simp
  moreover have "sint pa = int (phys i a)" using i(3,4) phys_word(3) by simp
  moreover have "current_tid s' = Ok tid" using w(1,4) by (simp add: current_tid_def)
  ultimately show ?thesis
    using w(3,4) load_store[of sz "phys i a" v "mainMemory m1" mem] assms(3)
    by (simp add: ReadMem_def mach_get_def Let_def touch_def)
qed

subsection \<open>Paging\<close>

definition page :: "nat \<Rightarrow> byte list \<Rightarrow> byte list" where
  "page k bs = take 128 (drop (128 * k) bs)"

definition put_page :: "nat \<Rightarrow> byte list \<Rightarrow> byte list \<Rightarrow> byte list" where
  "put_page k p bs = overwrite (128 * k) p bs"

definition has_page :: "nat \<Rightarrow> byte list \<Rightarrow> bool" where
  "has_page k bs \<longleftrightarrow> 128 * k + 128 \<le> length bs"

lemma length_page: "has_page k bs \<Longrightarrow> length (page k bs) = 128"
  by (simp add: page_def has_page_def)

lemma page_put_page:
  assumes "has_page k bs" "has_page j bs" "length p = 128"
  shows "page j (put_page k p bs) = (if j = k then p else page j bs)"
proof (rule nth_equalityI)
  have len: "length (put_page k p bs) = length bs" using assms by (simp add: put_page_def has_page_def)
  then show "length (page j (put_page k p bs)) = length (if j = k then p else page j bs)"
    using assms length_page[of j bs] length_page[of j "put_page k p bs"] by (simp add: has_page_def)
  fix n assume "n < length (page j (put_page k p bs))"
  then have n: "n < 128" by (simp add: page_def)
  have "(128 * k \<le> 128 * j + n \<and> 128 * j + n < 128 * k + 128) = (j = k)"
    using n by (cases j k rule: linorder_cases) linarith+
  moreover have "overwrite (128 * k) p bs ! (128 * j + n) =
      (if 128 * k \<le> 128 * j + n \<and> 128 * j + n < 128 * k + 128 then p ! (128 * j + n - 128 * k) else bs ! (128 * j + n))"
    using assms n by (subst nth_overwrite) (simp_all add: has_page_def)
  ultimately show "page j (put_page k p bs) ! n = (if j = k then p else page j bs) ! n"
    using assms n by (simp add: page_def put_page_def has_page_def)
qed

lemma has_page_put [simp]: "has_page k bs \<Longrightarrow> length p = 128 \<Longrightarrow> has_page j (put_page k p bs) = has_page j bs"
  by (simp add: has_page_def put_page_def)

lemma copy_page:
  assumes "has_page k src" "has_page j dst"
  shows "copy_loop [0..PageSize - 1] src (int (128 * k)) dst (int (128 * j)) = Ok (put_page j (page k src) dst)"
proof -
  have "[0..PageSize - 1] = map int [0..<128]" using upto_int[of 128] by (simp add: mem_defs)
  moreover have "copy_loop (map int [0..<128]) src (int (128 * k)) dst (int (128 * j)) =
      Ok (overwrite (nat (int (128 * j))) (take 128 (drop (nat (int (128 * k))) src)) dst)"
    using assms by (intro copy_loop_spec) (simp_all add: has_page_def)
  ultimately show ?thesis by (simp only: put_page_def page_def nat_int)
qed

lemma vdisk_of_update:
  "vdisk_of t (s\<lparr>vdisks := (vdisks s)(d := Some bs)\<rparr>) =
     (case vdisk_of t s of Err e \<Rightarrow> Err e | Ok (d', bs') \<Rightarrow> Ok (d', if d' = d then bs else bs'))"
  if "\<exists>t' bs'. vdisk_of t' s = Ok (d, bs')"
proof -
  have "vdisks s d \<noteq> None" using that by (auto simp: vdisk_of_def result_simps)
  then show ?thesis
    by (auto simp: vdisk_of_def the_nonnull_def the_ptr_def aget_def split: option.splits)
qed

text \<open>
  The page of a thread as its program sees it: the frame that holds it, else the thread's disk.
  Paging is coherent when every page in memory has its place on its thread's disk and equals it
  unless it is dirty, no page is in memory twice and no two threads use the same disk.
\<close>

definition vm_page :: "'a kern_scheme \<Rightarrow> Machine \<Rightarrow> int \<Rightarrow> u32 \<Rightarrow> byte list" where
  "vm_page s m tid vpn =
     (case frame_of m vpn tid of
        Some i \<Rightarrow> page i (mainMemory m)
      | None \<Rightarrow> (case vdisk_of tid s of Ok (d, bs) \<Rightarrow> page (unat vpn) bs | Err _ \<Rightarrow> []))"

definition vm_has :: "'a kern_scheme \<Rightarrow> int \<Rightarrow> u32 \<Rightarrow> bool" where
  "vm_has s tid vpn \<longleftrightarrow> (\<exists>d bs. vdisk_of tid s = Ok (d, bs) \<and> has_page (unat vpn) bs \<and> length bs < 2 ^ 31)"

definition coherent :: "'a kern_scheme \<Rightarrow> Machine \<Rightarrow> bool" where
  "coherent s m \<longleftrightarrow>
     (\<forall>i<32. let e = rt_page_table m ! i in valid e \<longrightarrow> vm_has s (rt_tid e) (virtualPage e) \<and>
        (\<not> dirty e \<longrightarrow> (\<forall>d bs. vdisk_of (rt_tid e) s = Ok (d, bs) \<longrightarrow>
            page i (mainMemory m) = page (unat (virtualPage e)) bs))) \<and>
     (\<forall>i<32. \<forall>j<32. valid (rt_page_table m ! i) \<and> valid (rt_page_table m ! j) \<and>
        virtualPage (rt_page_table m ! i) = virtualPage (rt_page_table m ! j) \<and>
        rt_tid (rt_page_table m ! i) = rt_tid (rt_page_table m ! j) \<longrightarrow> i = j) \<and>
     (\<forall>t t' d bs bs'. vdisk_of t s = Ok (d, bs) \<and> vdisk_of t' s = Ok (d, bs') \<longrightarrow> t = t')"

lemma coherentD:
  assumes "coherent s m"
  shows "i < 32 \<Longrightarrow> valid (rt_page_table m ! i) \<Longrightarrow>
      vm_has s (rt_tid (rt_page_table m ! i)) (virtualPage (rt_page_table m ! i))"
    "i < 32 \<Longrightarrow> valid (rt_page_table m ! i) \<Longrightarrow> \<not> dirty (rt_page_table m ! i) \<Longrightarrow>
      vdisk_of (rt_tid (rt_page_table m ! i)) s = Ok (d, bs) \<Longrightarrow>
      page i (mainMemory m) = page (unat (virtualPage (rt_page_table m ! i))) bs"
    "i < 32 \<Longrightarrow> j < 32 \<Longrightarrow> maps (rt_page_table m ! i) v t \<Longrightarrow> maps (rt_page_table m ! j) v t \<Longrightarrow> i = j"
    "vdisk_of t s = Ok (d, bs) \<Longrightarrow> vdisk_of t' s = Ok (d, bs') \<Longrightarrow> t = t'"
proof -
  note c = assms[unfolded coherent_def Let_def]
  show "i < 32 \<Longrightarrow> valid (rt_page_table m ! i) \<Longrightarrow>
      vm_has s (rt_tid (rt_page_table m ! i)) (virtualPage (rt_page_table m ! i))"
    "i < 32 \<Longrightarrow> valid (rt_page_table m ! i) \<Longrightarrow> \<not> dirty (rt_page_table m ! i) \<Longrightarrow>
      vdisk_of (rt_tid (rt_page_table m ! i)) s = Ok (d, bs) \<Longrightarrow>
      page i (mainMemory m) = page (unat (virtualPage (rt_page_table m ! i))) bs"
    using conjunct1[OF c] by blast+
  show "i = j" if "i < 32" "j < 32" "maps (rt_page_table m ! i) v t" "maps (rt_page_table m ! j) v t"
    using conjunct1[OF conjunct2[OF c], rule_format, of i j] that by (simp add: maps_def)
  show "t = t'" if "vdisk_of t s = Ok (d, bs)" "vdisk_of t' s = Ok (d, bs')"
    using conjunct2[OF conjunct2[OF c], rule_format, of t d bs t' bs'] that by simp
qed

lemma frame_of_iff:
  assumes "coherent s m"
  shows "frame_of m v t = Some j \<longleftrightarrow> j < 32 \<and> maps (rt_page_table m ! j) v t"
proof
  assume j: "j < 32 \<and> maps (rt_page_table m ! j) v t"
  show "frame_of m v t = Some j"
    unfolding frame_of_def find_Some_iff
  proof (intro exI[of _ j] conjI allI impI)
    fix k assume "k < j"
    then show "\<not> maps (rt_page_table m ! ([0..<32] ! k)) v t" using j coherentD(3)[OF assms, of k j v t] by auto
  qed (use j in simp_all)
qed (auto dest: frame_of_Some)

lemma frame_of_None: "frame_of m v t = None \<longleftrightarrow> (\<forall>j<32. \<not> maps (rt_page_table m ! j) v t)"
  by (auto simp: frame_of_def find_None_iff)

lemma first_invalid_range:
  assumes "\<forall>i\<in>set is. i < length es"
  shows "\<exists>p. first_invalid (map int is) es = Ok p \<and> (p = -1 \<or> (\<exists>i\<in>set is. p = int i))"
  using assms by (induction "is") auto

definition saved :: "ReverseTranslationEntry \<Rightarrow> byte list \<Rightarrow> int \<Rightarrow> byte list \<Rightarrow> byte list" where
  "saved e p t bs = (if valid e \<and> dirty e \<and> t = rt_tid e then put_page (unat (virtualPage e)) p bs else bs)"

lemma sint_page:
  assumes "has_page (unat (v :: u32)) bs" "length bs < 2 ^ 31"
  shows "sint v * PageSize = int (128 * unat v)" "uint (v * word_of_int PageSize) = int (128 * unat v)"
proof -
  have lt: "128 * unat v < 2 ^ 31" using assms by (simp add: has_page_def)
  then have "int (128 * unat v) < int (2 ^ 31)" by (simp only: of_nat_less_iff)
  then have "128 * uint v < 2 ^ 31" by (simp only: uint_nat of_nat_mult of_nat_numeral of_nat_power)
  then have "uint v < 2 ^ 31" using uint_ge_0[of v] by linarith
  moreover have "- (2 ^ 31) \<le> uint v" by (rule order_trans[OF _ uint_ge_0]) simp
  ultimately have "sint (word_of_int (uint v) :: u32) = uint v" by (intro sint_of_range)
  then have "sint v = int (unat v)" by simp
  then show "sint v * PageSize = int (128 * unat v)" by (simp add: mem_defs)
  have "v * 128 = (word_of_nat (128 * unat v) :: u32)" by simp
  moreover have "unat (word_of_nat (128 * unat v) :: u32) = 128 * unat v"
    unfolding unat_of_nat using lt by simp
  ultimately show "uint (v * word_of_int PageSize) = int (128 * unat v)"
    by (simp only: mem_defs uint_nat of_int_numeral)
qed

lemma sint_frame: "i < 32 \<Longrightarrow> sint (word_of_nat i :: u32) * PageSize = int (128 * i)"
  using sint_of_range[of "int i"] by (simp add: mem_defs)

lemma write_back:
  assumes "frames_ok m" "coherent s m" "i < 32"
  defines "e \<equiv> rt_page_table m ! i"
  obtains s1 where "replace_save m e s = Ok s1"
    "\<forall>t. vdisk_of t s1 = (case vdisk_of t s of Err f \<Rightarrow> Err f
       | Ok (d, bs) \<Rightarrow> Ok (d, saved e (page i (mainMemory m)) t bs))"
    "current_tid s1 = current_tid s" "machine s1 = machine s"
proof (cases "valid e \<and> dirty e")
  case False
  then show ?thesis using that[of s] by (auto simp: replace_save_def saved_def split: result.splits)
next
  case True
  obtain d bs where d: "vdisk_of (rt_tid e) s = Ok (d, bs)" "has_page (unat (virtualPage e)) bs" "length bs < 2 ^ 31"
    using coherentD(1)[OF assms(2,3)] True by (auto simp: vm_has_def e_def)
  let ?bs = "put_page (unat (virtualPage e)) (page i (mainMemory m)) bs"
  have "has_page i (mainMemory m)" using frames_ok_simps(1)[OF assms(1)] assms(3) by (simp add: has_page_def)
  then have "copy_loop [0..PageSize - 1] (mainMemory m) (sint (physicalPage e) * PageSize)
      bs (sint (virtualPage e) * PageSize) = Ok ?bs"
    unfolding sint_page(1)[OF d(2,3)] frames_ok_simps(3)[OF assms(1,3), folded e_def] sint_frame[OF assms(3)]
    using d(2) by (rule copy_page)
  moreover have "vdisk_of t (s\<lparr>vdisks := (vdisks s)(d := Some ?bs)\<rparr>) =
      (case vdisk_of t s of Err f \<Rightarrow> Err f | Ok (d, bs) \<Rightarrow> Ok (d, saved e (page i (mainMemory m)) t bs))" for t
  proof -
    have "t = rt_tid e" if "vdisk_of t s = Ok (d, bs')" for bs' using coherentD(4)[OF assms(2) that d(1)] .
    moreover have ex: "\<exists>t' bs'. vdisk_of t' s = Ok (d, bs')" using d(1) by blast
    ultimately show ?thesis
      unfolding vdisk_of_update[OF ex] using True d(1)
      by (cases "vdisk_of t s") (auto simp: saved_def)
  qed
  ultimately show ?thesis
    using that[of "s\<lparr>vdisks := (vdisks s)(d := Some ?bs)\<rparr>"] True d(1) by (simp add: replace_save_def current_tid_def)
qed

lemma victim:
  assumes "frames_ok m" "\<forall>n. 0 \<le> random_src s n"
  obtains i s0 where "i < 32" "replace_victim m s = Ok (int i, s0)"
    "\<forall>t. vdisk_of t s0 = vdisk_of t s" "current_tid s0 = current_tid s" "machine s0 = machine s"
proof -
  have "[0..TLBSize - 1] = map int [0..<4]" using upto_int[of 4] by (simp add: mem_defs)
  moreover obtain p where p: "first_invalid (map int [0..<4]) (rt_page_table m) = Ok p"
    "p = -1 \<or> (\<exists>i\<in>set [0..<4]. p = int i)"
    using first_invalid_range[of "[0..<4]" "rt_page_table m"] frames_ok_simps(2)[OF assms(1)] by auto
  ultimately have fi: "first_invalid [0..TLBSize - 1] (rt_page_table m) = Ok p" by simp
  show ?thesis
  proof (cases "p = -1")
    case True
    let ?r = "random_src s (random_pos s) mod 32"
    have "0 \<le> ?r" "?r < 32" by simp_all
    moreover have "random_src s (random_pos s) smod NumPhysPages = ?r"
      using assms(2) by (simp add: smod_nonneg mem_defs)
    moreover have "vdisk_of t (s\<lparr>random_pos := Suc (random_pos s)\<rparr>) = vdisk_of t s" for t
      by (simp add: vdisk_of_def)
    moreover have "current_tid (s\<lparr>random_pos := Suc (random_pos s)\<rparr>) = current_tid s" by (simp add: current_tid_def)
    ultimately show ?thesis
      using that[of "nat ?r" "s\<lparr>random_pos := Suc (random_pos s)\<rparr>"] True fi by (simp add: replace_victim_def Random_def)
  next
    case False
    then obtain i where "i < 4" "p = int i" using p(2) by auto
    then show ?thesis using that[of i s] False fi by (simp add: replace_victim_def)
  qed
qed

definition evict :: "nat \<Rightarrow> u32 \<Rightarrow> int \<Rightarrow> byte list \<Rightarrow> Machine \<Rightarrow> Machine" where
  "evict i vpn tid p m = m\<lparr>mainMemory := put_page i p (mainMemory m),
     rt_page_table := (rt_page_table m)[i := (rt_page_table m ! i)
       \<lparr>virtualPage := vpn, valid := True, dirty := False, rt_tid := tid\<rparr>]\<rparr>"

lemma saved_page:
  assumes "coherent s m" "i < 32" "vdisk_of t s = Ok (d, bs)" "length p = 128"
  shows "length (saved (rt_page_table m ! i) p t bs) = length bs"
    "has_page k bs \<Longrightarrow> page k (saved (rt_page_table m ! i) p t bs) =
       (if valid (rt_page_table m ! i) \<and> dirty (rt_page_table m ! i) \<and> t = rt_tid (rt_page_table m ! i) \<and>
           k = unat (virtualPage (rt_page_table m ! i)) then p else page k bs)"
proof -
  let ?e = "rt_page_table m ! i"
  have "has_page (unat (virtualPage ?e)) bs" if "valid ?e" "t = rt_tid ?e"
    using coherentD(1)[OF assms(1,2) that(1)] that(2) assms(3) by (auto simp: vm_has_def)
  then show "length (saved ?e p t bs) = length bs" "has_page k bs \<Longrightarrow> page k (saved ?e p t bs) =
       (if valid ?e \<and> dirty ?e \<and> t = rt_tid ?e \<and> k = unat (virtualPage ?e) then p else page k bs)"
    using assms(4) by (auto simp: saved_def page_put_page) (simp add: put_page_def has_page_def)
qed

lemma ReverseTableReplace_evicts:
  assumes "machine s = Some m" "frames_ok m" "coherent s m" "\<forall>n. 0 \<le> random_src s n"
    and "current_tid s = Ok tid" "vm_has s tid (va div 128)"
  obtains i s' d bs where "ReverseTableReplace va s = Ok s'" "i < 32" "vdisk_of tid s = Ok (d, bs)"
    "machine s' = Some (evict i (va div 128) tid
       (page (unat (va div 128)) (saved (rt_page_table m ! i) (page i (mainMemory m)) tid bs)) m)"
    "\<forall>t. vdisk_of t s' = (case vdisk_of t s of Err f \<Rightarrow> Err f
       | Ok (d, bs) \<Rightarrow> Ok (d, saved (rt_page_table m ! i) (page i (mainMemory m)) t bs))"
proof -
  let ?vpn = "va div 128"
  obtain i s0 where i: "i < 32" "replace_victim m s = Ok (int i, s0)"
    "\<forall>t. vdisk_of t s0 = vdisk_of t s" "current_tid s0 = current_tid s" "machine s0 = machine s"
    using victim[OF assms(2,4)] by blast
  let ?e = "rt_page_table m ! i" and ?p = "page i (mainMemory m)"
  have "coherent s0 m" using assms(3) by (simp add: coherent_def vm_has_def i(3))
  from write_back[OF assms(2) this i(1)] obtain s1 where s0: "replace_save m ?e s0 = Ok s1"
    "\<forall>t. vdisk_of t s1 = (case vdisk_of t s0 of Err f \<Rightarrow> Err f | Ok (d, bs) \<Rightarrow> Ok (d, saved ?e ?p t bs))"
    "current_tid s1 = current_tid s0" by blast
  then have s1: "replace_save m ?e s0 = Ok s1"
    "\<forall>t. vdisk_of t s1 = (case vdisk_of t s of Err f \<Rightarrow> Err f | Ok (d, bs) \<Rightarrow> Ok (d, saved ?e ?p t bs))"
    "current_tid s1 = Ok tid" using i(3,4) assms(5) by simp_all
  obtain d bs where d: "vdisk_of tid s = Ok (d, bs)" "has_page (unat ?vpn) bs" "length bs < 2 ^ 31"
    using assms(6) by (auto simp: vm_has_def)
  have mem: "has_page i (mainMemory m)" "length ?p = 128"
    using frames_ok_simps(1)[OF assms(2)] i(1) by (simp_all add: has_page_def length_page)
  let ?bs = "saved ?e ?p tid bs"
  have bs: "has_page (unat ?vpn) ?bs" "length ?bs < 2 ^ 31"
    using saved_page[OF assms(3) i(1) d(1) mem(2)] d(2,3) by (simp_all add: has_page_def)
  have "copy_loop [0..PageSize - 1] ?bs (uint (?vpn * word_of_int PageSize)) (mainMemory m)
      (sint (physicalPage ?e) * PageSize) = Ok (put_page i (page (unat ?vpn) ?bs) (mainMemory m))"
    unfolding sint_page(2)[OF bs] frames_ok_simps(3)[OF assms(2) i(1)] sint_frame[OF i(1)]
    using bs(1) mem(1) by (rule copy_page)
  then have load: "replace_load ?vpn (int i) m ?e s1 =
      Ok (s1\<lparr>machine := Some (evict i ?vpn tid (page (unat ?vpn) ?bs) m)\<rparr>)"
    using s1(2) s1(3) d(1) i(1) frames_ok_simps(2)[OF assms(2)]
    by (simp add: replace_load_def evict_def)
  let ?s = "s1\<lparr>machine := Some (evict i ?vpn tid (page (unat ?vpn) ?bs) m)\<rparr>"
  have "ReverseTableReplace va s = Ok ?s"
    using assms(1) i s1(1) load frames_ok_simps(2)[OF assms(2)]
    by (simp add: ReverseTableReplace_def mach_get_def mem_defs)
  moreover have "vdisk_of t ?s = vdisk_of t s1" for t by (simp add: vdisk_of_def)
  ultimately show ?thesis using that[of ?s i d bs] i(1) d(1) s1(2) by simp
qed

lemma maps_evict:
  assumes "frames_ok m" "i < 32" "j < 32"
  shows "maps (rt_page_table (evict i vpn tid p m) ! j) v t =
    (if j = i then v = vpn \<and> t = tid else maps (rt_page_table m ! j) v t)"
  using assms frames_ok_simps(2)[OF assms(1)] by (auto simp: evict_def maps_def)

lemma frames_ok_evict:
  assumes "frames_ok m" "i < 32" "length p = 128"
  shows "frames_ok (evict i vpn tid p m)"
  using assms frames_ok_simps[OF assms(1)]
  by (simp add: frames_ok_def evict_def update_nth_same[where f = physicalPage] put_page_def)

lemma page_evict:
  assumes "frames_ok m" "i < 32" "j < 32" "length p = 128"
  shows "page j (mainMemory (evict i vpn tid p m)) = (if j = i then p else page j (mainMemory m))"
  using assms frames_ok_simps(1)[OF assms(1)] by (simp add: evict_def page_put_page has_page_def)

lemma vm_has_saved:
  assumes "coherent s m" "i < 32" "length p = 128"
    "\<forall>t. vdisk_of t s' = (case vdisk_of t s of Err f \<Rightarrow> Err f | Ok (d, bs) \<Rightarrow> Ok (d, saved (rt_page_table m ! i) p t bs))"
  shows "vm_has s' t v = vm_has s t v"
proof (cases "vdisk_of t s")
  case (Ok x)
  obtain d bs where x: "x = (d, bs)" by fastforce
  have "length (saved (rt_page_table m ! i) p t bs) = length bs"
    using saved_page(1)[OF assms(1,2) _ assms(3)] Ok x by simp
  then show ?thesis using assms(4) Ok x by (simp add: vm_has_def has_page_def)
qed (use assms(4) in \<open>simp add: vm_has_def\<close>)

lemma coherent_evict:
  assumes "frames_ok m" "coherent s m" "i < 32" "frame_of m vpn tid = None"
    and d: "vdisk_of tid s = Ok (d, bs)" "vm_has s tid vpn"
    and rel: "\<forall>t. vdisk_of t s' = (case vdisk_of t s of Err f \<Rightarrow> Err f
       | Ok (d, bs) \<Rightarrow> Ok (d, saved (rt_page_table m ! i) (page i (mainMemory m)) t bs))"
  defines "p \<equiv> page (unat vpn) (saved (rt_page_table m ! i) (page i (mainMemory m)) tid bs)"
  shows "coherent s' (evict i vpn tid p m)"
proof -
  let ?m = "evict i vpn tid p m" and ?e = "rt_page_table m ! i" and ?q = "page i (mainMemory m)"
  note len32 = frames_ok_simps(2)[OF assms(1)]
  have q: "length ?q = 128" using frames_ok_simps(1)[OF assms(1)] assms(3) by (simp add: length_page has_page_def)
  note has = vm_has_saved[OF assms(2,3) q rel]
  have lp: "length p = 128"
    using d saved_page(1)[OF assms(2,3) d(1) q] unfolding p_def by (intro length_page) (simp add: vm_has_def has_page_def)
  have nm: "\<not> maps (rt_page_table m ! j) vpn tid" if "j < 32" for j using assms(4) that by (simp add: frame_of_None)
  have entry: "rt_page_table ?m ! j = (if j = i then ?e\<lparr>virtualPage := vpn, valid := True, dirty := False, rt_tid := tid\<rparr>
      else rt_page_table m ! j)" if "j < 32" for j
    using that assms(3) len32 by (simp add: evict_def)
  have "page j (mainMemory ?m) = page (unat (virtualPage (rt_page_table ?m ! j))) b"
    if j: "j < 32" "valid (rt_page_table ?m ! j)" "\<not> dirty (rt_page_table ?m ! j)"
      "vdisk_of (rt_tid (rt_page_table ?m ! j)) s' = Ok (d', b)" for j d' b
  proof (cases "j = i")
    case True
    then show ?thesis using j d(1) rel entry[OF j(1)] page_evict[OF assms(1,3) j(1) lp] by (simp add: p_def)
  next
    case False
    let ?f = "rt_page_table m ! j"
    have f: "rt_page_table ?m ! j = ?f" using entry[OF j(1)] False by simp
    obtain c where c: "vdisk_of (rt_tid ?f) s = Ok (d', c)" "b = saved ?e ?q (rt_tid ?f) c"
      using j(4) rel unfolding f by (auto split: result.splits)
    have "\<not> (valid ?e \<and> rt_tid ?f = rt_tid ?e \<and> unat (virtualPage ?f) = unat (virtualPage ?e))"
      using coherentD(3)[OF assms(2,3) j(1), of "virtualPage ?e" "rt_tid ?e"] False j(2) unfolding f
      by (auto simp: maps_def simp flip: word_unat_eq_iff)
    moreover have "has_page (unat (virtualPage ?f)) c"
      using coherentD(1)[OF assms(2) j(1)] j(2) c(1) unfolding f by (auto simp: vm_has_def)
    ultimately have "page (unat (virtualPage ?f)) b = page (unat (virtualPage ?f)) c"
      using saved_page(2)[OF assms(2,3) c(1) q] c(2) by auto
    then show ?thesis
      using coherentD(2)[OF assms(2) j(1) _ _ c(1)] j(2,3) False page_evict[OF assms(1,3) j(1) lp] unfolding f by simp
  qed
  moreover have "vm_has s' (rt_tid (rt_page_table ?m ! j)) (virtualPage (rt_page_table ?m ! j))"
    if "j < 32" "valid (rt_page_table ?m ! j)" for j
    using that entry[OF that(1)] d(2) coherentD(1)[OF assms(2) that(1)] unfolding has by (auto split: if_splits)
  moreover have "j = k" if "j < 32" "k < 32" "maps (rt_page_table ?m ! j) v t" "maps (rt_page_table ?m ! k) v t" for j k v t
    using that nm coherentD(3)[OF assms(2) that(1,2)] unfolding maps_evict[OF assms(1,3) that(1)] maps_evict[OF assms(1,3) that(2)]
    by (auto split: if_splits)
  moreover have "t = t'" if "vdisk_of t s' = Ok (c, b)" "vdisk_of t' s' = Ok (c, b')" for t t' c b b'
    using that rel coherentD(4)[OF assms(2), of t c _ t'] by (auto split: result.splits)
  ultimately show ?thesis unfolding coherent_def Let_def maps_def by blast
qed

lemma vm_page_evict:
  assumes "frames_ok m" "coherent s m" "i < 32" "frame_of m vpn tid = None"
    and d: "vdisk_of tid s = Ok (d, bs)" "vm_has s tid vpn"
    and rel: "\<forall>t. vdisk_of t s' = (case vdisk_of t s of Err f \<Rightarrow> Err f
       | Ok (d, bs) \<Rightarrow> Ok (d, saved (rt_page_table m ! i) (page i (mainMemory m)) t bs))"
    and v: "vm_has s t v"
  defines "p \<equiv> page (unat vpn) (saved (rt_page_table m ! i) (page i (mainMemory m)) tid bs)"
  shows "vm_page s' (evict i vpn tid p m) t v = vm_page s m t v"
proof -
  let ?m = "evict i vpn tid p m" and ?e = "rt_page_table m ! i" and ?q = "page i (mainMemory m)"
  have co: "coherent s' ?m" unfolding p_def by (rule coherent_evict[OF assms(1-4) d rel])
  have q: "length ?q = 128" using frames_ok_simps(1)[OF assms(1)] assms(3) by (simp add: length_page has_page_def)
  have lp: "length p = 128"
    using d saved_page(1)[OF assms(2,3) d(1) q] unfolding p_def by (intro length_page) (simp add: vm_has_def has_page_def)
  obtain c b where c: "vdisk_of t s = Ok (c, b)" "has_page (unat v) b" using v by (auto simp: vm_has_def)
  have c': "vdisk_of t s' = Ok (c, saved ?e ?q t b)" using rel c(1) by simp
  have pg: "page (unat v) (saved ?e ?q t b) = (if maps ?e v t \<and> dirty ?e then ?q else page (unat v) b)"
    using saved_page(2)[OF assms(2,3) c(1) q c(2)] by (auto simp: maps_def simp flip: word_unat_eq_iff)
  have nm: "\<not> maps (rt_page_table m ! j) vpn tid" if "j < 32" for j using assms(4) that by (simp add: frame_of_None)
  note me = maps_evict[OF assms(1,3)] and pe = page_evict[OF assms(1,3) _ lp]
  consider (new) "v = vpn \<and> t = tid" | (old) "\<not> (v = vpn \<and> t = tid)" "maps ?e v t"
    | (other) "\<not> (v = vpn \<and> t = tid)" "\<not> maps ?e v t" by blast
  then show ?thesis
  proof cases
    case new
    then have "frame_of ?m v t = Some i" using assms(3) me[of i] by (simp add: frame_of_iff[OF co])
    then show ?thesis using new assms(4) c(1) d(1) pg nm[OF assms(3)] pe[OF assms(3)] by (simp add: vm_page_def p_def)
  next
    case old
    then have "frame_of m v t = Some i" using assms(3) by (simp add: frame_of_iff[OF assms(2)])
    moreover have "frame_of ?m v t = None"
      using old coherentD(3)[OF assms(2,3) _ old(2)] by (auto simp: frame_of_None me)
    moreover have "?q = page (unat v) b" if "\<not> dirty ?e"
      using coherentD(2)[OF assms(2,3) _ that, of c b] old(2) c(1) by (auto simp: maps_def)
    ultimately show ?thesis using c' pg old(2) by (auto simp: vm_page_def)
  next
    case other
    then have same: "maps (rt_page_table ?m ! j) v t = maps (rt_page_table m ! j) v t" if "j < 32" for j
      using me[OF that] by auto
    show ?thesis
    proof (cases "frame_of m v t")
      case None
      then have "frame_of ?m v t = None" using same by (simp add: frame_of_None)
      with None c c' pg other(2) show ?thesis by (simp add: vm_page_def)
    next
      case (Some j)
      then have "j < 32" "j \<noteq> i" using other(2) by (auto simp: frame_of_iff[OF assms(2)])
      moreover have "frame_of ?m v t = Some j" using Some same by (simp add: frame_of_iff[OF co] frame_of_iff[OF assms(2)])
      ultimately show ?thesis using Some pe[of j] by (simp add: vm_page_def)
    qed
  qed
qed

lemma ReverseTableReplace_spec:
  assumes "machine s = Some m" "frames_ok m" "coherent s m" "\<forall>n. 0 \<le> random_src s n"
    and "current_tid s = Ok tid" "frame_of m (va div 128) tid = None" "vm_has s tid (va div 128)"
  shows "\<exists>s' m'. ReverseTableReplace va s = Ok s' \<and> machine s' = Some m' \<and> frames_ok m' \<and> coherent s' m' \<and>
    frame_of m' (va div 128) tid \<noteq> None \<and> (\<forall>t v. vm_has s t v \<longrightarrow> vm_page s' m' t v = vm_page s m t v)"
proof -
  obtain i s' d bs where r: "ReverseTableReplace va s = Ok s'" "i < 32" "vdisk_of tid s = Ok (d, bs)"
    "machine s' = Some (evict i (va div 128) tid
       (page (unat (va div 128)) (saved (rt_page_table m ! i) (page i (mainMemory m)) tid bs)) m)"
    "\<forall>t. vdisk_of t s' = (case vdisk_of t s of Err f \<Rightarrow> Err f
       | Ok (d, bs) \<Rightarrow> Ok (d, saved (rt_page_table m ! i) (page i (mainMemory m)) t bs))"
    by (rule ReverseTableReplace_evicts[OF assms(1-5,7)])
  let ?p = "page (unat (va div 128)) (saved (rt_page_table m ! i) (page i (mainMemory m)) tid bs)"
  let ?m = "evict i (va div 128) tid ?p m"
  have co: "coherent s' ?m" by (rule coherent_evict[OF assms(2,3) r(2) assms(6) r(3) assms(7) r(5)])
  have "length (page i (mainMemory m)) = 128"
    using frames_ok_simps(1)[OF assms(2)] r(2) by (simp add: length_page has_page_def)
  from saved_page(1)[OF assms(3) r(2,3) this] have "length ?p = 128"
    using assms(7) r(3) by (intro length_page) (simp add: vm_has_def has_page_def)
  then have "frames_ok ?m" by (rule frames_ok_evict[OF assms(2) r(2)])
  moreover have "frame_of ?m (va div 128) tid = Some i"
    using r(2) maps_evict[OF assms(2) r(2) r(2)] by (simp add: frame_of_iff[OF co])
  moreover have "\<forall>t v. vm_has s t v \<longrightarrow> vm_page s' ?m t v = vm_page s m t v"
    using vm_page_evict[OF assms(2,3) r(2) assms(6) r(3) assms(7) r(5)] by blast
  ultimately show ?thesis using r(1,4) co by blast
qed

text \<open>C31. Paging is transparent. On a fault for a page of the current thread, \<open>ReverseTableReplace\<close> returns,
  the page is in memory afterwards, and every page of every thread still reads as before; a
  dirty page that had to leave memory is on its thread's disk. The invariant of the page tables
  and of the threads' disks is kept.\<close>

theorem ReverseTableReplace_transparent:
  assumes "machine s = Some m" "frames_ok m" "coherent s m" "\<forall>n. 0 \<le> random_src s n"
    and "current_tid s = Ok tid" "frame_of m (va div 128) tid = None" "vm_has s tid (va div 128)"
  shows "\<exists>s' m'. ReverseTableReplace va s = Ok s' \<and> machine s' = Some m' \<and> frames_ok m' \<and> coherent s' m' \<and>
    frame_of m' (va div 128) tid \<noteq> None \<and> (\<forall>t v. vm_has s t v \<longrightarrow> vm_page s' m' t v = vm_page s m t v)"
  using assms by (rule ReverseTableReplace_spec)

text \<open>Two threads with a disk of 16 pages each; the second one is running.\<close>

definition two_threads :: kern where
  "two_threads =
     (let th = (\<lambda>tid sp. \<lparr>th_start = None, th_uid = 0, th_tid = tid, th_priority = 255, th_stack = None,
                 th_status = READY, th_name = ''user'', th_userRegisters = replicate 40 0, th_space = Some sp\<rparr>);
          sp = (\<lambda>d. \<lparr>as_disk = Some d, as_pageTable = WildTable, as_numPages = 16\<rparr>)
      in zeroed\<lparr>machine := Some two_pages, threads := [1 \<mapsto> th 0 10, 2 \<mapsto> th 1 11], currentThread := 2,
           thread_poiners := Some 1 # Some 2 # replicate 126 None, spaces := [10 \<mapsto> sp 20, 11 \<mapsto> sp 21],
           vdisks := [20 \<mapsto> replicate 2048 0, 21 \<mapsto> replicate 2048 0]\<rparr>)"

lemma two_threads_disk:
  "vdisk_of 0 two_threads = Ok (20, replicate 2048 0)" "vdisk_of 1 two_threads = Ok (21, replicate 2048 0)"
  "vdisk_of t two_threads = Ok (d, bs) \<Longrightarrow> t = 0 \<and> d = 20 \<or> t = 1 \<and> d = 21"
  by (auto simp: vdisk_of_def two_threads_def Let_def result_simps nth_Cons' split: if_splits)

lemma two_threads_simps:
  "machine two_threads = Some two_pages" "current_tid two_threads = Ok 1" "random_src two_threads n = 0"
  by (simp_all add: two_threads_def current_tid_def Let_def zeroed_def)

lemma coherent_two_threads: "coherent two_threads two_pages"
proof -
  have z: "page k (replicate n 0) = replicate (min 128 (n - 128 * k)) 0" for k n
    by (simp add: page_def)
  have e: "rt_page_table two_pages ! i = \<lparr>virtualPage = 7, physicalPage = word_of_nat i, valid = (i < 2),
       readOnly = False, use = False, dirty = False, LRU = -1, rt_tid = int i\<rparr>" if "i < 32" for i
    using that by (simp add: two_pages_def)
  have i: "i = 0 \<or> i = 1" if "i < 2" for i :: nat using that by auto
  have "unat (7 :: u32) = 7" by simp
  then have "vm_has two_threads (int i) 7 \<and> (\<forall>d bs. vdisk_of (int i) two_threads = Ok (d, bs) \<longrightarrow>
      page i (mainMemory two_pages) = page (unat (7 :: u32)) bs)" if "i < 2" for i
    using i[OF that] by (elim disjE) (simp_all add: vm_has_def two_threads_disk has_page_def z two_pages_def)
  moreover have "t = t'" if "vdisk_of t two_threads = Ok (d, bs)" "vdisk_of t' two_threads = Ok (d, bs')" for t t' d bs bs'
    using two_threads_disk(3)[OF that(1)] two_threads_disk(3)[OF that(2)] by auto
  ultimately show ?thesis unfolding coherent_def Let_def by (simp add: e)
qed

theorem ReverseTableReplace_transparent_witness:
  "frame_of two_pages (0 div 128) 1 = None \<and> vm_has two_threads 1 (0 div 128) \<and>
   (\<exists>s' m'. ReverseTableReplace 0 two_threads = Ok s' \<and> machine s' = Some m' \<and> frames_ok m' \<and> coherent s' m' \<and>
    frame_of m' (0 div 128) 1 \<noteq> None \<and>
    (\<forall>t v. vm_has two_threads t v \<longrightarrow> vm_page s' m' t v = vm_page two_threads two_pages t v))"
proof -
  have "frame_of two_pages (0 div 128) 1 = None" by (auto simp: frame_of_None maps_def two_pages_def)
  moreover have "vm_has two_threads 1 (0 div 128)" by (simp add: vm_has_def two_threads_disk has_page_def)
  ultimately show ?thesis
    using ReverseTableReplace_transparent[OF two_threads_simps(1) frames_ok_two_pages coherent_two_threads _ two_threads_simps(2), of 0]
      two_threads_simps(3) by simp
qed

theorem ReadMem_after_WriteMem_witness:
  "\<exists>s' s''. WriteMem (\<lambda>_ _. Err Halted) 900 4 0xcafe two_threads = Ok (True, s') \<and>
     ReadMem (\<lambda>_ _. Err Halted) 900 4 s' = Ok (Some 0xcafe, s'')"
proof -
  obtain m1 where t: "Translate 900 4 True 1 two_pages = Ok (Inr (word_of_nat (phys 1 900)), m1)"
    using Translate_two_pages[of 900 1 True] by auto
  obtain i where "m1 = touch True i (two_pages\<lparr>tlbTimes := tlbTimes two_pages + 1\<rparr>)"
    using Translate_Inr[OF frames_ok_two_pages _ t] by auto
  then have "mainMemory m1 = replicate 4096 0" by (simp add: touch_def two_pages_def)
  then have "\<exists>s'. WriteMem (\<lambda>_ _. Err Halted) 900 4 0xcafe two_threads = Ok (True, s')"
    using t two_threads_simps by (simp add: WriteMem_def mach_get_def store_def mem_write_def phys_def)
  then show ?thesis
    using ReadMem_after_WriteMem[OF two_threads_simps(1) frames_ok_two_pages, of 4] by fastforce
qed

end
