(* ===== verification/Mips_Facts.thy ===== *)
theory Mips_Facts
  imports Mips Virtual_Memory
begin

text \<open>
  Facts on the instruction simulator: the multiplication loop computes the double-word product,
  decoding is total on the implemented instructions, register zero stays zero, and the
  arithmetic instructions compute what the MIPS manual says or trap, with the exceptions that
  the source has.
\<close>

subsection \<open>The product\<close>

definition dword :: "u32 \<Rightarrow> u32 \<Rightarrow> int" where
  "dword hi lo = uint hi * 2 ^ 32 + uint lo"

lemma uint_bounds32: "0 \<le> uint (w :: u32)" "uint (w :: u32) < 2 ^ 32"
  using uint_lt2p[of w] by simp_all

lemma dword_mod_hi: "(uint (word_of_int x :: u32) * 2 ^ 32 + y) mod 2 ^ 64 = (x * 2 ^ 32 + y) mod 2 ^ 64"
proof -
  have "(x mod 2 ^ 32 * 2 ^ 32) mod 2 ^ 64 = (x * 2 ^ 32) mod (2 ^ 64 :: int)"
    by (simp add: mult_mod_left mod_mod_cancel flip: power_add)
  moreover have "uint (word_of_int x :: u32) = x mod 2 ^ 32" by (simp add: uint_word_of_int)
  ultimately show ?thesis using mod_add_cong[OF _ refl] by metis
qed

lemma dword_add:
  "dword (hi + (if lo + bLo < bLo then 1 else 0) + bHi) (lo + bLo) mod 2 ^ 64 =
   (dword hi lo + dword bHi bLo) mod 2 ^ 64"
proof -
  let ?c = "if lo + bLo < bLo then 1 else 0 :: int"
  have lo: "uint (lo + bLo) = uint lo + uint bLo - ?c * 2 ^ 32"
    using uint_bounds32[of lo] uint_bounds32[of bLo]
    by (auto simp: uint_plus_if' word_less_def split: if_splits)
  have hi: "hi + (if lo + bLo < bLo then 1 else 0) + bHi = word_of_int (uint hi + ?c + uint bHi)"
    by simp
  show ?thesis unfolding dword_def hi dword_mod_hi lo by (simp add: algebra_simps)
qed

lemma dword_double:
  "dword (if bLo AND 0x80000000 \<noteq> 0 then push_bit 1 bHi OR 1 else push_bit 1 bHi) (push_bit 1 bLo) mod 2 ^ 64 =
   (2 * dword bHi bLo) mod 2 ^ 64"
proof -
  let ?c = "if bLo AND 0x80000000 \<noteq> 0 then 1 else 0 :: int"
  have "(bLo AND 0x80000000 \<noteq> 0) = bit bLo 31"
    using and_exp_eq_0_iff_not_bit[of bLo 31] by simp
  also have "\<dots> = (2 ^ 31 \<le> uint bLo)"
  proof -
    have "uint bLo div 2 ^ 31 = (if 2 ^ 31 \<le> uint bLo then 1 else 0)"
      using uint_bounds32[of bLo] by (auto simp: div_eq_0_iff intro!: div_pos_pos_trivial)
    moreover have "bit bLo 31 = odd (uint bLo div 2 ^ 31)"
      using bit_uint_iff[of bLo 31] by (simp add: bit_iff_odd[of "uint bLo"])
    ultimately show ?thesis by simp
  qed
  finally have top: "(bLo AND 0x80000000 \<noteq> 0) = (2 ^ 31 \<le> uint bLo)" .
  have dbl: "push_bit 1 w = w + w" for w :: u32 by (simp add: push_bit_eq_mult)
  have lo: "uint (push_bit 1 bLo) = 2 * uint bLo - ?c * 2 ^ 32"
    using uint_bounds32[of bLo] uint_plus_if'[of bLo bLo] unfolding top dbl by simp
  have hi: "(if bLo AND 0x80000000 \<noteq> 0 then push_bit 1 bHi OR 1 else push_bit 1 bHi) = word_of_int (2 * uint bHi + ?c)"
    by (simp add: or_one_eq dbl)
  show ?thesis unfolding dword_def hi dword_mod_hi lo by (simp add: algebra_simps)
qed

lemma mult_loop_spec:
  "case mult_loop n a bHi bLo hi lo of (h, l) \<Rightarrow>
     dword h l mod 2 ^ 64 = (dword hi lo + dword bHi bLo * take_bit n (sint a)) mod 2 ^ 64"
proof (induction n arbitrary: a bHi bLo hi lo)
  case 0
  show ?case by simp
next
  case (Suc n)
  define c where "c = (a AND 1 \<noteq> 0)"
  define lo' where "lo' = (if c then lo + bLo else lo)"
  define hi' where "hi' = (if c then (if lo + bLo < bLo then hi + 1 else hi) + bHi else hi)"
  have "bit (sint a) 0 = bit a 0" by (simp add: bit_sint_iff)
  then have c: "c = odd (sint a)" unfolding c_def by (simp add: and_one_eq bit_0 odd_iff_mod_2_eq_one)
  have acc: "dword hi' lo' mod 2 ^ 64 = (dword hi lo + dword bHi bLo * of_bool c) mod 2 ^ 64"
    using dword_add[of hi lo bLo bHi] by (auto simp: hi'_def lo'_def)
  have bits: "take_bit (Suc n) (sint a) = of_bool c + 2 * take_bit n (sint a div 2)"
    using c by (simp add: take_bit_Suc mod_2_eq_odd)
  show ?case
  proof (cases "c \<and> a AND 0xfffffffe = 0")
    case True
    have "(1 :: u32) OR 0xfffffffe = - 1" by simp
    then have "a = (a AND 1) OR (a AND 0xfffffffe)" by (metis and.right_neutral bit.conj_disj_distrib)
    with True have "a = 1" by (auto simp: c_def and_one_eq mod_2_eq_odd)
    then have "take_bit (Suc n) (sint a) = 1" by simp
    with True acc show ?thesis by (simp add: c_def lo'_def hi'_def Let_def)
  next
    case False
    define bHi' where "bHi' = (if bLo AND 0x80000000 \<noteq> 0 then push_bit 1 bHi OR 1 else push_bit 1 bHi)"
    have loop: "mult_loop (Suc n) a bHi bLo hi lo = mult_loop n (signed_drop_bit 1 a) bHi' (push_bit 1 bLo) hi' lo'"
      using False by (auto simp: c_def lo'_def hi'_def bHi'_def Let_def)
    have half: "sint (signed_drop_bit 1 a) = sint a div 2" by (simp add: sint_signed_drop_bit_eq drop_bit_Suc)
    have "(dword hi' lo' + dword bHi' (push_bit 1 bLo) * take_bit n (sint a div 2)) mod 2 ^ 64 =
        (dword hi lo + dword bHi bLo * of_bool c + 2 * dword bHi bLo * take_bit n (sint a div 2)) mod 2 ^ 64"
      unfolding bHi'_def by (intro mod_add_cong acc mod_mult_cong dword_double refl)
    also have "\<dots> = (dword hi lo + dword bHi bLo * take_bit (Suc n) (sint a)) mod 2 ^ 64"
      unfolding bits by (simp add: algebra_simps)
    finally have eq: "(dword hi' lo' + dword bHi' (push_bit 1 bLo) * take_bit n (sint a div 2)) mod 2 ^ 64 =
        (dword hi lo + dword bHi bLo * take_bit (Suc n) (sint a)) mod 2 ^ 64" .
    obtain h l where ml: "mult_loop n (signed_drop_bit 1 a) bHi' (push_bit 1 bLo) hi' lo' = (h, l)" by fastforce
    note ih = Suc.IH[where a = "signed_drop_bit 1 a" and bHi = bHi' and bLo = "push_bit 1 bLo" and hi = hi' and lo = lo',
        unfolded ml prod.case half eq]
    show ?thesis unfolding loop ml prod.case by (rule ih)
  qed
qed

lemma dword_range: "0 \<le> dword hi lo" "dword hi lo < 2 ^ 64"
proof -
  have "uint hi \<le> 2 ^ 32 - 1" using uint_bounds32[of hi] by simp
  then have "uint hi * 2 ^ 32 \<le> (2 ^ 32 - 1) * 2 ^ 32" by (rule mult_right_mono) simp
  then show "dword hi lo < 2 ^ 64" using uint_bounds32[of lo] by (simp add: dword_def)
  show "0 \<le> dword hi lo" by (simp add: dword_def)
qed

lemma dword_neg:
  "dword (if NOT lo + 1 = 0 then NOT hi + 1 else NOT hi) (NOT lo + 1) mod 2 ^ 64 = (- dword hi lo) mod 2 ^ 64"
proof -
  have n: "NOT w + 1 = - w" "NOT w = word_of_int (- uint w - 1)" for w :: u32
    by (simp_all add: not_eq_complement)
  have m: "- hi = word_of_int (- uint hi)" by simp
  show ?thesis
  proof (cases "lo = 0")
    case True
    have "(uint (- hi) * 2 ^ 32 + 0) mod 2 ^ 64 = (- uint hi * 2 ^ 32 + 0) mod 2 ^ 64"
      unfolding m by (rule dword_mod_hi)
    with True show ?thesis unfolding n(1) by (simp add: dword_def)
  next
    case False
    have u: "uint (- lo) = 2 ^ 32 - uint lo"
      using False uint_bounds32[of lo] by (simp add: uint_word_ariths zmod_zminus1_eq_if uint_0_iff)
    have "(uint (NOT hi) * 2 ^ 32 + uint (- lo)) mod 2 ^ 64 =
        ((- uint hi - 1) * 2 ^ 32 + uint (- lo)) mod 2 ^ 64"
      unfolding n(2) by (rule dword_mod_hi)
    also have "(- uint hi - 1) * 2 ^ 32 + uint (- lo) = - (uint hi * 2 ^ 32 + uint lo)"
      unfolding u by (simp add: algebra_simps)
    finally show ?thesis using False unfolding n(1) dword_def by simp
  qed
qed

lemma sint_uint_32: "sint (w :: u32) = (if 2 ^ 31 \<le> uint w then uint w - 2 ^ 32 else uint w)"
proof -
  have "sint w = (uint w + 2 ^ 31) mod 2 ^ 32 - 2 ^ 31"
    using int_word_sint[of "uint w", where ?'a = 32] by simp
  moreover have "(uint w + 2 ^ 31) mod 2 ^ 32 = uint w + 2 ^ 31 - (if 2 ^ 31 \<le> uint w then 2 ^ 32 else 0)"
    using uint_bounds32[of w] by (auto intro: mod_pos_pos_trivial simp: mod_add_if_z)
  ultimately show ?thesis by simp
qed

lemma abs_word: "uint (if (w :: u32) <s 0 then - w else w) = \<bar>sint w\<bar>"
proof -
  have "uint (- w) = 2 ^ 32 - uint w" if "2 ^ 31 \<le> uint w"
    using that uint_bounds32[of w] by (simp add: uint_word_ariths zmod_zminus1_eq_if)
  then show ?thesis using uint_bounds32[of w] by (simp add: word_sless_alt sint_uint_32)
qed

lemma mult_loop_32:
  assumes "mult_loop 32 a 0 b 0 0 = (hi, lo)"
  shows "dword hi lo = uint a * uint b mod 2 ^ 64"
proof -
  have "take_bit 32 (sint a) = uint a" by (simp add: uint_sint)
  moreover have "dword 0 0 = 0" "dword 0 b = uint b" by (simp_all add: dword_def)
  moreover have "dword hi lo mod 2 ^ 64 = dword hi lo" using dword_range by (rule mod_pos_pos_trivial)
  ultimately show ?thesis
    using mult_loop_spec[where n = 32 and a = a and bHi = 0 and bLo = b and hi = 0 and lo = 0] unfolding assms by (simp add: mult.commute)
qed

lemma Mult_spec:
  assumes "Mult a b signedArith = (hi, lo)"
  shows "dword hi lo = (if signedArith then sint a * sint b else uint a * uint b) mod 2 ^ 64"
proof (cases "a = 0 \<or> b = 0")
  case True
  with assms show ?thesis by (auto simp: Mult_def dword_def)
next
  case False
  define a' where "a' = (if signedArith \<and> a <s 0 then - a else a)"
  define b' where "b' = (if signedArith \<and> b <s 0 then - b else b)"
  define neg where "neg = (signedArith \<and> ((a <s 0) \<noteq> (b <s 0)))"
  obtain h l where hl: "mult_loop 32 a' 0 b' 0 0 = (h, l)" by fastforce
  have res: "(hi, lo) = (if neg then (if NOT l + 1 = 0 then NOT h + 1 else NOT h, NOT l + 1) else (h, l))"
    using False assms hl by (auto simp: Mult_def a'_def b'_def neg_def Let_def split: if_splits)
  have prod: "dword h l = uint a' * uint b' mod 2 ^ 64" by (rule mult_loop_32[OF hl])
  have "dword hi lo mod 2 ^ 64 = (if neg then - (uint a' * uint b') else uint a' * uint b') mod 2 ^ 64"
    using res dword_neg[of l h] prod by (auto simp: mod_minus_eq split: if_splits)
  also have "(if neg then - (uint a' * uint b') else uint a' * uint b') =
      (if signedArith then sint a * sint b else uint a * uint b)"
  proof -
    have "x <s 0 \<longleftrightarrow> sint x < 0" for x :: u32 by (simp add: word_sless_alt)
    then show ?thesis
      using abs_word[of a] abs_word[of b] by (auto simp: a'_def b'_def neg_def abs_if split: if_splits)
  qed
  finally show ?thesis using mod_pos_pos_trivial[OF dword_range] by simp
qed

text \<open>C35. The multiplication of the simulator, for MULT and for MULTU, leaves the double-word product
  of its operands, read as signed or as unsigned numbers, in the pair of result registers.\<close>

theorem Mult_correct:
  "case Mult a b signedArith of (hi, lo) \<Rightarrow>
     uint hi * 2 ^ 32 + uint lo = (if signedArith then sint a * sint b else uint a * uint b) mod 2 ^ 64"
  using Mult_spec[of a b signedArith] by (auto simp: dword_def split: prod.splits)

subsection \<open>Decoding\<close>

lemma and_0x1f: "unat ((w :: u32) AND 0x1f) < 32"
proof -
  have "w AND 0x1f \<le> 0x1f" by (rule word_and_le1)
  then have "unat (w AND 0x1f) \<le> unat (0x1f :: u32)" by (simp only: word_le_nat_alt)
  then show ?thesis by simp
qed

lemma and_0x3f: "unat ((w :: u32) AND 0x3f) < 64"
proof -
  have "w AND 0x3f \<le> 0x3f" by (rule word_and_le1)
  then have "unat (w AND 0x3f) \<le> unat (0x3f :: u32)" by (simp only: word_le_nat_alt)
  then show ?thesis by simp
qed

lemma Decode_fields: "irs (Decode v) < 32" "irt (Decode v) < 32" "ird (Decode v) < 32"
  using and_0x1f[of "drop_bit 21 v"] and_0x1f[of "drop_bit 16 v"] and_0x1f[of "drop_bit 11 v"]
  by (simp_all add: Decode_def Let_def split: prod.split)

lemma table_handled:
  "n < 64 \<Longrightarrow> specialTable ! n \<notin> {SPECIAL, BCOND, OP_RFE}" "n < 64 \<Longrightarrow> fst (opTable ! n) \<noteq> OP_RFE"
proof -
  have "set specialTable \<inter> {SPECIAL, BCOND, OP_RFE} = {}" "length specialTable = 64"
    by (simp_all add: specialTable_def)
  then show "n < 64 \<Longrightarrow> specialTable ! n \<notin> {SPECIAL, BCOND, OP_RFE}" using nth_mem[of n specialTable]
    by (metis disjoint_iff)
  have "OP_RFE \<notin> fst ` set opTable" "length opTable = 64" by (simp_all add: opTable_def)
  then show "n < 64 \<Longrightarrow> fst (opTable ! n) \<noteq> OP_RFE" using nth_mem[of n opTable]
    by (metis imageI)
qed

lemma Decode_opCode: "opCode (Decode v) \<notin> {SPECIAL, BCOND, OP_RFE}"
proof -
  obtain op fmt where op: "opTable ! unat (drop_bit 26 v AND 0x3f) = (op, fmt)" by fastforce
  have "op \<noteq> OP_RFE" using table_handled(2)[OF and_0x3f[of "drop_bit 26 v"]] op by simp
  moreover have "specialTable ! unat (v AND 0x3f) \<notin> {SPECIAL, BCOND, OP_RFE}"
    by (rule table_handled(1)[OF and_0x3f])
  ultimately show ?thesis
    by (cases op) (simp_all add: Decode_def Let_def op)
qed


subsection \<open>What an instruction leaves\<close>

lemma registers_touch [simp]: "registers (touch w i m) = registers m" "mainMemory (touch w i m) = mainMemory m"
  by (simp_all add: touch_def)

lemma ReadMem_Some:
  assumes "machine s = Some m" "frames_ok m" "sz \<in> {1, 2, 4}" "ReadMem eh a sz s = Ok (Some v, s')"
  obtains m' where "s' = s\<lparr>machine := Some m'\<rparr>" "registers m' = registers m" "frames_ok m'"
proof -
  from assms(1,4) obtain tid r m1 where t: "current_tid s = Ok tid" "Translate a sz False tid m = Ok (r, m1)"
    by (auto simp: ReadMem_def result_simps mach_get_def Let_def)
  with assms(1,4) obtain pa where w: "Translate a sz False tid m = Ok (Inr pa, m1)" "s' = s\<lparr>machine := Some m1\<rparr>"
    by (cases r) (auto simp: ReadMem_def result_simps mach_get_def Let_def)
  obtain i where "m1 = touch False i (m\<lparr>tlbTimes := tlbTimes m + 1\<rparr>)" using assms(2,3) w(1) by (rule Translate_Inr)
  then show ?thesis using that[of m1] w(2) assms(2) by simp
qed

lemma WriteMem_True:
  assumes "machine s = Some m" "frames_ok m" "sz \<in> {1, 2, 4}" "WriteMem eh a sz v s = Ok (True, s')"
  obtains m' where "s' = s\<lparr>machine := Some m'\<rparr>" "registers m' = registers m" "frames_ok m'"
proof -
  from assms(1,4) obtain tid r m1 where t: "current_tid s = Ok tid" "Translate a sz True tid m = Ok (r, m1)"
    by (auto simp: WriteMem_def result_simps mach_get_def Let_def)
  with assms(1,4) obtain pa mem where w: "Translate a sz True tid m = Ok (Inr pa, m1)"
    "store sz (sint pa) v (mainMemory m1) = Ok mem" "s' = s\<lparr>machine := Some (m1\<lparr>mainMemory := mem\<rparr>)\<rparr>"
    by (cases r) (auto simp: WriteMem_def result_simps mach_get_def Let_def)
  obtain i where i: "m1 = touch True i (m\<lparr>tlbTimes := tlbTimes m + 1\<rparr>)" using assms(2,3) w(1) by (rule Translate_Inr)
  then have "frames_ok m1" "registers m1 = registers m" using assms(2) by simp_all
  moreover have "length mem = length (mainMemory m1)"
    using w(2) by (auto simp: store_def mem_write_def result_simps split: if_splits)
  ultimately show ?thesis using that[OF w(3)] by (simp add: frames_ok_def)
qed

text \<open>A case of the switch that does not trap changes general registers, HI and LO only, and leaves
  a delayed load for a general register; it traps only through the handler.\<close>

definition tame :: "'a kern_scheme handler \<Rightarrow> Machine \<Rightarrow> 'a kern_scheme exec result \<Rightarrow> bool" where
  "tame eh m r \<longleftrightarrow> ((\<forall>e s. \<not> is_ok (eh e s)) \<longrightarrow> (\<forall>s'. r \<noteq> Ok (Trap s'))) \<and> (\<forall>reg v pc s'. r = Ok (Done reg v pc s') \<longrightarrow>
     unat reg < 32 \<and> (\<exists>m'. machine s' = Some m' \<and> frames_ok m' \<and> length (registers m') = length (registers m) \<and>
       (\<forall>k\<ge>34. registers m' ! k = registers m ! k)))"

lemma tame_set_reg: "d < 34 \<Longrightarrow> frames_ok (set_reg d v m) = frames_ok m \<and>
    length (registers (set_reg d v m)) = length (registers m) \<and>
    (\<forall>k\<ge>34. registers (set_reg d v m) ! k = registers m ! k)"
  by (auto simp: set_reg_def frames_ok_def)

lemma tame_leave [simp]:
  "frames_ok m' \<Longrightarrow> length (registers m') = length (registers m) \<Longrightarrow>
   \<forall>k\<ge>34. registers m' ! k = registers m ! k \<Longrightarrow> tame eh m (leave pc m' s)"
  by (simp add: tame_def leave_def)

lemma tame_Err [simp]: "tame eh m (Err e)" by (simp add: tame_def)

lemma RaiseException_fails: "\<forall>e s. \<not> is_ok (eh e s) \<Longrightarrow> RaiseException eh e a s \<noteq> Ok s'"
  by (auto simp: RaiseException_def result_simps is_ok_def)

lemma ReadMem_None: "\<forall>e s. \<not> is_ok (eh e s) \<Longrightarrow> ReadMem eh a sz s \<noteq> Ok (None, s')"
  using RaiseException_fails[of eh] by (auto simp: ReadMem_def result_simps Let_def split: sum.splits)

lemma WriteMem_False: "\<forall>e s. \<not> is_ok (eh e s) \<Longrightarrow> WriteMem eh a sz v s \<noteq> Ok (False, s')"
  using RaiseException_fails[of eh] by (auto simp: WriteMem_def result_simps Let_def split: sum.splits)

lemma tame_trap [simp]: "tame eh m (trap eh e a s)"
  using RaiseException_fails[of eh] by (auto simp: tame_def trap_def result_simps)

lemma tame_load [simp]:
  assumes "machine s = Some m" "frames_ok m" "sz \<in> {1, 2, 4}" "rt < 32"
  shows "tame eh m (load_with eh a sz f rt pc s)"
proof (cases "ReadMem eh a sz s")
  case (Ok x)
  obtain r s1 where x: "x = (r, s1)" by fastforce
  show ?thesis
  proof (cases r)
    case None
    then show ?thesis using Ok x ReadMem_None[of eh a sz s s1] by (auto simp: tame_def load_with_def)
  next
    case (Some y)
    with Ok x have "ReadMem eh a sz s = Ok (Some y, s1)" by simp
    with assms(1-3) obtain m' where "s1 = s\<lparr>machine := Some m'\<rparr>" "registers m' = registers m" "frames_ok m'"
      by (rule ReadMem_Some)
    then show ?thesis using Ok x Some assms(4) by (auto simp: tame_def load_with_def unat_of_nat)
  qed
qed (simp add: load_with_def)

lemma tame_store [simp]:
  assumes "machine s = Some m'" "frames_ok m'" "registers m' = registers m" "sz \<in> {1, 2, 4}"
  shows "tame eh m (store_word eh a sz v pc s)"
proof (cases "WriteMem eh a sz v s")
  case (Ok x)
  obtain r s1 where x: "x = (r, s1)" by fastforce
  show ?thesis
  proof (cases r)
    case False
    then show ?thesis using Ok x WriteMem_False[of eh a sz v s s1] by (auto simp: tame_def store_word_def)
  next
    case True
    with Ok x have "WriteMem eh a sz v s = Ok (True, s1)" by simp
    with assms(1,2,4) obtain m2 where "s1 = s\<lparr>machine := Some m2\<rparr>" "registers m2 = registers m'" "frames_ok m2"
      by (rule WriteMem_True)
    then show ?thesis using Ok x True assms(3) by (auto simp: tame_def store_word_def)
  qed
qed (simp add: store_word_def)

lemma tame_store_part [simp]:
  assumes "machine s = Some m" "frames_ok m"
  shows "tame eh m (store_part eh f a v pc s)"
proof (cases "ReadMem eh (a AND NOT 3) 4 s")
  case (Ok x)
  obtain r s1 where x: "x = (r, s1)" by fastforce
  show ?thesis
  proof (cases r)
    case None
    then show ?thesis
      using Ok x ReadMem_None[of eh "a AND NOT 3" 4 s s1] by (auto simp: store_part_def ASSERT_def tame_def)
  next
    case (Some y)
    with Ok x have "ReadMem eh (a AND NOT 3) 4 s = Ok (Some y, s1)" by simp
    from ReadMem_Some[OF assms _ this] obtain m' where "s1 = s\<lparr>machine := Some m'\<rparr>" "registers m' = registers m" "frames_ok m'"
      by auto
    then show ?thesis using Ok x Some by (auto simp: store_part_def ASSERT_def)
  qed
qed (auto simp: store_part_def ASSERT_def)

definition fits :: "Instruction \<Rightarrow> Machine \<Rightarrow> 'a kern_scheme \<Rightarrow> bool" where
  "fits i m s \<longleftrightarrow> irs i < 32 \<and> irt i < 32 \<and> ird i < 32 \<and> machine s = Some m \<and> frames_ok m"

lemma fitsD: "fits i m s \<Longrightarrow> irs i < 32 \<and> irt i < 32 \<and> ird i < 32 \<and> machine s = Some m \<and> frames_ok m"
  by (simp add: fits_def)

lemmas tame_simps = tame_set_reg reg_defs ASSERT_def R31_def

lemma tame_illegal: "fits i m s \<Longrightarrow> tame eh m (exec_illegal eh i m pc s)"
  by (cases "opCode i") (simp_all add: exec_illegal_def)

lemma tame_xor: "fits i m s \<Longrightarrow> tame eh m (exec_xor eh i m pc s)"
  by (frule fitsD, cases "opCode i") (simp_all add: exec_xor_def tame_illegal tame_simps)

lemma tame_sw: "fits i m s \<Longrightarrow> tame eh m (exec_sw eh i m pc s)"
  by (frule fitsD, cases "opCode i") (simp_all add: exec_sw_def tame_xor tame_simps Let_def)

lemma tame_sub: "fits i m s \<Longrightarrow> tame eh m (exec_sub eh i m pc s)"
  by (frule fitsD, cases "opCode i") (simp_all add: exec_sub_def tame_sw tame_simps Let_def)

lemma tame_shift_right: "fits i m s \<Longrightarrow> tame eh m (exec_shift_right eh i m pc s)"
  by (frule fitsD, cases "opCode i") (simp_all add: exec_shift_right_def tame_sub tame_simps Let_def)

lemma tame_set: "fits i m s \<Longrightarrow> tame eh m (exec_set eh i m pc s)"
  by (frule fitsD, cases "opCode i") (simp_all add: exec_set_def tame_shift_right tame_simps Let_def)

lemma tame_store_shift: "fits i m s \<Longrightarrow> tame eh m (exec_store_shift eh i m pc s)"
  by (frule fitsD, cases "opCode i") (simp_all add: exec_store_shift_def tame_set tame_simps Let_def)

lemma tame_move: "fits i m s \<Longrightarrow> tame eh m (exec_move eh i m pc s)"
  by (frule fitsD, cases "opCode i") (simp_all add: exec_move_def tame_store_shift tame_simps Let_def split: prod.split)

lemma tame_load_word: "fits i m s \<Longrightarrow> tame eh m (exec_load_word eh i m pc s)"
  by (frule fitsD, cases "opCode i") (simp_all add: exec_load_word_def tame_move tame_simps Let_def)

lemma tame_exec_load: "fits i m s \<Longrightarrow> tame eh m (exec_load eh i m pc s)"
  by (frule fitsD, cases "opCode i") (simp_all add: exec_load_def tame_load_word tame_simps Let_def)

lemma tame_jump: "fits i m s \<Longrightarrow> tame eh m (exec_jump eh i m pc s)"
  by (frule fitsD, cases "opCode i") (simp_all add: exec_jump_def tame_exec_load tame_simps Let_def)

lemma tame_div: "fits i m s \<Longrightarrow> tame eh m (exec_div eh i m pc s)"
  by (frule fitsD, cases "opCode i") (simp_all add: exec_div_def tame_jump tame_simps Let_def)

lemma tame_branch: "fits i m s \<Longrightarrow> tame eh m (exec_branch eh i m pc s)"
  by (frule fitsD, cases "opCode i") (simp_all add: exec_branch_def tame_div tame_simps Let_def)

lemma tame_exec: "fits i m s \<Longrightarrow> tame eh m (exec_add eh i m pc s)"
  by (frule fitsD, cases "opCode i") (simp_all add: exec_add_def tame_branch tame_simps Let_def)

definition cpu_ok :: "Machine \<Rightarrow> bool" where
  "cpu_ok m \<longleftrightarrow> frames_ok m \<and> length (registers m) = NumTotalRegs \<and> registers m ! 0 = 0 \<and>
     unat (registers m ! nat LoadReg) < 32"

lemma sint_small:
  assumes "unat (w :: u32) < 32"
  obtains k where "sint w = int k" "k < 32"
proof -
  have "w < 32" using assms by (simp add: word_less_nat_alt)
  then have "uint w < 32" by (simp add: word_less_def)
  then show ?thesis using that[of "unat w"] assms by (simp add: sint_uint_32)
qed

lemma finish_instruction:
  assumes "machine s = Some m" "frames_ok m" "length (registers m) = 40" "unat (registers m ! 37) < 32" "unat reg < 32"
  shows "\<exists>m' s'. rbind (mach_do (DelayedLoad reg v) s) (\<lambda>s. mach_do (\<lambda>m. Ok (step_pc pc m)) s) = Ok s' \<and>
    machine s' = Some m' \<and> cpu_ok m' \<and> registers m' ! 34 = registers m ! 35 \<and>
    registers m' ! 36 = registers m ! 34 \<and> registers m' ! 35 = pc"
proof -
  obtain k where "sint (registers m ! 37) = int k" "k < 32" using assms(4) by (rule sint_small)
  then show ?thesis
    using assms by (simp add: mach_do_def mach_get_def DelayedLoad_def step_pc_def set_reg_def reg_defs cpu_ok_def frames_ok_def)
qed

lemma OneInstruction_no_trap:
  assumes "machine s = Some m" "cpu_ok m" "OneInstruction (\<lambda>_ _. Err Halted) s = Ok s'"
  obtains m' where "machine s' = Some m'" "cpu_ok m'" "registers m' ! nat PCReg = registers m ! nat NextPCReg"
    "registers m' ! nat PrevPCReg = registers m ! nat PCReg"
proof -
  let ?eh = "\<lambda>_ _. Err Halted"
  have fr: "frames_ok m" "length (registers m) = 40" "unat (registers m ! 37) < 32"
    using assms(2) by (simp_all add: cpu_ok_def reg_defs)
  from assms(1,3) obtain raw s1 where r: "ReadMem ?eh (registers m ! nat PCReg) 4 s = Ok (raw, s1)"
    by (auto simp: OneInstruction_def mach_get_def result_simps)
  then have "raw \<noteq> None" using ReadMem_None[of ?eh "registers m ! nat PCReg" 4 s s1] by (cases raw) simp_all
  with r obtain v where v: "ReadMem ?eh (registers m ! nat PCReg) 4 s = Ok (Some v, s1)" by blast
  from ReadMem_Some[OF assms(1) fr(1) _ v] obtain m1 where m1: "s1 = s\<lparr>machine := Some m1\<rparr>" "registers m1 = registers m" "frames_ok m1"
    by auto
  let ?exec = "exec_add ?eh (Decode v) m1 (registers m1 ! nat NextPCReg + 4) s1"
  have "fits (Decode v) m1 s1" using m1 Decode_fields by (simp add: fits_def)
  then have tame: "tame ?eh m1 ?exec" by (rule tame_exec)
  have one: "OneInstruction ?eh s = rbind ?exec (\<lambda>r. case r of Trap s \<Rightarrow> Ok s
      | Done nextLoadReg nextLoadValue pcAfter s \<Rightarrow> rbind (mach_do (DelayedLoad nextLoadReg nextLoadValue) s)
          (\<lambda>s. mach_do (\<lambda>m. Ok (step_pc pcAfter m)) s))"
    using assms(1) v m1(1) by (simp add: OneInstruction_def mach_get_def)
  then obtain r where r: "?exec = Ok r" using assms(3) by (cases ?exec) simp_all
  then obtain reg w pc s2 where e: "?exec = Ok (Done reg w pc s2)"
    using tame by (cases r) (simp_all add: tame_def)
  with tame obtain m2 where m2: "machine s2 = Some m2" "frames_ok m2" "unat reg < 32"
    "length (registers m2) = 40" "\<forall>k\<ge>34. registers m2 ! k = registers m ! k"
    using m1(2) fr(2) by (auto simp: tame_def)
  have "unat (registers m2 ! 37) < 32" using m2(5) fr(3) by simp
  from finish_instruction[OF m2(1,2,4) this m2(3), of w pc] one e assms(3)
  obtain m' where "machine s' = Some m'" "cpu_ok m'" "registers m' ! 34 = registers m2 ! 35" "registers m' ! 36 = registers m2 ! 34"
    by auto
  then show ?thesis using that[of m'] m2(5) by (simp add: reg_defs)
qed


text \<open>The running thread is about to execute the word 0 at address 900, a shift of register zero.\<close>

definition ready_cpu :: Machine where
  "ready_cpu = two_pages\<lparr>registers := (replicate 40 0)[34 := 900, 35 := 904]\<rparr>"

lemma cpu_ok_ready: "cpu_ok ready_cpu"
  using frames_ok_two_pages by (simp add: cpu_ok_def ready_cpu_def frames_ok_def reg_defs)

lemma ready_fetch:
  "\<exists>m'. ReadMem eh 900 4 (two_threads\<lparr>machine := Some ready_cpu\<rparr>) =
     Ok (Some 0, two_threads\<lparr>machine := Some m'\<rparr>) \<and> registers m' = registers ready_cpu"
proof -
  have f: "frames_ok ready_cpu" using cpu_ok_ready by (simp add: cpu_ok_def)
  have "frame_of ready_cpu = frame_of two_pages" by (simp add: frame_of_def ready_cpu_def fun_eq_iff)
  then have t: "Translate 900 4 False 1 ready_cpu = Ok (Inr (word_of_nat (phys 1 900)), touch False 1 (ready_cpu\<lparr>tlbTimes := tlbTimes ready_cpu + 1\<rparr>))"
    using frame_of_two_pages[of 1] unfolding Translate_spec[OF f, of 4, simplified] by (simp add: aligned_def)
  have "mem_read 4 (int (phys 1 900)) (replicate 4096 0) = Ok (replicate 4 0)"
    by (simp add: mem_read_def phys_def)
  moreover have "replicate 4 (0 :: byte) = [0, 0, 0, 0]" by (simp add: numeral_eq_Suc)
  ultimately have "load 4 (int (phys 1 900)) (replicate 4096 0) = Ok 0"
    by (simp add: load_def WordToHost_def)
  moreover have "current_tid (two_threads\<lparr>machine := Some ready_cpu\<rparr>) = Ok 1"
    using two_threads_simps(2) by (simp add: current_tid_def)
  moreover have "mainMemory ready_cpu = replicate 4096 0" by (simp add: ready_cpu_def two_pages_def)
  ultimately show ?thesis
    using t phys_word(3)[of 1 900]
    by (intro exI[of _ "touch False 1 (ready_cpu\<lparr>tlbTimes := tlbTimes ready_cpu + 1\<rparr>)"])
      (simp add: ReadMem_def mach_get_def)
qed

lemma Decode_0: "Decode 0 = \<lparr>ivalue = 0, opCode = OP_SLL, irs = 0, irt = 0, ird = 0, extra = 0\<rparr>"
  by (simp add: Decode_def opTable_def specialTable_def)


subsection \<open>Arithmetic\<close>

lemma sign_bit: "((w :: u32) AND SIGN_BIT = 0) = (0 \<le> sint w)"
proof -
  have "(w AND SIGN_BIT = 0) = (\<not> bit w 31)"
    using and_exp_eq_0_iff_not_bit[of w 31] by (simp add: SIGN_BIT_def)
  also have "bit w 31 = (sint w < 0)" using bit_last_iff[of w] by simp
  finally show ?thesis by (simp add: not_less)
qed

lemma sign_bit_xor: "((v XOR w :: u32) AND SIGN_BIT = 0) = ((0 \<le> sint v) = (0 \<le> sint w))"
proof -
  have "((v XOR w) AND SIGN_BIT = 0) = (bit v 31 = bit w 31)"
    using and_exp_eq_0_iff_not_bit[of "v XOR w" 31] by (simp add: SIGN_BIT_def bit_xor_iff)
  then show ?thesis using bit_last_iff[of v] bit_last_iff[of w] by auto
qed

lemma sint_range32: "- (2 ^ 31) \<le> sint (w :: u32)" "sint (w :: u32) < 2 ^ 31"
  using sint_ge[of w] sint_lt[of w] by simp_all

lemma sint_wrap: "sint (word_of_int x :: u32) = (x + 2 ^ 31) mod 2 ^ 32 - 2 ^ 31"
  by (simp add: int_word_sint)

definition in_int :: "int \<Rightarrow> bool" where
  "in_int x \<longleftrightarrow> - (2 ^ 31) \<le> x \<and> x < 2 ^ 31"

lemma wrapped_sign:
  assumes "- (2 ^ 32) \<le> x" "x < 2 ^ 32"
  shows "in_int x \<Longrightarrow> sint (word_of_int x :: u32) = x" "x < - (2 ^ 31) \<Longrightarrow> 0 \<le> sint (word_of_int x :: u32)"
    "2 ^ 31 \<le> x \<Longrightarrow> sint (word_of_int x :: u32) < 0"
proof -
  show "in_int x \<Longrightarrow> sint (word_of_int x :: u32) = x" by (simp add: in_int_def sint_of_range)
  show "0 \<le> sint (word_of_int x :: u32)" if "x < - (2 ^ 31)"
  proof -
    have "(x + 2 ^ 31) mod 2 ^ 32 = (x + 2 ^ 31 + 2 ^ 32) mod 2 ^ 32" by (simp only: mod_add_self2)
    also have "\<dots> = x + 2 ^ 31 + 2 ^ 32" using that assms by (intro mod_pos_pos_trivial) simp_all
    finally show ?thesis using assms by (simp add: sint_wrap)
  qed
  show "sint (word_of_int x :: u32) < 0" if "2 ^ 31 \<le> x"
  proof -
    have "(x + 2 ^ 31) mod 2 ^ 32 = (x + 2 ^ 31 - 2 ^ 32) mod 2 ^ 32" by (simp only: minus_mod_self2)
    also have "\<dots> = x + 2 ^ 31 - 2 ^ 32" using that assms by (intro mod_pos_pos_trivial) simp_all
    finally show ?thesis using assms by (simp add: sint_wrap)
  qed
qed

lemma add_overflow:
  "((v XOR w :: u32) AND SIGN_BIT = 0 \<and> (v XOR (v + w)) AND SIGN_BIT \<noteq> 0) = (\<not> in_int (sint v + sint w))"
proof -
  have sum: "v + w = word_of_int (sint v + sint w)" by simp
  note v = sint_range32[of v] and w = sint_range32[of w]
  have x: "- (2 ^ 32) \<le> sint v + sint w" "sint v + sint w < 2 ^ 32" using v w by simp_all
  show ?thesis
    unfolding sign_bit_xor sum using wrapped_sign[OF x] v w unfolding in_int_def by linarith
qed

lemma sub_overflow:
  "((v XOR w :: u32) AND SIGN_BIT \<noteq> 0 \<and> (v XOR (v - w)) AND SIGN_BIT \<noteq> 0) = (\<not> in_int (sint v - sint w))"
proof -
  have diff: "v - w = word_of_int (sint v - sint w)" by simp
  note v = sint_range32[of v] and w = sint_range32[of w]
  have x: "- (2 ^ 32) \<le> sint v - sint w" "sint v - sint w < 2 ^ 32" using v w by simp_all
  show ?thesis
    unfolding sign_bit_xor diff using wrapped_sign[OF x] v w unfolding in_int_def by linarith
qed

lemma addi_overflow:
  "((v XOR w :: u32) AND SIGN_BIT = 0 \<and> (w XOR (v + w)) AND SIGN_BIT \<noteq> 0) = (\<not> in_int (sint v + sint w))"
  using add_overflow[of v w] unfolding sign_bit_xor by blast

text \<open>C38. ADD, ADDI and SUB write the exact sum or difference of the operands, read as signed numbers, or
  trap with an overflow exception; they trap exactly when the result is no 32-bit integer.\<close>

theorem signed_arithmetic:
  fixes m :: Machine
  defines "rs \<equiv> \<lambda>i. sint (registers m ! irs i)" and "rt \<equiv> \<lambda>i. sint (registers m ! irt i)"
    and "outcome \<equiv> \<lambda>eh d x pc s. if in_int x then leave pc (set_reg d (word_of_int x) m) s
                                  else trap eh OverflowException 0 s"
  shows "(opCode i = OP_ADD \<longrightarrow> exec_add eh i m pc s = outcome eh (ird i) (rs i + rt i) pc s) \<and>
    (opCode i = OP_ADDI \<longrightarrow> exec_add eh i m pc s = outcome eh (irt i) (rs i + sint (extra i)) pc s) \<and>
    (opCode i = OP_SUB \<longrightarrow> exec_add eh i m pc s = outcome eh (ird i) (rs i - rt i) pc s)"
  unfolding rs_def rt_def outcome_def
  by (simp add: exec_add_def exec_branch_def exec_div_def exec_jump_def exec_load_def exec_load_word_def
      exec_move_def exec_store_shift_def exec_set_def exec_shift_right_def exec_sub_def Let_def
      add_overflow addi_overflow sub_overflow)

theorem signed_arithmetic_witness:
  "opCode (Decode 0x00221820) = OP_ADD \<and>
   exec_add (\<lambda>_ _. Err Halted) (Decode 0x00221820) (ready_cpu\<lparr>registers := (replicate 40 0)[1 := 40, 2 := -2]\<rparr>) 908 two_threads =
     leave 908 (set_reg 3 38 (ready_cpu\<lparr>registers := (replicate 40 0)[1 := 40, 2 := -2]\<rparr>)) two_threads"
proof -
  have d: "Decode 0x00221820 = \<lparr>ivalue = 0x00221820, opCode = OP_ADD, irs = 1, irt = 2, ird = 3, extra = 0\<rparr>"
    by (simp add: Decode_def opTable_def specialTable_def)
  show ?thesis
    using signed_arithmetic[of "Decode 0x00221820" "\<lambda>_ _. Err Halted" "ready_cpu\<lparr>registers := (replicate 40 0)[1 := 40, 2 := -2]\<rparr>" 908 two_threads]
    by (simp add: d in_int_def)
qed

lemma signed_drop_bit_logical:
  assumes "k < 32"
  shows "(signed_drop_bit k w = drop_bit k (w :: u32)) = (k = 0 \<or> 0 \<le> sint w)"
proof (cases "k = 0 \<or> 0 \<le> sint w")
  case True
  have "signed_drop_bit k w = drop_bit k w" if "0 \<le> sint w"
  proof (rule bit_eqI)
    fix n assume "possible_bit TYPE(u32) n"
    then have "n < 32" by simp
    moreover have "\<not> bit w 31" using that bit_last_iff[of w] by simp
    ultimately show "bit (signed_drop_bit k w) n = bit (drop_bit k w) n"
      by (auto simp: bit_signed_drop_bit_iff bit_drop_bit_eq dest: bit_imp_le_length)
  qed
  with True show ?thesis by auto
next
  case False
  then have "bit w 31" using bit_last_iff[of w] by simp
  then have "bit (signed_drop_bit k w) 31" using False by (auto simp: bit_signed_drop_bit_iff)
  moreover have "\<not> bit (drop_bit k w) 31" using False by (auto simp: bit_drop_bit_eq dest: bit_imp_le_length)
  ultimately show ?thesis using False by metis
qed

text \<open>C39. The shift-right-logical instructions shift arithmetically: the result is the operand divided by a
  power of two, rounded down, and it is the logical shift only for an operand that is not
  negative or a shift by zero.\<close>

theorem SRL_shifts_arithmetically:
  fixes m :: Machine
  defines "rt \<equiv> \<lambda>i. registers m ! irt i"
  assumes "opCode i = OP_SRL \<and> k = unat (extra i) \<or> opCode i = OP_SRLV \<and> k = unat (registers m ! irs i AND 0x1f)" "k < 32"
  shows "\<exists>v. exec_add eh i m pc s = leave pc (set_reg (ird i) v m) s \<and> sint v = sint (rt i) div 2 ^ k \<and>
    (v = drop_bit k (rt i) \<longleftrightarrow> k = 0 \<or> 0 \<le> sint (rt i))"
proof -
  have "exec_add eh i m pc s = leave pc (set_reg (ird i) (signed_drop_bit k (rt i)) m) s"
    using assms(2) unfolding rt_def
    by (auto simp: exec_add_def exec_branch_def exec_div_def exec_jump_def exec_load_def exec_load_word_def
        exec_move_def exec_store_shift_def exec_set_def exec_shift_right_def Let_def)
  moreover have "sint (signed_drop_bit k (rt i)) = sint (rt i) div 2 ^ k"
    by (simp add: sint_signed_drop_bit_eq drop_bit_eq_div)
  ultimately show ?thesis using signed_drop_bit_logical[OF assms(3)] by blast
qed

text \<open>C40. The OR instruction ignores its second operand: it writes the first one, which is the bitwise or
  of both only when the second has no further bit.\<close>

theorem OR_ignores_rt:
  assumes "opCode i = OP_OR"
  shows "\<exists>v. exec_add eh i m pc s = leave pc (set_reg (ird i) v m) s \<and> v = registers m ! irs i \<and>
    (v = registers m ! irs i OR registers m ! irt i \<longleftrightarrow> registers m ! irt i AND NOT (registers m ! irs i) = 0)"
proof -
  have "(x = x OR y) = (y AND NOT x = 0)" for x y :: u32
    by (auto simp: bit_eq_iff bit_simps)
  then show ?thesis
    using assms by (simp add: exec_add_def exec_branch_def exec_div_def exec_jump_def exec_load_def
        exec_load_word_def exec_move_def Let_def)
qed

theorem SRL_shifts_arithmetically_witness:
  "\<exists>v. exec_add (\<lambda>_ _. Err Halted) (Decode 0x00021842) (ready_cpu\<lparr>registers := (replicate 40 0)[2 := -2]\<rparr>) 908 two_threads =
      leave 908 (set_reg 3 v (ready_cpu\<lparr>registers := (replicate 40 0)[2 := -2]\<rparr>)) two_threads \<and> sint v = -1 \<and>
      v \<noteq> drop_bit 1 (-2)"
proof -
  have d: "Decode 0x00021842 = \<lparr>ivalue = 0x00021842, opCode = OP_SRL, irs = 0, irt = 2, ird = 3, extra = 1\<rparr>"
    by (simp add: Decode_def opTable_def specialTable_def)
  show ?thesis
    using SRL_shifts_arithmetically[of "Decode 0x00021842" 1 "ready_cpu\<lparr>registers := (replicate 40 0)[2 := -2]\<rparr>" "\<lambda>_ _. Err Halted" 908 two_threads]
    by (simp add: d)
qed

theorem OR_ignores_rt_witness:
  "\<exists>v. exec_add (\<lambda>_ _. Err Halted) (Decode 0x00221825) (ready_cpu\<lparr>registers := (replicate 40 0)[1 := 4, 2 := 3]\<rparr>) 908 two_threads =
      leave 908 (set_reg 3 v (ready_cpu\<lparr>registers := (replicate 40 0)[1 := 4, 2 := 3]\<rparr>)) two_threads \<and> v = 4 \<and>
      v \<noteq> 4 OR 3"
proof -
  have d: "Decode 0x00221825 = \<lparr>ivalue = 0x00221825, opCode = OP_OR, irs = 1, irt = 2, ird = 3, extra = 0\<rparr>"
    by (simp add: Decode_def opTable_def specialTable_def)
  show ?thesis
    using OR_ignores_rt[of "Decode 0x00221825" "\<lambda>_ _. Err Halted" "ready_cpu\<lparr>registers := (replicate 40 0)[1 := 4, 2 := 3]\<rparr>" 908 two_threads]
    by (simp add: d)
qed

end
