(* ===== verification/Kernel_Files.thy ===== *)
theory Kernel_Files
  imports Open_File System_Init
begin

text \<open>
  Files on the disk of the kernel: the operations of File_Header and Open_File run on the
  synchronous disk of Synch_Disk, with the interrupts, the timer and the ready list underneath.
  What is proved against the interface \<open>block_store\<close> holds here through its interpretation on
  \<open>ReadSector\<close> and \<open>WriteSector\<close>, for a kernel in which the running thread is alone (\<open>lone\<close>), as
  \<open>Initialize\<close> leaves it. The parameter \<open>n\<close> bounds the nesting of interrupt handlers and is
  arbitrary.
\<close>

subsection \<open>Starting the kernel\<close>



subsection \<open>Sectors\<close>

text \<open>C3. The synchronous disk refines an array of sectors: a write of a sector returns, and a read after it
  returns the data written, or what the sector held before if it is another one. In between the
  thread sleeps, the machine idles until the disk interrupt and the handler wakes the thread.\<close>

theorem WriteSector_ReadSector:
  assumes "lone s" "sector_ok k" "sector_ok j" "length data = nat SectorSize"
  shows "\<exists>s1 s2. WriteSector n k data s = Ok s1 \<and> lone s1 \<and>
    ReadSector n j s1 = Ok (if j = k then data else sectors s j, s2) \<and> lone s2 \<and> sectors s2 = sectors s1"
proof -
  obtain s1 where s1: "WriteSector n k data s = Ok s1" "lone s1"
    "\<forall>j. sector_ok j \<longrightarrow> sectors s1 j = (if j = k then data else sectors s j)"
    using synch_disk.wr_ok[OF assms(1,2,4)] by blast
  obtain s2 where "ReadSector n j s1 = Ok (sectors s1 j, s2)" "lone s2" "sectors s2 = sectors s1"
    using synch_disk.rd_ok[OF s1(2) assms(3)] by blast
  with s1 assms(3) show ?thesis by simp
qed

theorem WriteSector_ReadSector_witness:
  "\<exists>s1 s2. WriteSector 0 7 (replicate 128 42) booted = Ok s1 \<and> lone s1 \<and>
    ReadSector 0 8 s1 = Ok (replicate 128 0, s2) \<and> lone s2 \<and> sectors s2 = sectors s1"
proof -
  have k: "sector_ok 7" "sector_ok 8" "nat SectorSize = 128" by (simp_all add: sector_ok_def disk_defs)
  then show ?thesis
    using WriteSector_ReadSector[OF lone_booted, of 7 8 "replicate 128 42" 0] sectors_booted[of 8] by simp
qed

text \<open>C26. A request for a sector outside the disk fails an assertion, whatever the disk holds.\<close>

theorem sector_out_of_range:
  assumes "lone s" "k < 0 \<or> k \<ge> NumSectors"
  shows "ReadSector n k s = Err AssertFailed \<and> WriteSector n k data s = Err AssertFailed"
proof -
  have "\<not> sector_ok k" using assms(2) by (auto simp: sector_ok_def)
  then show ?thesis using synch_disk.rd_bad[OF assms(1)] synch_disk.wr_bad[OF assms(1)] by simp
qed

theorem sector_out_of_range_witness:
  "ReadSector 0 1024 booted = Err AssertFailed \<and> WriteSector 0 1024 [] booted = Err AssertFailed"
  using sector_out_of_range[OF lone_booted, of 1024 0 "[]"] by (simp add: disk_defs)

subsection \<open>File headers\<close>

lemma kernel_dev_eq: "kernel_dev n = \<lparr>dev_read = ReadSector n, dev_write = WriteSector n\<rparr>"
  by (simp add: kernel_dev_def)

text \<open>C25. A file header written to a sector is read back as it was, all 32 words of it.\<close>

theorem FileHeader_WriteBack_FetchFrom:
  assumes "lone s" "sector_ok k" "hdr_shape h"
  shows "\<exists>s1 s2. FileHeader_WriteBack (kernel_dev n) h k s = Ok s1 \<and>
    FileHeader_FetchFrom (kernel_dev n) k s1 = Ok (h, s2) \<and> lone s2"
proof -
  obtain s1 where s1: "FileHeader_WriteBack (kernel_dev n) h k s = Ok s1" "lone s1" "sectors s1 k = hdr_to_bytes h"
    using synch_disk.WriteBack_ok[OF assms, of n] assms(2) unfolding kernel_dev_eq by metis
  obtain s2 where "FileHeader_FetchFrom (kernel_dev n) k s1 = Ok (hdr_of_bytes (sectors s1 k), s2)" "lone s2"
    using synch_disk.FetchFrom_ok[OF s1(2) assms(2), of n] unfolding kernel_dev_eq by metis
  with s1 assms(3) show ?thesis by auto
qed

definition sample_header :: FileHeader where
  "sample_header = \<lparr>createTime = 1, lastAccessTime = 2, lastWriteTime = 3, nextFdrSector = -1, numBytes = 200,
     numSectors = 2, dataSectors = [6, 7] @ replicate 24 0\<rparr>"

theorem FileHeader_WriteBack_FetchFrom_witness:
  "\<exists>s1 s2. FileHeader_WriteBack (kernel_dev 0) sample_header 5 booted = Ok s1 \<and>
    FileHeader_FetchFrom (kernel_dev 0) 5 s1 = Ok (sample_header, s2) \<and> lone s2"
  by (rule FileHeader_WriteBack_FetchFrom[OF lone_booted])
    (simp_all add: sector_ok_def disk_defs hdr_shape_def NumDirect_def sample_header_def)

text \<open>C22. When the disk has room for the data and for the headers of the chain, \<open>Allocate\<close> gives a file of
  \<open>fileSize\<close> bytes distinct sectors that were all free, marks exactly these, writes only to the
  sectors of the chained headers, and the chain of headers leads to the data sectors. The file size
  is not one of exactly \<open>NumDirect\<close> sectors, which is a case that fails.\<close>

theorem Allocate_chain:
  fixes fileSize :: int
  defines "m \<equiv> nat (divRoundUp fileSize SectorSize)"
  assumes "lone s" "map_ok bm" "hdr_shape this" "\<And>i. hdr_shape (junk i)" "0 \<le> fileSize" "fileSize < 2 ^ 31"
    "m \<noteq> NumDirect" "m + (m - 1) div NumDirect \<le> nat NumSectors - card (marked bm)"
  shows "\<exists>hdr bm' s' hs ds. FileHeader_Allocate (kernel_dev n) now junk this bm fileSize s = Ok (True, hdr, bm', s') \<and>
    lone s' \<and> file_ok (sectors s') hdr hs ds \<and> FileHeader_FileLength hdr = fileSize \<and> length ds = m \<and>
    (\<forall>k\<in>set (hs @ ds). nat k \<notin> marked bm) \<and> map_ok bm' \<and> marked bm' = marked bm \<union> nat ` set (hs @ ds) \<and>
    (\<forall>j. sector_ok j \<longrightarrow> j \<notin> set hs \<longrightarrow> sectors s' j = sectors s j)"
proof -
  have room: "m + (m - 1) div NumDirect \<le> bm.free bm" using assms(3,9) by (simp add: bm.free_def map_ok_def)
  have "fileSize \<le> SectorSize * int m"
    using divRoundUp_ge[OF assms(6), of SectorSize] divRoundUp_nonneg_ge0[OF assms(6), of SectorSize]
    by (simp add: m_def SectorSize_def mult.commute)
  moreover obtain hdr bm' s' hs ds where r:
    "FileHeader_Allocate (kernel_dev n) now junk this bm fileSize s = Ok (True, hdr, bm', s')"
    "lone s'" "hdr_shape hdr" "FileHeader_FileLength hdr = fileSize"
    "chain (sectors s') hdr hs ds" "length ds = m" "distinct (hs @ ds)"
    "\<forall>k\<in>set (hs @ ds). sector_ok k \<and> nat k \<notin> marked bm" "map_ok bm'"
    "marked bm' = marked bm \<union> nat ` set (hs @ ds)"
    "\<forall>j. sector_ok j \<longrightarrow> j \<notin> set hs \<longrightarrow> sectors s' j = sectors s j"
    using synch_disk.Allocate_spec[where junk = junk and now = now and n = m and na = n,
        OF assms(2-7) m_def[THEN meta_eq_to_obj_eq] assms(8) room]
    by (elim exE conjE, intro that) (simp_all only: kernel_dev_eq)
  ultimately have "file_ok (sectors s') hdr hs ds" "\<forall>k\<in>set (hs @ ds). nat k \<notin> marked bm"
    using assms(6) by (simp_all add: file_ok_def)
  with r show ?thesis by (intro exI[of _ hdr] exI[of _ bm'] exI[of _ s'] exI[of _ hs] exI[of _ ds] conjI) assumption+
qed

text \<open>The map of a disk with no sector in use.\<close>

definition clear_map :: BitMap where
  "clear_map = \<lparr>numBits = 1024, numWords = 32, bm_map = replicate 32 0\<rparr>"

lemma clear_map_ok: "map_ok clear_map" "marked clear_map = {}"
  by (simp_all add: map_ok_def clear_map_def BitMap_ok_def bm_size_def disk_defs marked_def divRoundUp_def BitsInWord_def)

lemma sample_header_shape: "hdr_shape sample_header"
  by (simp add: hdr_shape_def NumDirect_def sample_header_def)

theorem Allocate_chain_witness:
  "\<exists>hdr bm' s' hs ds. FileHeader_Allocate (kernel_dev 0) 9 (\<lambda>_. sample_header) sample_header clear_map 5000 booted =
      Ok (True, hdr, bm', s') \<and> lone s' \<and> file_ok (sectors s') hdr hs ds \<and> FileHeader_FileLength hdr = 5000 \<and>
    length ds = 40 \<and> map_ok bm' \<and> marked bm' = nat ` set (hs @ ds)"
proof -
  have "nat (divRoundUp 5000 SectorSize) = 40" by (simp add: divRoundUp_nonneg SectorSize_def)
  then show ?thesis
    using Allocate_chain[OF lone_booted clear_map_ok(1) sample_header_shape sample_header_shape, of 5000 0 9]
    by (simp add: NumDirect_def clear_map_ok(2) disk_defs) blast
qed

text \<open>C23. A file of exactly \<open>NumDirect\<close> sectors needs no further header, but \<open>Allocate\<close> writes one all the
  same, to a sector number that was never set.\<close>

theorem Allocate_full_header_fails:
  assumes "lone s" "map_ok bm" "hdr_shape this" "\<And>i. hdr_shape (junk i)" "0 \<le> fileSize"
    "nat (divRoundUp fileSize SectorSize) = NumDirect" "NumDirect \<le> nat NumSectors - card (marked bm)"
  shows "FileHeader_Allocate (kernel_dev n) now junk this bm fileSize s = Err Uninitialised"
  unfolding kernel_dev_eq
  by (rule synch_disk.Allocate_NumDirect) (use assms in \<open>simp_all add: bm.free_def map_ok_def\<close>)

theorem Allocate_full_header_fails_witness:
  "FileHeader_Allocate (kernel_dev 0) 9 (\<lambda>_. sample_header) sample_header clear_map 3328 booted = Err Uninitialised"
  by (rule Allocate_full_header_fails[OF lone_booted clear_map_ok(1) sample_header_shape sample_header_shape])
    (simp_all add: divRoundUp_nonneg SectorSize_def NumDirect_def clear_map_ok(2) disk_defs)

text \<open>C24. \<open>Deallocate\<close> never returns: it fails or loops, on every header, map and disk. On a file with one header
  it fails the assertion that the sector it frees is marked, in the second turn of its outer loop.\<close>

theorem Deallocate_never_returns:
  "(\<forall>r. FileHeader_Deallocate dev h bm s \<noteq> Ok r) \<and>
   (hdr_shape h \<and> 0 < sint (numSectors h) \<and> nextFdrSector h = -1 \<and> map_ok bm \<and>
    sector_ok (sint (dataSectors h ! 0)) \<and> nat (sint (dataSectors h ! 0)) \<in> marked bm \<longrightarrow>
    FileHeader_Deallocate dev h bm s = Err AssertFailed)"
proof -
  have "FileHeader_Deallocate dev h bm s = Err AssertFailed"
    if "hdr_shape h" "0 < sint (numSectors h)" "nextFdrSector h = -1" "map_ok bm"
      "sector_ok (sint (dataSectors h ! 0))" "nat (sint (dataSectors h ! 0)) \<in> marked bm"
    using Deallocate_twice[of h bm "nat (sint (dataSectors h ! 0))"] that marked_bound[of bm]
    by (auto simp: map_ok_def sector_ok_def)
  then show ?thesis using Deallocate_not_Ok[of dev h bm s] by simp
qed

theorem Deallocate_never_returns_witness:
  "FileHeader_Deallocate (kernel_dev 0) sample_header (clear_map\<lparr>bm_map := (replicate 32 0)[0 := 64]\<rparr>) booted =
     Err AssertFailed"
proof -
  let ?bm = "clear_map\<lparr>bm_map := (replicate 32 0)[0 := 64]\<rparr>"
  have "map_ok ?bm" "6 \<in> marked ?bm"
    by (simp_all add: map_ok_def clear_map_def BitMap_ok_def bm_size_def disk_defs marked_def divRoundUp_def
        BitsInWord_def bit_numeral_rec)
  then show ?thesis
    using Deallocate_never_returns[of "kernel_dev 0" sample_header ?bm booted] sample_header_shape
    by (simp add: sample_header_def sector_ok_def disk_defs)
qed

subsection \<open>Open files\<close>

text \<open>C20. Reading refines a slice of the file's bytes: \<open>ReadAt\<close> returns the bytes from the position on, as many as
  asked for or as there are, for positions inside, at the edges and past the end of the file, and
  leaves the disk as it is.\<close>

theorem ReadAt_slice:
  assumes "lone s" "file_ok (sectors s) (of_hdr f) hs ds" "0 \<le> position" "position + nbytes \<le> INT_MAX"
  defines "data \<equiv> take (nat nbytes) (drop (nat position) (file_bytes (sectors s) (of_hdr f) ds))"
  shows "\<exists>s'. OpenFile_ReadAt (kernel_dev n) f nbytes position s = Ok (int (length data), data, s') \<and>
    lone s' \<and> sectors s' = sectors s"
  using synch_disk.ReadAt_spec[OF assms(1-4), of n] unfolding kernel_dev_eq data_def .

text \<open>C19. Writing refines an update of the file's bytes: \<open>WriteAt\<close> replaces the bytes from the position on, cut at the
  end of the file, returns their number, and changes no other byte of the file and no sector of
  the disk that is not the file's data: whole sectors are written, but what is around the bytes is
  what was there.\<close>

theorem WriteAt_update:
  assumes "lone s" "file_ok (sectors s) (of_hdr f) hs ds" "0 \<le> position" "position + nbytes \<le> INT_MAX"
    "nat nbytes \<le> length from"
  defines "data \<equiv> take (nat (FileHeader_FileLength (of_hdr f)) - nat position) (take (nat nbytes) from)"
  shows "\<exists>s'. OpenFile_WriteAt (kernel_dev n) junk f from nbytes position s = Ok (int (length data), s') \<and>
    lone s' \<and> file_ok (sectors s') (of_hdr f) hs ds \<and>
    file_bytes (sectors s') (of_hdr f) ds = overwrite (nat position) data (file_bytes (sectors s) (of_hdr f) ds) \<and>
    (\<forall>j. sector_ok j \<longrightarrow> j \<notin> set ds \<longrightarrow> sectors s' j = sectors s j)"
  using synch_disk.WriteAt_spec[OF assms(1-5), of n junk] unfolding kernel_dev_eq data_def .

definition sample_file :: OpenFile where
  "sample_file = \<lparr>of_hdr = sample_header, of_seekPosition = 100, of_hdrSector = 5\<rparr>"

lemma sample_file_ok: "file_ok (sectors booted) (of_hdr sample_file) [] [6, 7]"
  "FileHeader_FileLength (of_hdr sample_file) = 200"
  by (simp_all add: file_ok_def sample_header_shape sample_file_def sector_ok_def disk_defs FileHeader_FileLength_def
      NumDirect_def) (simp_all add: sample_header_def)

lemma sample_file_bytes: "file_bytes (sectors booted) (of_hdr sample_file) [6, 7] = replicate 200 0"
proof -
  have "sector_ok 6" "sector_ok 7" by (simp_all add: sector_ok_def disk_defs)
  then have "raw_bytes (sectors booted) [6, 7] = replicate 256 0"
    by (simp add: raw_bytes_def sectors_booted SectorSize_def flip: replicate_add)
  then show ?thesis using sample_file_ok(2) by (simp add: file_bytes_def)
qed

theorem ReadAt_slice_witness:
  "\<exists>s'. OpenFile_ReadAt (kernel_dev 0) sample_file 50 190 booted = Ok (10, replicate 10 0, s') \<and>
    lone s' \<and> sectors s' = sectors booted"
  using ReadAt_slice[OF lone_booted sample_file_ok(1), of 190 50 0] by (simp add: sample_file_bytes INT_MAX_def)

theorem WriteAt_update_witness:
  "\<exists>s'. OpenFile_WriteAt (kernel_dev 0) (\<lambda>_. 0) sample_file [1, 2, 3] 3 198 booted = Ok (2, s') \<and>
    lone s' \<and> file_ok (sectors s') (of_hdr sample_file) [] [6, 7] \<and>
    file_bytes (sectors s') (of_hdr sample_file) [6, 7] = overwrite 198 [1, 2] (replicate 200 0) \<and>
    (\<forall>j. sector_ok j \<longrightarrow> j \<notin> {6, 7} \<longrightarrow> sectors s' j = sectors booted j)"
  using WriteAt_update[OF lone_booted sample_file_ok(1), of 198 3 "[1, 2, 3]" 0 "\<lambda>_. 0"]
  by (simp add: sample_file_bytes sample_file_ok(2) INT_MAX_def)

text \<open>C21. What a thread writes to a file it reads back: a \<open>Write\<close> of \<open>nbytes\<close> at the seek position, a \<open>Seek\<close> back
  and a \<open>Read\<close> return the bytes that fitted into the file, and the seek position ends where it was
  after the write.\<close>

theorem Write_Seek_Read:
  assumes "lone s" "file_ok (sectors s) (of_hdr f) hs ds" "0 \<le> of_seekPosition f"
    "of_seekPosition f \<le> FileHeader_FileLength (of_hdr f)" "0 \<le> nbytes"
    "of_seekPosition f + nbytes \<le> INT_MAX" "sector_ok (of_hdrSector f)" "of_hdrSector f \<notin> set (hs @ ds)"
    "nat nbytes \<le> length from"
  defines "data \<equiv> take (nat (FileHeader_FileLength (of_hdr f)) - nat (of_seekPosition f)) (take (nat nbytes) from)"
  shows "\<exists>f1 s1 f2 s2. OpenFile_Write (kernel_dev n) junk now f from nbytes s = Ok (int (length data), f1, s1) \<and>
    OpenFile_Read (kernel_dev n) later (OpenFile_Seek (of_seekPosition f) f1) nbytes s1 = Ok (int (length data), data, f2, s2) \<and>
    of_seekPosition f2 = of_seekPosition f1 \<and> lone s2 \<and> file_ok (sectors s2) (of_hdr f2) hs ds"
proof -
  let ?pos = "nat (of_seekPosition f)" and ?B = "file_bytes (sectors s) (of_hdr f) ds"
  let ?f1 = "f\<lparr>of_seekPosition := of_seekPosition f + int (length data),
    of_hdr := (of_hdr f)\<lparr>lastAccessTime := now, lastWriteTime := now\<rparr>\<rparr>"
  define f1 where "f1 = ?f1"
  obtain s1 where w: "OpenFile_Write (kernel_dev n) junk now f from nbytes s = Ok (int (length data), f1, s1)"
    "lone s1" "file_ok (sectors s1) (of_hdr f1) hs ds" "file_bytes (sectors s1) (of_hdr f1) ds = overwrite ?pos data ?B"
    by (rule synch_disk.Write_spec[OF assms(1-3,5-9), of n junk now,
        folded data_def, folded f1_def kernel_dev_eq])
  have f1: "of_hdrSector f1 = of_hdrSector f" "of_seekPosition f1 = of_seekPosition f + int (length data)"
    by (simp_all add: f1_def)
  let ?g = "OpenFile_Seek (of_seekPosition f) f1"
  have "length data = min (nat (FileHeader_FileLength (of_hdr f)) - ?pos) (nat nbytes)"
    unfolding data_def length_take min_absorb2[OF assms(9)] by (simp only: min.commute)
  moreover have "length ?B = nat (FileHeader_FileLength (of_hdr f))"
    by (rule synch_disk.length_file_bytes[OF assms(1,2)])
  moreover have "?pos \<le> nat (FileHeader_FileLength (of_hdr f))" using assms(4) by simp
  ultimately have d: "take (nat nbytes) (drop ?pos (overwrite ?pos data ?B)) = data"
    by (simp add: overwrite_def min_def)
  have g: "of_hdr ?g = of_hdr f1" "of_seekPosition ?g = of_seekPosition f" "of_hdrSector ?g = of_hdrSector f"
    using f1(1) by (simp_all add: OpenFile_Seek_def)
  let ?f2 = "?g\<lparr>of_seekPosition := of_seekPosition f + int (length data), of_hdr := (of_hdr f1)\<lparr>lastAccessTime := later\<rparr>\<rparr>"
  obtain s2 where "OpenFile_Read (kernel_dev n) later ?g nbytes s1 = Ok (int (length data), data, ?f2, s2)"
    "lone s2" "file_ok (sectors s2) (of_hdr ?f2) hs ds"
    by (rule synch_disk.Read_spec[of s1 ?g hs ds nbytes n later, unfolded g w(4) d kernel_dev_eq[symmetric]])
      (rule w assms that | assumption)+
  moreover have "of_seekPosition ?f2 = of_seekPosition f1" using f1(2) by simp
  ultimately show ?thesis using w(1) by (intro exI conjI)
qed

theorem Write_Seek_Read_witness:
  "\<exists>f1 s1 f2 s2. OpenFile_Write (kernel_dev 0) (\<lambda>_. 0) 9 sample_file [1, 2, 3] 3 booted = Ok (3, f1, s1) \<and>
    OpenFile_Read (kernel_dev 0) 9 (OpenFile_Seek 100 f1) 3 s1 = Ok (3, [1, 2, 3], f2, s2) \<and>
    of_seekPosition f2 = of_seekPosition f1 \<and> lone s2 \<and> file_ok (sectors s2) (of_hdr f2) [] [6, 7]"
proof -
  have "of_seekPosition sample_file = 100" "of_hdrSector sample_file = 5" "sector_ok 5"
    by (simp_all add: sample_file_def sector_ok_def disk_defs)
  then show ?thesis
    using Write_Seek_Read[OF lone_booted sample_file_ok(1), of 3 "[1, 2, 3]" 0 "\<lambda>_. 0" 9 9]
    by (simp add: sample_file_ok(2) INT_MAX_def)
qed

end
