(* ===== verification/Directory.thy ===== *)
theory Directory
  imports Open_File "HOL-Library.Multiset"
begin

text \<open>
  Directories: src/filesys/directory.h and directory.cc. A directory is a table of entries that
  is read and written as the bytes of a file. The name of an entry is a pointer to the caller's
  string, not the string itself: \<open>str\<close> is the memory of strings that the process has at the
  moment, and to follow a pointer that leads to no string is a fault.
\<close>

subsection \<open>Entries and tables\<close>

record DirectoryEntry =
  de_inUse :: bool
  de_sector :: u32
  de_type :: byte
  de_name :: u32

record Directory =
  tableSize :: int
  dir_table :: "DirectoryEntry list"

text \<open>\<^verbatim>\<open>sizeof(DirectoryEntry)\<close> with 4-byte pointers; the padding after the two one-byte fields is
  not read by any operation and is written as zero.\<close>

definition DirectoryEntrySize :: int where "DirectoryEntrySize = 16"

definition entry_to_bytes :: "DirectoryEntry \<Rightarrow> byte list" where
  "entry_to_bytes e =
     [if de_inUse e then 1 else 0, 0, 0, 0] @ u32_to_le (de_sector e) @ [de_type e, 0, 0, 0] @ u32_to_le (de_name e)"

definition entry_of_bytes :: "byte list \<Rightarrow> DirectoryEntry" where
  "entry_of_bytes bs = \<lparr>de_inUse = (bs ! 0 \<noteq> 0), de_sector = u32_of_le (take 4 (drop 4 bs)), de_type = bs ! 8,
     de_name = u32_of_le (take 4 (drop 12 bs))\<rparr>"

definition table_to_bytes :: "DirectoryEntry list \<Rightarrow> byte list" where
  "table_to_bytes t = concat (map entry_to_bytes t)"

fun table_of_bytes :: "nat \<Rightarrow> byte list \<Rightarrow> DirectoryEntry list" where
  "table_of_bytes 0 bs = []"
| "table_of_bytes (Suc n) bs = entry_of_bytes (take 16 bs) # table_of_bytes n (drop 16 bs)"

lemma length_entry_to_bytes [simp]: "length (entry_to_bytes e) = 16"
  by (simp add: entry_to_bytes_def)

lemma entry_of_to_bytes [simp]: "entry_of_bytes (entry_to_bytes e) = e"
  by (simp add: entry_of_bytes_def entry_to_bytes_def nth_append)

lemma length_table_to_bytes [simp]: "length (table_to_bytes t) = 16 * length t"
  by (induction t) (simp_all add: table_to_bytes_def)

lemma length_table_of_bytes [simp]: "length (table_of_bytes n bs) = n"
  by (induction n arbitrary: bs) simp_all

lemma table_of_to_bytes [simp]: "table_of_bytes (length t) (table_to_bytes t @ bs) = t"
  by (induction t) (simp_all add: table_to_bytes_def)

subsection \<open>Operations\<close>

type_synonym c_strings = "u32 \<Rightarrow> string option"

definition c_string :: "c_strings \<Rightarrow> u32 \<Rightarrow> string result" where
  "c_string str p = (case str p of None \<Rightarrow> Err DanglingPointer | Some x \<Rightarrow> Ok x)"

text \<open>\<open>junk\<close> is what \<^verbatim>\<open>new DirectoryEntry[]\<close> finds in memory.\<close>

fun unuse_loop :: "int list \<Rightarrow> DirectoryEntry list \<Rightarrow> DirectoryEntry list result" where
  "unuse_loop [] t = Ok t"
| "unuse_loop (i # is) t =
     rbind (aget t i) (\<lambda>e. rbind (aset t i (e\<lparr>de_inUse := False\<rparr>)) (\<lambda>t. unuse_loop is t))"

definition Directory_new :: "(int \<Rightarrow> DirectoryEntry) \<Rightarrow> int \<Rightarrow> Directory result" where
  "Directory_new junk sz =
     rbind (unuse_loop [0..sz - 1] (map junk [0..sz - 1])) (\<lambda>t. Ok \<lparr>tableSize = sz, dir_table = t\<rparr>)"

definition Directory_FetchFrom :: "'s sector_dev \<Rightarrow> OpenFile \<Rightarrow> Directory \<Rightarrow> 's \<Rightarrow> (Directory \<times> 's) result" where
  "Directory_FetchFrom dev f d s =
     rbind (OpenFile_ReadAt dev f (tableSize d * DirectoryEntrySize) 0 s) (\<lambda>(n, data, s).
     rbind (mem_write data 0 (table_to_bytes (dir_table d))) (\<lambda>bs.
     Ok (d\<lparr>dir_table := table_of_bytes (length (dir_table d)) bs\<rparr>, s)))"

definition Directory_WriteBack :: "'s sector_dev \<Rightarrow> (nat \<Rightarrow> byte) \<Rightarrow> OpenFile \<Rightarrow> Directory \<Rightarrow> 's \<Rightarrow> 's result" where
  "Directory_WriteBack dev junk f d s =
     rbind (OpenFile_WriteAt dev junk f (table_to_bytes (dir_table d)) (tableSize d * DirectoryEntrySize) 0 s)
       (\<lambda>(n, s). Ok s)"

fun index_loop :: "c_strings \<Rightarrow> DirectoryEntry list \<Rightarrow> u32 \<Rightarrow> int list \<Rightarrow> int result" where
  "index_loop str t name [] = Ok (-1)"
| "index_loop str t name (i # is) =
     rbind (aget t i) (\<lambda>e.
     if de_inUse e
     then rbind (c_string str (de_name e)) (\<lambda>a. rbind (c_string str name) (\<lambda>b.
          if a = b then Ok i else index_loop str t name is))
     else index_loop str t name is)"

definition Directory_FindIndex :: "c_strings \<Rightarrow> Directory \<Rightarrow> u32 \<Rightarrow> int result" where
  "Directory_FindIndex str d name = index_loop str (dir_table d) name [0..tableSize d - 1]"

definition Directory_Find :: "c_strings \<Rightarrow> Directory \<Rightarrow> u32 \<Rightarrow> int result" where
  "Directory_Find str d name =
     rbind (Directory_FindIndex str d name) (\<lambda>i.
     if i \<noteq> -1 then rbind (aget (dir_table d) i) (\<lambda>e. Ok (sint (de_sector e))) else Ok (-1))"

fun add_loop :: "u32 \<Rightarrow> int \<Rightarrow> DirectoryEntry list \<Rightarrow> int list \<Rightarrow> (bool \<times> DirectoryEntry list) result" where
  "add_loop name newSector t [] = Ok (False, t)"
| "add_loop name newSector t (i # is) =
     rbind (aget t i) (\<lambda>e.
     if \<not> de_inUse e
     then rbind (aset t i \<lparr>de_inUse = True, de_sector = word_of_int newSector, de_type = 70, de_name = name\<rparr>) (\<lambda>t.
          Ok (True, t))
     else add_loop name newSector t is)"

definition Directory_Add :: "c_strings \<Rightarrow> Directory \<Rightarrow> u32 \<Rightarrow> int \<Rightarrow> (bool \<times> Directory) result" where
  "Directory_Add str d name newSector =
     rbind (Directory_FindIndex str d name) (\<lambda>i.
     if i \<noteq> -1 then Ok (False, d)
     else rbind (add_loop name newSector (dir_table d) [0..tableSize d - 1]) (\<lambda>(added, t).
          Ok (added, d\<lparr>dir_table := t\<rparr>)))"

definition Directory_Remove :: "c_strings \<Rightarrow> Directory \<Rightarrow> u32 \<Rightarrow> (bool \<times> Directory) result" where
  "Directory_Remove str d name =
     rbind (Directory_FindIndex str d name) (\<lambda>i.
     if i = -1 then Ok (False, d)
     else rbind (aget (dir_table d) i) (\<lambda>e.
          rbind (aset (dir_table d) i (e\<lparr>de_inUse := False\<rparr>)) (\<lambda>t.
          Ok (True, d\<lparr>dir_table := t\<rparr>))))"

text \<open>What \<open>List\<close> and \<open>Print\<close> write out.\<close>

fun list_loop :: "c_strings \<Rightarrow> DirectoryEntry list \<Rightarrow> int list \<Rightarrow> string list result" where
  "list_loop str t [] = Ok []"
| "list_loop str t (i # is) =
     rbind (aget t i) (\<lambda>e.
     if de_inUse e
     then rbind (c_string str (de_name e)) (\<lambda>a. rbind (list_loop str t is) (\<lambda>out. Ok (a # out)))
     else list_loop str t is)"

definition Directory_List :: "c_strings \<Rightarrow> Directory \<Rightarrow> string list result" where
  "Directory_List str d = list_loop str (dir_table d) [0..tableSize d - 1]"

fun dir_print_loop :: "'s sector_dev \<Rightarrow> c_strings \<Rightarrow> DirectoryEntry list \<Rightarrow> int list \<Rightarrow> 's \<Rightarrow>
    ((string \<times> int \<times> int list \<times> byte list list) list \<times> 's) result" where
  "dir_print_loop dev str t [] s = Ok ([], s)"
| "dir_print_loop dev str t (i # is) s =
     rbind (aget t i) (\<lambda>e.
     if de_inUse e
     then rbind (c_string str (de_name e)) (\<lambda>a.
          rbind (FileHeader_FetchFrom dev (sint (de_sector e)) s) (\<lambda>(h, s).
          rbind (FileHeader_Print dev h s) (\<lambda>(p, s).
          rbind (dir_print_loop dev str t is s) (\<lambda>(out, s). Ok ((a, sint (de_sector e), p) # out, s)))))
     else dir_print_loop dev str t is s)"

definition Directory_Print :: "'s sector_dev \<Rightarrow> c_strings \<Rightarrow> Directory \<Rightarrow> 's \<Rightarrow>
    ((string \<times> int \<times> int list \<times> byte list list) list \<times> 's) result" where
  "Directory_Print dev str d s = dir_print_loop dev str (dir_table d) [0..tableSize d - 1] s"

subsection \<open>A directory as a finite map\<close>

definition entry_key :: "c_strings \<Rightarrow> DirectoryEntry \<Rightarrow> string" where
  "entry_key str e = the (str (de_name e))"

definition used_entries :: "Directory \<Rightarrow> DirectoryEntry list" where
  "used_entries d = filter de_inUse (dir_table d)"

text \<open>The sectors of the file headers that the directory names.\<close>

definition dir_sectors :: "Directory \<Rightarrow> int list" where
  "dir_sectors d = map (\<lambda>e. sint (de_sector e)) (used_entries d)"

definition lookup :: "c_strings \<Rightarrow> Directory \<Rightarrow> string \<Rightarrow> int option" where
  "lookup str d = map_of (map (\<lambda>e. (entry_key str e, sint (de_sector e))) (used_entries d))"

definition dir_ok :: "c_strings \<Rightarrow> Directory \<Rightarrow> bool" where
  "dir_ok str d \<longleftrightarrow> tableSize d = int (length (dir_table d)) \<and> (\<forall>e\<in>set (used_entries d). str (de_name e) \<noteq> None) \<and>
     distinct (map (entry_key str) (used_entries d))"

lemma map_of_filter:
  "map_of (map (\<lambda>e. (f e, g e)) (filter P xs)) x = map_option g (find (\<lambda>e. P e \<and> f e = x) xs)"
  by (induction xs) auto

lemma index_loop_find:
  assumes "\<forall>i\<in>set is. i < length t" "\<forall>e\<in>set t. de_inUse e \<longrightarrow> str (de_name e) \<noteq> None" "str name = Some nm"
  shows "index_loop str t name (map int is) =
    Ok (case find (\<lambda>i. de_inUse (t ! i) \<and> entry_key str (t ! i) = nm) is of None \<Rightarrow> -1 | Some i \<Rightarrow> int i)"
  using assms(1)
proof (induction "is")
  case (Cons i "is")
  then show ?case using assms(2,3) by (auto simp: c_string_def entry_key_def)
qed simp

text \<open>The index that \<open>FindIndex\<close> returns.\<close>

lemma FindIndex_spec:
  assumes "dir_ok str d" "str name = Some nm"
  shows "(\<exists>i<length (dir_table d). Directory_FindIndex str d name = Ok (int i) \<and> de_inUse (dir_table d ! i) \<and>
        entry_key str (dir_table d ! i) = nm \<and> lookup str d nm = Some (sint (de_sector (dir_table d ! i)))) \<or>
    Directory_FindIndex str d name = Ok (-1) \<and> lookup str d nm = None"
proof -
  let ?t = "dir_table d" and ?P = "\<lambda>e. de_inUse e \<and> entry_key str e = nm"
  have "[0..int (length ?t) - 1] = map int [0..<length ?t]" using upto_range[of 0] by simp
  then have F: "Directory_FindIndex str d name =
      Ok (case find (\<lambda>i. ?P (?t ! i)) [0..<length ?t] of None \<Rightarrow> -1 | Some i \<Rightarrow> int i)"
    using index_loop_find[of "[0..<length ?t]" ?t str name nm] assms
    by (simp add: Directory_FindIndex_def dir_ok_def used_entries_def)
  have L: "lookup str d nm = map_option (\<lambda>e. sint (de_sector e)) (find ?P ?t)"
    by (simp add: lookup_def used_entries_def map_of_filter)
  show ?thesis
  proof (cases "find (\<lambda>i. ?P (?t ! i)) [0..<length ?t]")
    case None
    then have "\<forall>i<length ?t. \<not> ?P (?t ! i)" by (simp add: find_None_iff)
    then have "find ?P ?t = None" by (auto simp: find_None_iff in_set_conv_nth)
    with F L None show ?thesis by simp
  next
    case (Some i)
    then obtain "i < length ?t" "?P (?t ! i)" "\<forall>j<i. \<not> ?P (?t ! j)"
      by (auto simp: find_Some_iff)
    moreover from this have "find ?P ?t = Some (?t ! i)" by (auto simp: find_Some_iff)
    ultimately show ?thesis using F L Some by simp
  qed
qed

lemma Find_spec:
  assumes "dir_ok str d" "str name = Some nm"
  shows "Directory_Find str d name = Ok (case lookup str d nm of None \<Rightarrow> -1 | Some k \<Rightarrow> k)"
  using FindIndex_spec[OF assms] by (auto simp: Directory_Find_def)

lemma add_loop_full:
  assumes "\<forall>i\<in>set is. i < length t \<and> de_inUse (t ! i)"
  shows "add_loop name k t (map int is) = Ok (False, t)"
  using assms by (induction "is") auto

lemma add_loop_free:
  assumes "\<forall>i\<in>set is. i < length t \<and> de_inUse (t ! i)" "j < length t" "\<not> de_inUse (t ! j)"
  shows "add_loop name k t (map int is @ int j # js) =
    Ok (True, t[j := \<lparr>de_inUse = True, de_sector = word_of_int k, de_type = 70, de_name = name\<rparr>])"
  using assms by (induction "is") auto

lemma split_at: "j < length t \<Longrightarrow> t = take j t @ t ! j # drop (Suc j) t"
  by (rule id_take_nth_drop)

lemma map_of_insert_mid:
  assumes "x \<notin> fst ` set A"
  shows "map_of (A @ (x, v) # B) = (map_of (A @ B))(x \<mapsto> v)"
  using assms by (induction A) (auto simp: fun_eq_iff)

lemma lookup_None: "lookup str d nm = None \<longleftrightarrow> nm \<notin> entry_key str ` set (used_entries d)"
  by (auto simp: lookup_def map_of_eq_None_iff image_image)

lemma lookup_mid:
  assumes "used_entries d = A @ e # B" "used_entries d' = A @ B" "entry_key str e \<notin> entry_key str ` set (A @ B)"
  shows "lookup str d = (lookup str d')(entry_key str e \<mapsto> sint (de_sector e))"
proof -
  let ?f = "\<lambda>e. (entry_key str e, sint (de_sector e))"
  have "entry_key str e \<notin> fst ` set (map ?f A)" using assms(3) by auto
  from map_of_insert_mid[OF this] show ?thesis by (simp add: lookup_def assms(1,2))
qed

lemma Add_free:
  assumes "dir_ok str d" "str name = Some nm" "lookup str d nm = None" "length (used_entries d) < length (dir_table d)"
    "sint (word_of_int k :: u32) = k"
  obtains d' where "Directory_Add str d name k = Ok (True, d')" "dir_ok str d'" "tableSize d' = tableSize d"
    "lookup str d' = (lookup str d)(nm \<mapsto> k)" "mset (dir_sectors d') = add_mset k (mset (dir_sectors d))"
    "length (used_entries d') = Suc (length (used_entries d))"
proof -
  let ?t = "dir_table d"
  let ?e = "\<lparr>de_inUse = True, de_sector = word_of_int k, de_type = 70, de_name = name\<rparr>"
  have "\<exists>j<length ?t. \<not> de_inUse (?t ! j)"
  proof (rule ccontr)
    assume "\<not> ?thesis"
    then have "filter de_inUse ?t = ?t" by (auto simp: filter_id_conv in_set_conv_nth)
    with assms(4) show False by (simp add: used_entries_def)
  qed
  then obtain j where j: "j < length ?t" "\<not> de_inUse (?t ! j)" "\<forall>i<j. de_inUse (?t ! i)"
    using exists_least_iff[of "\<lambda>j. j < length ?t \<and> \<not> de_inUse (?t ! j)"] by auto
  let ?d = "d\<lparr>dir_table := ?t[j := ?e]\<rparr>" and ?A = "filter de_inUse (take j ?t)" and ?B = "filter de_inUse (drop (Suc j) ?t)"
  have old: "used_entries d = ?A @ ?B"
    using arg_cong[OF split_at[OF j(1)], of "filter de_inUse"] j(2) by (simp add: used_entries_def)
  have new: "used_entries ?d = ?A @ ?e # ?B"
    using j(1) by (simp add: used_entries_def upd_conv_take_nth_drop)
  have upto: "map int [0..<length ?t] = map int [0..<j] @ int j # map int [Suc j..<length ?t]"
    using j(1) upt_add_eq_append[of 0 j "length ?t - j"] by (simp add: upt_conv_Cons)
  have "Directory_FindIndex str d name = Ok (-1)" using FindIndex_spec[OF assms(1,2)] assms(3) by auto
  then have "Directory_Add str d name k = Ok (True, ?d)"
    using assms(1) j add_loop_free[of "[0..<j]" ?t j name k] upto_range[of 0 "length ?t"]
    by (simp add: Directory_Add_def dir_ok_def upto)
  moreover have key: "entry_key str ?e = nm" using assms(2) by (simp add: entry_key_def)
  have fresh: "nm \<notin> entry_key str ` set (?A @ ?B)" using assms(3) by (simp only: lookup_None old not_False_eq_True)
  have "dir_ok str ?d"
    using assms(1,2) key fresh by (auto simp: dir_ok_def new old)
  moreover have "lookup str ?d = (lookup str d)(nm \<mapsto> k)"
    using lookup_mid[OF new old] fresh key assms(5) by simp
  moreover have "mset (dir_sectors ?d) = add_mset k (mset (dir_sectors d))"
    using assms(5) by (simp add: dir_sectors_def new old)
  ultimately show ?thesis using that[of ?d] by (simp add: new old)
qed

lemma Add_full:
  assumes "dir_ok str d" "str name = Some nm" "lookup str d nm \<noteq> None \<or> length (used_entries d) = length (dir_table d)"
  shows "Directory_Add str d name k = Ok (False, d)"
proof (cases "lookup str d nm")
  case None
  have "filter de_inUse (dir_table d) = dir_table d"
    using assms(3) None by (simp add: used_entries_def) (metis filter_id_conv length_filter_less linorder_neq_iff)
  then have "\<forall>i<length (dir_table d). de_inUse (dir_table d ! i)" by (metis filter_id_conv nth_mem)
  moreover have "Directory_FindIndex str d name = Ok (-1)" using FindIndex_spec[OF assms(1,2)] None by auto
  ultimately show ?thesis
    using assms(1) add_loop_full[of "[0..<length (dir_table d)]" "dir_table d" name k] upto_range[of 0 "length (dir_table d)"]
    by (simp add: Directory_Add_def dir_ok_def)
next
  case (Some k)
  then show ?thesis using FindIndex_spec[OF assms(1,2)] by (auto simp: Directory_Add_def)
qed

lemma Remove_present:
  assumes "dir_ok str d" "str name = Some nm" "lookup str d nm = Some k"
  obtains d' where "Directory_Remove str d name = Ok (True, d')" "dir_ok str d'" "tableSize d' = tableSize d"
    "lookup str d' = (lookup str d)(nm := None)" "mset (dir_sectors d) = add_mset k (mset (dir_sectors d'))"
proof -
  let ?t = "dir_table d"
  obtain j where j: "j < length ?t" "Directory_FindIndex str d name = Ok (int j)" "de_inUse (?t ! j)"
    "entry_key str (?t ! j) = nm" "sint (de_sector (?t ! j)) = k"
    using FindIndex_spec[OF assms(1,2)] assms(3) by auto
  let ?d = "d\<lparr>dir_table := ?t[j := (?t ! j)\<lparr>de_inUse := False\<rparr>]\<rparr>"
  let ?A = "filter de_inUse (take j ?t)" and ?B = "filter de_inUse (drop (Suc j) ?t)"
  have old: "used_entries d = ?A @ ?t ! j # ?B"
    using arg_cong[OF split_at[OF j(1)], of "filter de_inUse"] j(3) by (simp add: used_entries_def)
  have new: "used_entries ?d = ?A @ ?B"
    using j(1) by (simp add: used_entries_def upd_conv_take_nth_drop)
  have "Directory_Remove str d name = Ok (True, ?d)"
    using j by (simp add: Directory_Remove_def)
  moreover have fresh: "nm \<notin> entry_key str ` set (?A @ ?B)"
    using assms(1) j(4) by (auto simp: dir_ok_def old)
  moreover have "dir_ok str ?d" using assms(1) by (auto simp: dir_ok_def new old)
  moreover have "lookup str ?d nm = None" using fresh by (simp only: lookup_None new not_False_eq_True)
  then have "lookup str ?d = (lookup str d)(nm := None)"
    using lookup_mid[OF old new] fresh j(4,5) by (simp add: fun_upd_idem)
  moreover have "mset (dir_sectors d) = add_mset k (mset (dir_sectors ?d))"
    using j(5) by (simp add: dir_sectors_def new old)
  ultimately show ?thesis using that[of ?d] by simp
qed

lemma Remove_absent:
  assumes "dir_ok str d" "str name = Some nm" "lookup str d nm = None"
  shows "Directory_Remove str d name = Ok (False, d)"
  using FindIndex_spec[OF assms(1,2)] assms(3) by (auto simp: Directory_Remove_def)

subsection \<open>The interface of a directory: a bounded map\<close>

text \<open>
  What the file system relies on: a table of at most \<open>cap\<close> names. \<open>m\<close> is the memory of names and
  \<open>look\<close> the abstract map; sector numbers that fit an int are \<open>fits\<close>.
\<close>

datatype 'p dir_op = AddName 'p int | RemoveName 'p

fun map_op :: "('p \<Rightarrow> 'x option) \<Rightarrow> nat \<Rightarrow> ('x \<Rightarrow> int option) \<Rightarrow> 'p dir_op \<Rightarrow> bool \<times> ('x \<Rightarrow> int option)" where
  "map_op m n f (AddName p k) =
     (let x = the (m p) in if f x = None \<and> card (dom f) < n then (True, f(x \<mapsto> k)) else (False, f))"
| "map_op m n f (RemoveName p) = (let x = the (m p) in if f x = None then (False, f) else (True, f(x := None)))"

fun map_ops :: "('p \<Rightarrow> 'x option) \<Rightarrow> nat \<Rightarrow> ('x \<Rightarrow> int option) \<Rightarrow> 'p dir_op list \<Rightarrow> bool list \<times> ('x \<Rightarrow> int option)" where
  "map_ops m n f [] = ([], f)"
| "map_ops m n f (x # xs) = (let (b, f) = map_op m n f x; (bs, f) = map_ops m n f xs in (b # bs, f))"

fun op_ok :: "('p \<Rightarrow> 'x option) \<Rightarrow> (int \<Rightarrow> bool) \<Rightarrow> 'p dir_op \<Rightarrow> bool" where
  "op_ok m fits (AddName p k) \<longleftrightarrow> m p \<noteq> None \<and> fits k"
| "op_ok m fits (RemoveName p) \<longleftrightarrow> m p \<noteq> None"

locale name_table =
  fixes find :: "('p \<Rightarrow> 'x option) \<Rightarrow> 'd \<Rightarrow> 'p \<Rightarrow> int result"
    and add :: "('p \<Rightarrow> 'x option) \<Rightarrow> 'd \<Rightarrow> 'p \<Rightarrow> int \<Rightarrow> (bool \<times> 'd) result"
    and remove :: "('p \<Rightarrow> 'x option) \<Rightarrow> 'd \<Rightarrow> 'p \<Rightarrow> (bool \<times> 'd) result"
    and invar :: "('p \<Rightarrow> 'x option) \<Rightarrow> 'd \<Rightarrow> bool"
    and look :: "('p \<Rightarrow> 'x option) \<Rightarrow> 'd \<Rightarrow> 'x \<Rightarrow> int option"
    and cap :: "'d \<Rightarrow> nat"
    and fits :: "int \<Rightarrow> bool"
  assumes find_law: "invar m d \<Longrightarrow> m p = Some x \<Longrightarrow> find m d p = Ok (case look m d x of None \<Rightarrow> -1 | Some k \<Rightarrow> k)"
    and add_law: "invar m d \<Longrightarrow> m p = Some x \<Longrightarrow> look m d x = None \<Longrightarrow> card (dom (look m d)) < cap d \<Longrightarrow> fits k \<Longrightarrow>
      \<exists>d'. add m d p k = Ok (True, d') \<and> invar m d' \<and> look m d' = (look m d)(x \<mapsto> k) \<and> cap d' = cap d"
    and add_refused: "invar m d \<Longrightarrow> m p = Some x \<Longrightarrow> look m d x \<noteq> None \<or> card (dom (look m d)) \<ge> cap d \<Longrightarrow>
      add m d p k = Ok (False, d)"
    and remove_law: "invar m d \<Longrightarrow> m p = Some x \<Longrightarrow> look m d x = Some k \<Longrightarrow>
      \<exists>d'. remove m d p = Ok (True, d') \<and> invar m d' \<and> look m d' = (look m d)(x := None) \<and> cap d' = cap d"
    and remove_absent: "invar m d \<Longrightarrow> m p = Some x \<Longrightarrow> look m d x = None \<Longrightarrow> remove m d p = Ok (False, d)"
begin

fun table_op :: "('p \<Rightarrow> 'x option) \<Rightarrow> 'd \<Rightarrow> 'p dir_op \<Rightarrow> (bool \<times> 'd) result" where
  "table_op m d (AddName p k) = add m d p k"
| "table_op m d (RemoveName p) = remove m d p"

fun table_ops :: "('p \<Rightarrow> 'x option) \<Rightarrow> 'd \<Rightarrow> 'p dir_op list \<Rightarrow> (bool list \<times> 'd) result" where
  "table_ops m d [] = Ok ([], d)"
| "table_ops m d (x # xs) =
     rbind (table_op m d x) (\<lambda>(b, d). rbind (table_ops m d xs) (\<lambda>(bs, d). Ok (b # bs, d)))"

lemma table_op_refines:
  assumes "invar m d" "op_ok m fits x"
  obtains d' where "table_op m d x = Ok (fst (map_op m (cap d) (look m d) x), d')" "invar m d'"
    "look m d' = snd (map_op m (cap d) (look m d) x)" "cap d' = cap d"
proof (cases x)
  case (AddName p k)
  with assms(2) obtain n where n: "m p = Some n" "fits k" by auto
  show ?thesis
  proof (cases "look m d n = None \<and> card (dom (look m d)) < cap d")
    case True
    then obtain d' where "add m d p k = Ok (True, d')" "invar m d'" "look m d' = (look m d)(n \<mapsto> k)" "cap d' = cap d"
      using add_law[OF assms(1) n(1)] n(2) by blast
    with that[of d'] True n AddName show ?thesis by simp
  next
    case False
    then have "add m d p k = Ok (False, d)" using add_refused[OF assms(1) n(1)] by auto
    with that[of d] False n assms(1) AddName show ?thesis by auto
  qed
next
  case (RemoveName p)
  with assms(2) obtain n where n: "m p = Some n" by auto
  show ?thesis
  proof (cases "look m d n")
    case None
    with that[of d] n assms(1) RemoveName remove_absent[OF assms(1) n] show ?thesis by simp
  next
    case (Some k)
    then obtain d' where "remove m d p = Ok (True, d')" "invar m d'" "look m d' = (look m d)(n := None)" "cap d' = cap d"
      using remove_law[OF assms(1) n] by blast
    with that[of d'] Some n RemoveName show ?thesis by simp
  qed
qed

lemma table_ops_refine:
  assumes "invar m d" "\<forall>x\<in>set xs. op_ok m fits x"
  shows "\<exists>d'. table_ops m d xs = Ok (fst (map_ops m (cap d) (look m d) xs), d') \<and> invar m d' \<and>
    look m d' = snd (map_ops m (cap d) (look m d) xs)"
  using assms
proof (induction xs arbitrary: d)
  case (Cons x xs)
  obtain d1 where d1: "table_op m d x = Ok (fst (map_op m (cap d) (look m d) x), d1)" "invar m d1"
    "look m d1 = snd (map_op m (cap d) (look m d) x)" "cap d1 = cap d"
    using table_op_refines[OF Cons.prems(1)] Cons.prems(2) by auto
  moreover from Cons.IH[OF d1(2)] Cons.prems(2) obtain d2 where
    "table_ops m d1 xs = Ok (fst (map_ops m (cap d1) (look m d1) xs), d2)" "invar m d2"
    "look m d2 = snd (map_ops m (cap d1) (look m d1) xs)" by auto
  ultimately show ?case by (simp add: case_prod_beta Let_def)
qed simp

end

lemma card_dom_lookup: "dir_ok str d \<Longrightarrow> card (dom (lookup str d)) = length (used_entries d)"
  using distinct_card[of "map (entry_key str) (used_entries d)"]
  by (simp add: dir_ok_def lookup_def dom_map_of_conv_image_fst image_image)

lemma used_entries_le: "length (used_entries d) \<le> length (dir_table d)"
  by (simp add: used_entries_def)

interpretation dir: name_table Directory_Find Directory_Add Directory_Remove dir_ok lookup
  "\<lambda>d. length (dir_table d)" "\<lambda>k. sint (word_of_int k :: u32) = k"
proof unfold_locales
  fix m :: c_strings and d p x and k :: int
  assume d: "dir_ok m d" and p: "m p = Some x"
  have same: "length (dir_table d') = length (dir_table d)" if "dir_ok m d'" "tableSize d' = tableSize d" for d'
    using that d by (simp add: dir_ok_def)
  show "Directory_Find m d p = Ok (case lookup m d x of None \<Rightarrow> -1 | Some k \<Rightarrow> k)" by (rule Find_spec[OF d p])
  show "\<exists>d'. Directory_Add m d p k = Ok (True, d') \<and> dir_ok m d' \<and> lookup m d' = (lookup m d)(x \<mapsto> k) \<and>
      length (dir_table d') = length (dir_table d)"
    if "lookup m d x = None" "card (dom (lookup m d)) < length (dir_table d)" "sint (word_of_int k :: u32) = k"
    using Add_free[OF d p that(1) _ that(3)] that(2) card_dom_lookup[OF d] same by metis
  show "Directory_Add m d p k = Ok (False, d)"
    if "lookup m d x \<noteq> None \<or> length (dir_table d) \<le> card (dom (lookup m d))"
    using Add_full[OF d p] that used_entries_le[of d] card_dom_lookup[OF d] by auto
  show "\<exists>d'. Directory_Remove m d p = Ok (True, d') \<and> dir_ok m d' \<and> lookup m d' = (lookup m d)(x := None) \<and>
      length (dir_table d') = length (dir_table d)" if "lookup m d x = Some k"
    using Remove_present[OF d p that] same by metis
  show "Directory_Remove m d p = Ok (False, d)" if "lookup m d x = None" by (rule Remove_absent[OF d p that])
qed

lemma unuse_loop_spec:
  assumes "\<forall>i\<in>set is. i < length t"
  shows "\<exists>t'. unuse_loop (map int is) t = Ok t' \<and> length t' = length t \<and>
    (\<forall>i<length t. de_inUse (t' ! i) \<longleftrightarrow> de_inUse (t ! i) \<and> i \<notin> set is)"
  using assms
proof (induction "is" arbitrary: t)
  case (Cons i "is")
  then show ?case
    using Cons.IH[of "t[i := (t ! i)\<lparr>de_inUse := False\<rparr>]"] by (auto simp: nth_list_update)
qed simp

lemma Directory_new_spec:
  assumes "0 \<le> sz"
  obtains d where "Directory_new junk sz = Ok d" "dir_ok str d" "length (dir_table d) = nat sz" "tableSize d = sz"
    "used_entries d = []" "lookup str d = Map.empty"
proof -
  have "[0..sz - 1] = map int [0..<nat sz]" using upto_range[of 0 "nat sz"] assms by simp
  then obtain t where t: "unuse_loop [0..sz - 1] (map junk [0..sz - 1]) = Ok t" "length t = nat sz"
    "\<forall>i<nat sz. \<not> de_inUse (t ! i)"
    using unuse_loop_spec[of "[0..<nat sz]" "map junk [0..sz - 1]"] by auto
  let ?d = "\<lparr>tableSize = sz, dir_table = t\<rparr>"
  have "used_entries ?d = []"
    using t by (auto simp: used_entries_def filter_empty_conv in_set_conv_nth)
  with that[of ?d] t assms show ?thesis by (simp add: Directory_new_def dir_ok_def lookup_def)
qed

text \<open>C10. A directory is a map of at most \<open>tableSize\<close> names: any sequence of \<open>Add\<close> and \<open>Remove\<close> on a new directory
  returns the flags that the map gives, and a following \<open>Find\<close> returns the sector of the name, or -1.
  The strings that the names point to stay as they are.\<close>

theorem Directory_refines_map:
  assumes "0 \<le> sz" "\<forall>x\<in>set ops. op_ok str (\<lambda>k. sint (word_of_int k :: u32) = k) x" "str name = Some nm"
  shows "\<exists>d d'. Directory_new junk sz = Ok d \<and>
    dir.table_ops str d ops = Ok (fst (map_ops str (nat sz) Map.empty ops), d') \<and>
    Directory_Find str d' name = Ok (case snd (map_ops str (nat sz) Map.empty ops) nm of None \<Rightarrow> -1 | Some k \<Rightarrow> k)"
proof -
  obtain d where d: "Directory_new junk sz = Ok d" "dir_ok str d" "length (dir_table d) = nat sz" "lookup str d = Map.empty"
    using Directory_new_spec[OF assms(1), of junk str] by metis
  from dir.table_ops_refine[OF d(2) assms(2)] d(3,4) obtain d' where
    "dir.table_ops str d ops = Ok (fst (map_ops str (nat sz) Map.empty ops), d')" "dir_ok str d'"
    "lookup str d' = snd (map_ops str (nat sz) Map.empty ops)" by auto
  with d(1) Find_spec[OF this(2) assms(3)] show ?thesis by auto
qed

theorem Directory_refines_map_witness:
  "\<exists>d d'. Directory_new (\<lambda>_. \<lparr>de_inUse = True, de_sector = 9, de_type = 0, de_name = 0\<rparr>) 2 = Ok d \<and>
     dir.table_ops (\<lambda>p. Some (if p = 1 then ''a'' else ''b'')) d [AddName 1 7, AddName 2 8, AddName 2 9, RemoveName 1] =
       Ok ([True, True, False, True], d') \<and>
     Directory_Find (\<lambda>p. Some (if p = 1 then ''a'' else ''b'')) d' 2 = Ok 8"
  using Directory_refines_map[of 2 "[AddName 1 7, AddName 2 8, AddName 2 9, RemoveName 1]"
      "\<lambda>p. Some (if p = 1 then ''a'' else ''b'')" 2 "''b''" "\<lambda>_. \<lparr>de_inUse = True, de_sector = 9, de_type = 0, de_name = 0\<rparr>"]
  by simp

subsection \<open>Directories on disk\<close>

context block_store
begin

lemma Directory_FetchFrom_spec:
  assumes "ready s" "file_ok (sec s) (of_hdr f) hs ds" "tableSize d = int (length (dir_table d))"
    "FileHeader_FileLength (of_hdr f) = 16 * tableSize d"
  obtains s' where "Directory_FetchFrom dev f d s =
      Ok (d\<lparr>dir_table := table_of_bytes (length (dir_table d)) (file_bytes (sec s) (of_hdr f) ds)\<rparr>, s')"
    "ready s'" "sec s' = sec s"
proof -
  let ?B = "file_bytes (sec s) (of_hdr f) ds"
  have len: "length ?B = 16 * length (dir_table d)"
    using length_file_bytes[OF assms(1,2)] assms(3,4) by simp
  have "tableSize d * DirectoryEntrySize \<le> INT_MAX"
    using FileLength_bound[of "of_hdr f"] assms(4) by (simp add: DirectoryEntrySize_def)
  with ReadAt_spec[OF assms(1,2), of 0 "tableSize d * DirectoryEntrySize"] obtain s' where
    "OpenFile_ReadAt dev f (tableSize d * DirectoryEntrySize) 0 s = Ok (int (length ?B), ?B, s')"
    "ready s'" "sec s' = sec s"
    using len assms(3) by (auto simp: DirectoryEntrySize_def)
  moreover have "mem_write ?B 0 (table_to_bytes (dir_table d)) = Ok ?B"
    using mem_write_nat[of 0 ?B "table_to_bytes (dir_table d)"] len by (simp add: overwrite_def)
  ultimately show ?thesis using that by (simp add: Directory_FetchFrom_def)
qed

lemma Directory_WriteBack_spec:
  assumes "ready s" "file_ok (sec s) (of_hdr f) hs ds" "tableSize d = int (length (dir_table d))"
    "FileHeader_FileLength (of_hdr f) = 16 * tableSize d"
  obtains s' where "Directory_WriteBack dev junk f d s = Ok s'" "ready s'" "file_ok (sec s') (of_hdr f) hs ds"
    "file_bytes (sec s') (of_hdr f) ds = table_to_bytes (dir_table d)"
    "\<forall>j. sector_ok j \<longrightarrow> j \<notin> set ds \<longrightarrow> sec s' j = sec s j"
proof -
  let ?T = "table_to_bytes (dir_table d)"
  have n: "nat (tableSize d * DirectoryEntrySize) = length ?T" "nat (FileHeader_FileLength (of_hdr f)) = length ?T"
    using assms(3,4) by (simp_all add: DirectoryEntrySize_def)
  have "tableSize d * DirectoryEntrySize \<le> INT_MAX"
    using FileLength_bound[of "of_hdr f"] assms(4) by (simp add: DirectoryEntrySize_def)
  with WriteAt_spec[OF assms(1,2), of 0 "tableSize d * DirectoryEntrySize" ?T junk] n obtain s' where
    "OpenFile_WriteAt dev junk f ?T (tableSize d * DirectoryEntrySize) 0 s = Ok (int (length ?T), s')"
    "ready s'" "file_ok (sec s') (of_hdr f) hs ds"
    "file_bytes (sec s') (of_hdr f) ds = overwrite 0 ?T (file_bytes (sec s) (of_hdr f) ds)"
    "\<forall>j. sector_ok j \<longrightarrow> j \<notin> set ds \<longrightarrow> sec s' j = sec s j" by auto
  moreover have "length (file_bytes (sec s) (of_hdr f) ds) = length ?T"
    using length_file_bytes[OF assms(1,2)] n(2) by simp
  ultimately show ?thesis using that by (simp add: Directory_WriteBack_def overwrite_def)
qed

end

end
