(* ===== verification/File_System.thy ===== *)
theory File_System
  imports Directory
begin

text \<open>
  The file system: src/filesys/filesys.h and filesys.cc, with \<open>FetchFrom\<close> and \<open>WriteBack\<close> of
  src/userprog/bitmap.cc. The map of free sectors and the directory are files themselves, whose
  headers are in sectors 0 and 1; sector 2 holds the header of the pipe. Every operation reads
  both from disk, changes the copy in memory and writes it back if it succeeds.
\<close>

subsection \<open>Operations\<close>

definition BitMap_FetchFrom :: "'s sector_dev \<Rightarrow> OpenFile \<Rightarrow> BitMap \<Rightarrow> 's \<Rightarrow> (BitMap \<times> 's) result" where
  "BitMap_FetchFrom dev f bm s =
     rbind (OpenFile_ReadAt dev f (numWords bm * 4) 0 s) (\<lambda>(n, data, s).
     rbind (mem_write data 0 (words_to_bytes (bm_map bm))) (\<lambda>bs.
     Ok (bm\<lparr>bm_map := bytes_to_words (length (bm_map bm)) bs\<rparr>, s)))"

definition BitMap_WriteBack :: "'s sector_dev \<Rightarrow> (nat \<Rightarrow> byte) \<Rightarrow> OpenFile \<Rightarrow> BitMap \<Rightarrow> 's \<Rightarrow> 's result" where
  "BitMap_WriteBack dev junk f bm s =
     rbind (OpenFile_WriteAt dev junk f (words_to_bytes (bm_map bm)) (numWords bm * 4) 0 s) (\<lambda>(n, s). Ok s)"

definition FreeMapSector :: int where "FreeMapSector = 0"
definition DirectorySector :: int where "DirectorySector = 1"
definition PipeSector :: int where "PipeSector = 2"
definition FreeMapFileSize :: int where "FreeMapFileSize = NumSectors div BitsInByte"
definition NumDirEntries :: int where "NumDirEntries = 10"
definition DirectoryFileSize :: int where "DirectoryFileSize = DirectoryEntrySize * NumDirEntries"
definition PipeFileSize :: int where "PipeFileSize = 500"

lemmas fs_defs = FreeMapSector_def DirectorySector_def PipeSector_def FreeMapFileSize_def NumDirEntries_def
  DirectoryFileSize_def PipeFileSize_def DirectoryEntrySize_def BitsInByte_def

record FileSystem =
  freeMapFile :: OpenFile
  directoryFile :: OpenFile
  pipeFile :: OpenFile

text \<open>What \<open>new\<close> finds in the memory it returns, for bitmaps, directory tables, file headers, the chained
  headers of \<open>Allocate\<close> and byte buffers, and what \<open>time\<close> returns.\<close>

record fresh_memory =
  fr_words :: "nat \<Rightarrow> u32"
  fr_entries :: "int \<Rightarrow> DirectoryEntry"
  fr_hdrs :: "nat \<Rightarrow> FileHeader"
  fr_chain :: "int \<Rightarrow> FileHeader"
  fr_bytes :: "nat \<Rightarrow> byte"
  fr_now :: u32

definition open_files :: "'s sector_dev \<Rightarrow> 's \<Rightarrow> (FileSystem \<times> 's) result" where
  "open_files dev s =
     rbind (OpenFile_new dev FreeMapSector s) (\<lambda>(mapFile, s).
     rbind (OpenFile_new dev DirectorySector s) (\<lambda>(dirFile, s).
     rbind (OpenFile_new dev PipeSector s) (\<lambda>(pipe, s).
     Ok (\<lparr>freeMapFile = mapFile, directoryFile = dirFile, pipeFile = pipe\<rparr>, s))))"

definition format_headers :: "'s sector_dev \<Rightarrow> fresh_memory \<Rightarrow> BitMap \<Rightarrow> 's \<Rightarrow> (BitMap \<times> 's) result" where
  "format_headers dev m freeMap s =
     rbind (BitMap_Mark freeMap FreeMapSector) (\<lambda>freeMap.
     rbind (BitMap_Mark freeMap DirectorySector) (\<lambda>freeMap.
     rbind (BitMap_Mark freeMap PipeSector) (\<lambda>freeMap.
     rbind (FileHeader_Allocate dev (fr_now m) (fr_chain m) (fr_hdrs m 0) freeMap FreeMapFileSize s)
       (\<lambda>(ok, mapHdr, freeMap, s). ASSERT ok (
     rbind (FileHeader_Allocate dev (fr_now m) (fr_chain m) (fr_hdrs m 1) freeMap DirectoryFileSize s)
       (\<lambda>(ok, dirHdr, freeMap, s). ASSERT ok (
     rbind (FileHeader_Allocate dev (fr_now m) (fr_chain m) (fr_hdrs m 2) freeMap PipeFileSize s)
       (\<lambda>(ok, pipeHdr, freeMap, s). ASSERT ok (
     rbind (FileHeader_WriteBack dev mapHdr FreeMapSector s) (\<lambda>s.
     rbind (FileHeader_WriteBack dev dirHdr DirectorySector s) (\<lambda>s.
     rbind (FileHeader_WriteBack dev pipeHdr PipeSector s) (\<lambda>s.
     Ok (freeMap, s)))))))))))))"

definition FileSystem_new :: "'s sector_dev \<Rightarrow> c_strings \<Rightarrow> fresh_memory \<Rightarrow> bool \<Rightarrow> bool \<Rightarrow> 's \<Rightarrow>
    (FileSystem \<times> 's) result" where
  "FileSystem_new dev str m debug fmt s =
     (if fmt
      then
        rbind (BitMap_new (fr_words m) NumSectors) (\<lambda>freeMap.
        rbind (Directory_new (fr_entries m) NumDirEntries) (\<lambda>directory.
        rbind (format_headers dev m freeMap s) (\<lambda>(freeMap, s).
        rbind (open_files dev s) (\<lambda>(fs, s).
        rbind (BitMap_WriteBack dev (fr_bytes m) (freeMapFile fs) freeMap s) (\<lambda>s.
        rbind (Directory_WriteBack dev (fr_bytes m) (directoryFile fs) directory s) (\<lambda>s.
        rbind (if debug
               then rbind (BitMap_Print freeMap) (\<lambda>_. rbind (Directory_Print dev str directory s) (\<lambda>(_, s). Ok s))
               else Ok s) (\<lambda>s.
        Ok (fs, s))))))))
      else open_files dev s)"

text \<open>A file is created; the flag says whether it was.\<close>

definition fetch_directory :: "'s sector_dev \<Rightarrow> fresh_memory \<Rightarrow> FileSystem \<Rightarrow> 's \<Rightarrow> (Directory \<times> 's) result" where
  "fetch_directory dev m fs s =
     rbind (Directory_new (fr_entries m) NumDirEntries) (\<lambda>directory.
     Directory_FetchFrom dev (directoryFile fs) directory s)"

definition fetch_map :: "'s sector_dev \<Rightarrow> fresh_memory \<Rightarrow> FileSystem \<Rightarrow> 's \<Rightarrow> (BitMap \<times> 's) result" where
  "fetch_map dev m fs s =
     rbind (BitMap_new (fr_words m) NumSectors) (\<lambda>freeMap. BitMap_FetchFrom dev (freeMapFile fs) freeMap s)"

definition FileSystem_Create :: "'s sector_dev \<Rightarrow> c_strings \<Rightarrow> fresh_memory \<Rightarrow> FileSystem \<Rightarrow> u32 \<Rightarrow> int \<Rightarrow> 's \<Rightarrow>
    (bool \<times> 's) result" where
  "FileSystem_Create dev str m fs name initialSize s =
     rbind (fetch_directory dev m fs s) (\<lambda>(directory, s).
     rbind (Directory_Find str directory name) (\<lambda>found.
     if found \<noteq> -1 then Ok (False, s)
     else
       rbind (fetch_map dev m fs s) (\<lambda>(freeMap, s).
       rbind (BitMap_Find freeMap) (\<lambda>(freeMap, sector).
       if sector = -1 then Ok (False, s)
       else
         rbind (Directory_Add str directory name sector) (\<lambda>(added, directory).
         if \<not> added then Ok (False, s)
         else
           rbind (FileHeader_Allocate dev (fr_now m) (fr_chain m) (fr_hdrs m 0) freeMap initialSize s)
             (\<lambda>(ok, hdr, freeMap, s).
           if \<not> ok then Ok (False, s)
           else
             rbind (FileHeader_WriteBack dev hdr sector s) (\<lambda>s.
             rbind (Directory_WriteBack dev (fr_bytes m) (directoryFile fs) directory s) (\<lambda>s.
             rbind (BitMap_WriteBack dev (fr_bytes m) (freeMapFile fs) freeMap s) (\<lambda>s.
             Ok (True, s))))))))))"

definition FileSystem_Open :: "'s sector_dev \<Rightarrow> c_strings \<Rightarrow> fresh_memory \<Rightarrow> FileSystem \<Rightarrow> u32 \<Rightarrow> 's \<Rightarrow>
    (OpenFile option \<times> 's) result" where
  "FileSystem_Open dev str m fs name s =
     rbind (fetch_directory dev m fs s) (\<lambda>(directory, s).
     rbind (Directory_Find str directory name) (\<lambda>sector.
     if sector \<ge> 0 then rbind (OpenFile_new dev sector s) (\<lambda>(f, s). Ok (Some f, s)) else Ok (None, s)))"

definition FileSystem_Remove :: "'s sector_dev \<Rightarrow> c_strings \<Rightarrow> fresh_memory \<Rightarrow> FileSystem \<Rightarrow> u32 \<Rightarrow> 's \<Rightarrow>
    (bool \<times> 's) result" where
  "FileSystem_Remove dev str m fs name s =
     rbind (fetch_directory dev m fs s) (\<lambda>(directory, s).
     rbind (Directory_Find str directory name) (\<lambda>sector.
     if sector = -1 then Ok (False, s)
     else
       rbind (FileHeader_FetchFrom dev sector s) (\<lambda>(fileHdr, s).
       rbind (fetch_map dev m fs s) (\<lambda>(freeMap, s).
       rbind (FileHeader_Deallocate dev fileHdr freeMap s) (\<lambda>(freeMap, s).
       rbind (BitMap_Clear freeMap sector) (\<lambda>freeMap.
       rbind (Directory_Remove str directory name) (\<lambda>(_, directory).
       rbind (BitMap_WriteBack dev (fr_bytes m) (freeMapFile fs) freeMap s) (\<lambda>s.
       rbind (Directory_WriteBack dev (fr_bytes m) (directoryFile fs) directory s) (\<lambda>s.
       Ok (True, s))))))))))"

definition FileSystem_List :: "'s sector_dev \<Rightarrow> c_strings \<Rightarrow> fresh_memory \<Rightarrow> FileSystem \<Rightarrow> 's \<Rightarrow>
    (string list \<times> 's) result" where
  "FileSystem_List dev str m fs s =
     rbind (fetch_directory dev m fs s) (\<lambda>(directory, s).
     rbind (Directory_List str directory) (\<lambda>out. Ok (out, s)))"

definition FileSystem_Print :: "'s sector_dev \<Rightarrow> c_strings \<Rightarrow> fresh_memory \<Rightarrow> FileSystem \<Rightarrow> 's \<Rightarrow>
    ((int list \<times> byte list list) list \<times> int list \<times> (string \<times> int \<times> int list \<times> byte list list) list \<times> 's) result" where
  "FileSystem_Print dev str m fs s =
     rbind (BitMap_new (fr_words m) NumSectors) (\<lambda>freeMap.
     rbind (Directory_new (fr_entries m) NumDirEntries) (\<lambda>directory.
     rbind (FileHeader_FetchFrom dev FreeMapSector s) (\<lambda>(bitHdr, s).
     rbind (FileHeader_Print dev bitHdr s) (\<lambda>(p1, s).
     rbind (FileHeader_FetchFrom dev DirectorySector s) (\<lambda>(dirHdr, s).
     rbind (FileHeader_Print dev dirHdr s) (\<lambda>(p2, s).
     rbind (BitMap_FetchFrom dev (freeMapFile fs) freeMap s) (\<lambda>(freeMap, s).
     rbind (BitMap_Print freeMap) (\<lambda>bits.
     rbind (Directory_FetchFrom dev (directoryFile fs) directory s) (\<lambda>(directory, s).
     rbind (Directory_Print dev str directory s) (\<lambda>(out, s).
     Ok ([p1, p2], bits, out, s)))))))))))"

text \<open>A pipe is read and written through a file that is opened for the call, at its beginning.\<close>

definition ReadPipe :: "'s sector_dev \<Rightarrow> fresh_memory \<Rightarrow> int \<Rightarrow> 's \<Rightarrow> (int \<times> byte list \<times> 's) result" where
  "ReadPipe dev m nbytes s =
     rbind (OpenFile_new dev PipeSector s) (\<lambda>(pipe, s).
     rbind (OpenFile_Read dev (fr_now m) pipe nbytes s) (\<lambda>(sz, data, pipe, s). Ok (sz, data, s)))"

definition WritePipe :: "'s sector_dev \<Rightarrow> fresh_memory \<Rightarrow> byte list \<Rightarrow> int \<Rightarrow> 's \<Rightarrow> (int \<times> 's) result" where
  "WritePipe dev m data nbytes s =
     rbind (OpenFile_new dev PipeSector s) (\<lambda>(pipe, s).
     rbind (OpenFile_Write dev (fr_bytes m) (fr_now m) pipe data nbytes s) (\<lambda>(sz, pipe, s). Ok (sz, s)))"

end
