(* ===== verification/File_System_Spec.thy ===== *)
theory File_System_Spec
  imports File_System System_Init
begin

text \<open>
  What the file system promises. The layout of a disk is described by a function that gives, for
  the sector of a file header, the sectors of its further headers and of its data. The invariant
  \<open>fs_ok\<close> says that the files named by the directory, the pipe, the directory and the free map
  are well formed, share no sector, and that the free map marks exactly the sectors they own.
\<close>

type_synonym layout = "int \<Rightarrow> int list \<times> int list"

definition own :: "layout \<Rightarrow> int \<Rightarrow> int list" where
  "own R k = k # fst (R k) @ snd (R k)"

definition all_own :: "layout \<Rightarrow> int list \<Rightarrow> int list" where
  "all_own R ks = concat (map (own R) ks)"

definition dir_on :: "(int \<Rightarrow> byte list) \<Rightarrow> FileSystem \<Rightarrow> layout \<Rightarrow> Directory" where
  "dir_on sec fs R = \<lparr>tableSize = 10, dir_table = table_of_bytes 10 (file_bytes sec (of_hdr (directoryFile fs)) (snd (R 1)))\<rparr>"

definition map_on :: "(int \<Rightarrow> byte list) \<Rightarrow> FileSystem \<Rightarrow> layout \<Rightarrow> BitMap" where
  "map_on sec fs R = \<lparr>numBits = 1024, numWords = 32,
     bm_map = bytes_to_words 32 (file_bytes sec (of_hdr (freeMapFile fs)) (snd (R 0)))\<rparr>"

definition heads :: "Directory \<Rightarrow> int list" where
  "heads d = [0, 1, 2] @ dir_sectors d"

definition files_ok :: "(int \<Rightarrow> byte list) \<Rightarrow> layout \<Rightarrow> int list \<Rightarrow> bool" where
  "files_ok sec R ks \<longleftrightarrow> distinct (all_own R ks) \<and>
     (\<forall>k\<in>set ks. sector_ok k \<and> file_ok sec (hdr_of_bytes (sec k)) (fst (R k)) (snd (R k)))"

definition fs_ok :: "(int \<Rightarrow> byte list) \<Rightarrow> FileSystem \<Rightarrow> c_strings \<Rightarrow> layout \<Rightarrow> bool" where
  "fs_ok sec fs str R \<longleftrightarrow>
     of_hdr (freeMapFile fs) = hdr_of_bytes (sec 0) \<and> FileHeader_FileLength (hdr_of_bytes (sec 0)) = 128 \<and>
     of_hdr (directoryFile fs) = hdr_of_bytes (sec 1) \<and> FileHeader_FileLength (hdr_of_bytes (sec 1)) = 160 \<and>
     FileHeader_FileLength (hdr_of_bytes (sec 2)) = 500 \<and>
     dir_ok str (dir_on sec fs R) \<and> files_ok sec R (heads (dir_on sec fs R)) \<and>
     marked (map_on sec fs R) = nat ` set (all_own R (heads (dir_on sec fs R)))"

text \<open>The abstract state: names and the bytes of their files.\<close>

definition contents :: "(int \<Rightarrow> byte list) \<Rightarrow> layout \<Rightarrow> int \<Rightarrow> byte list" where
  "contents sec R k = file_bytes sec (hdr_of_bytes (sec k)) (snd (R k))"

definition fs_files :: "(int \<Rightarrow> byte list) \<Rightarrow> FileSystem \<Rightarrow> c_strings \<Rightarrow> layout \<Rightarrow> string \<Rightarrow> byte list option" where
  "fs_files sec fs str R nm = map_option (contents sec R) (lookup str (dir_on sec fs R) nm)"

lemma map_on_ok [simp]: "map_ok (map_on sec fs R)"
  by (simp add: map_ok_def map_on_def BitMap_ok_def bm_size_def disk_defs divRoundUp_def BitsInWord_def)

lemma map_ok_fields:
  assumes "map_ok bm"
  shows "numBits bm = 1024" "numWords bm = 32" "length (bm_map bm) = 32"
proof -
  show n: "numBits bm = 1024" using assms by (auto simp: map_ok_def BitMap_ok_def bm_size_def disk_defs)
  with assms show "numWords bm = 32" "length (bm_map bm) = 32"
    by (simp_all add: map_ok_def BitMap_ok_def divRoundUp_def BitsInWord_def)
qed

lemma all_own_mset:
  assumes "mset ks = mset ks'"
  shows "mset (all_own R ks) = mset (all_own R ks')"
proof -
  have "mset (all_own R ks) = (\<Sum>k\<in>#mset ks. mset (own R k))" for ks by (induction ks) (simp_all add: all_own_def)
  with assms show ?thesis by simp
qed

lemma files_ok_mset:
  assumes "mset ks = mset ks'"
  shows "files_ok sec R ks = files_ok sec R ks'" "set (all_own R ks) = set (all_own R ks')"
proof -
  have "distinct (all_own R ks) = distinct (all_own R ks')" "set ks = set ks'"
    using mset_eq_imp_distinct_iff[OF all_own_mset[OF assms]] mset_eq_setD[OF assms] by blast+
  then show "files_ok sec R ks = files_ok sec R ks'" by (simp add: files_ok_def)
  show "set (all_own R ks) = set (all_own R ks')" using all_own_mset[OF assms] by (rule mset_eq_setD)
qed

lemma all_own_simps [simp]: "all_own R [] = []" "all_own R (k # ks) = own R k @ all_own R ks"
  by (simp_all add: all_own_def)

lemma in_all_own: "j \<in> set (all_own R ks) \<longleftrightarrow> (\<exists>k\<in>set ks. j \<in> set (own R k))"
  by (simp add: all_own_def)

lemma distinct_heads: "distinct (all_own R ks) \<Longrightarrow> distinct ks"
proof (induction ks)
  case (Cons k ks)
  have "k \<notin> set (all_own R ks)" using Cons.prems by (auto simp: own_def)
  moreover have "k \<in> set ks \<Longrightarrow> k \<in> set (all_own R ks)" by (auto simp: in_all_own own_def)
  ultimately show ?case using Cons by auto
qed simp

lemma own_disjoint:
  assumes "distinct (all_own R ks)" "k \<in> set ks" "k' \<in> set ks" "k \<noteq> k'"
  shows "set (own R k) \<inter> set (own R k') = {}"
  using assms
proof (induction ks)
  case (Cons a ks)
  have sub: "set (own R x) \<inter> set (own R a) = {}" if "x \<in> set ks" for x
    using Cons.prems(1) that in_all_own[of _ R ks] by (auto simp: disjoint_iff)
  consider "k = a" "k' \<in> set ks" | "k' = a" "k \<in> set ks" | "k \<in> set ks" "k' \<in> set ks"
    using Cons.prems(2-4) by auto
  then show ?case using sub Cons.IH Cons.prems(1,4) by cases (auto simp del: all_own_simps simp: all_own_simps(2))
qed simp

lemma files_ok_sectors:
  assumes "files_ok sec R ks"
  shows "\<forall>j\<in>set (all_own R ks). sector_ok j"
  using assms by (auto simp: files_ok_def in_all_own own_def file_ok_def)

text \<open>The files of a disk do not depend on other sectors, nor, for their shape, on their data.\<close>

lemma files_ok_cong:
  assumes "files_ok sec R ks" "\<And>k j. k \<in> set ks \<Longrightarrow> j = k \<or> j \<in> set (fst (R k)) \<Longrightarrow> sec' j = sec j" "\<And>k. k \<in> set ks \<Longrightarrow> R' k = R k"
  shows "files_ok sec' R' ks"
proof -
  have "map (own R') ks = map (own R) ks" using assms(3) by (auto simp: own_def)
  then have own: "all_own R' ks = all_own R ks" by (simp only: all_own_def)
  have ok: "file_ok sec' (hdr_of_bytes (sec' k)) (fst (R' k)) (snd (R' k))" if "k \<in> set ks" for k
  proof -
    have "sec' k = sec k" "R' k = R k" "\<And>j. j \<in> set (fst (R k)) \<Longrightarrow> sec' j = sec j" using assms(2,3) that by blast+
    moreover have "file_ok sec (hdr_of_bytes (sec k)) (fst (R k)) (snd (R k))"
      using assms(1) that by (simp add: files_ok_def)
    ultimately show ?thesis using file_ok_cong by (metis (no_types))
  qed
  show ?thesis using assms(1) ok unfolding files_ok_def own by blast
qed

lemma contents_cong:
  assumes "\<And>j. j = k \<or> j \<in> set (snd (R k)) \<Longrightarrow> sec' j = sec j" "R' k = R k"
  shows "contents sec' R' k = contents sec R k"
proof -
  have "map sec' (snd (R k)) = map sec (snd (R k))" using assms(1) by simp
  then show ?thesis using assms by (simp only: contents_def file_bytes_def raw_bytes_def) simp
qed

lemma own_distinct: "files_ok sec R ks \<Longrightarrow> x \<in> set ks \<Longrightarrow> distinct (own R x)"
  by (induction ks) (auto simp: files_ok_def)

lemma head_not_data:
  assumes "files_ok sec R ks" "x \<in> set ks" "y \<in> set ks" "j = x \<or> j \<in> set (fst (R x))"
  shows "j \<notin> set (snd (R y))"
proof (cases "x = y")
  case True
  with own_distinct[OF assms(1,2)] assms(4) show ?thesis by (auto simp: own_def)
next
  case False
  with own_disjoint[of R ks x y] assms show ?thesis by (auto simp: files_ok_def own_def)
qed

lemma data_not_data:
  assumes "files_ok sec R ks" "x \<in> set ks" "y \<in> set ks" "x \<noteq> y" "j \<in> set (own R x)"
  shows "j \<notin> set (own R y)"
  using own_disjoint[of R ks x y] assms by (auto simp: files_ok_def)

lemma own_in_all: "x \<in> set ks \<Longrightarrow> j \<in> set (own R x) \<Longrightarrow> j \<in> set (all_own R ks)"
  by (auto simp: in_all_own)

lemma lookup_sector: "lookup str d x = Some y \<Longrightarrow> y \<in> set (dir_sectors d)"
  unfolding lookup_def dir_sectors_def by (drule map_of_SomeD) auto

lemma fs_okD:
  assumes "fs_ok sec fs str R"
  defines "d \<equiv> dir_on sec fs R"
  shows "files_ok sec R (heads d)" "0 \<in> set (heads d)" "1 \<in> set (heads d)" "2 \<in> set (heads d)"
    "of_hdr (freeMapFile fs) = hdr_of_bytes (sec 0)" "of_hdr (directoryFile fs) = hdr_of_bytes (sec 1)"
    "FileHeader_FileLength (hdr_of_bytes (sec 0)) = 128" "FileHeader_FileLength (hdr_of_bytes (sec 1)) = 160"
    "FileHeader_FileLength (hdr_of_bytes (sec 2)) = 500" "dir_ok str d"
    "marked (map_on sec fs R) = nat ` set (all_own R (heads d))"
    "file_ok sec (hdr_of_bytes (sec 0)) (fst (R 0)) (snd (R 0))" "file_ok sec (hdr_of_bytes (sec 1)) (fst (R 1)) (snd (R 1))"
    "file_ok sec (hdr_of_bytes (sec 2)) (fst (R 2)) (snd (R 2))"
    "distinct [0, 1, 2 :: int]" "\<forall>x\<in>set (dir_sectors d). x \<notin> {0, 1, 2}"
  using assms by (auto simp: fs_ok_def heads_def files_ok_def own_def in_all_own)

text \<open>Different names lead to different headers.\<close>

lemma lookup_inj:
  assumes "fs_ok sec fs str R" "lookup str (dir_on sec fs R) x = Some k" "lookup str (dir_on sec fs R) y = Some k"
  shows "x = y"
proof -
  let ?d = "dir_on sec fs R"
  have "distinct (all_own R (dir_sectors ?d))" using fs_okD(1)[OF assms(1)] by (simp add: files_ok_def heads_def)
  then have "distinct (dir_sectors ?d)" by (rule distinct_heads)
  then have inj: "inj_on (\<lambda>e. sint (de_sector e)) (set (used_entries ?d))" by (simp add: dir_sectors_def distinct_map)
  obtain e e' where "e \<in> set (used_entries ?d)" "entry_key str e = x" "sint (de_sector e) = k"
    "e' \<in> set (used_entries ?d)" "entry_key str e' = y" "sint (de_sector e') = k"
    using assms(2,3) unfolding lookup_def by (auto dest!: map_of_SomeD)
  with inj show ?thesis by (auto dest: inj_onD)
qed

text \<open>A new file in sectors that were free: the disk \<open>sec'\<close> has the header \<open>hdr\<close> of a file in sector
  \<open>k\<close>, further headers in \<open>hs\<close> and data in \<open>ds\<close>, the directory \<open>d'\<close> and the free map \<open>bm\<close>, and is
  otherwise the disk \<open>sec\<close>.\<close>

definition extension :: "(int \<Rightarrow> byte list) \<Rightarrow> FileSystem \<Rightarrow> layout \<Rightarrow> int \<Rightarrow> int list \<Rightarrow> int list \<Rightarrow> (int \<Rightarrow> byte list) \<Rightarrow> bool" where
  "extension sec fs R k hs ds sec' \<longleftrightarrow>
     sector_ok k \<and> distinct (k # hs @ ds) \<and> set (k # hs @ ds) \<inter> set (all_own R (heads (dir_on sec fs R))) = {} \<and>
     file_ok sec' (hdr_of_bytes (sec' k)) hs ds \<and>
     (\<forall>j. sector_ok j \<longrightarrow> j \<notin> set (k # hs) \<longrightarrow> j \<notin> set (snd (R 0)) \<longrightarrow> j \<notin> set (snd (R 1)) \<longrightarrow> sec' j = sec j)"

lemma extension_old:
  assumes "fs_ok sec fs str R" "extension sec fs R k hs ds sec'" "x \<in> set (heads (dir_on sec fs R))"
  shows "j \<in> set (own R x) \<Longrightarrow> sector_ok j \<and> j \<notin> set (k # hs @ ds)" "(R(k := (hs, ds))) x = R x"
    "j = x \<or> j \<in> set (fst (R x)) \<Longrightarrow> sec' j = sec j"
    "x \<noteq> 0 \<Longrightarrow> x \<noteq> 1 \<Longrightarrow> contents sec' (R(k := (hs, ds))) x = contents sec R x"
proof -
  note f = fs_okD[OF assms(1)]
  show own: "sector_ok j \<and> j \<notin> set (k # hs @ ds)" if "j \<in> set (own R x)" for j
    using files_ok_sectors[OF f(1)] assms(2) own_in_all[OF assms(3) that] unfolding extension_def by blast
  show lay: "(R(k := (hs, ds))) x = R x" using own[of x] by (auto simp: own_def)
  have same: "sec' j = sec j" if "j \<in> set (own R x)" "j \<notin> set (snd (R 0))" "j \<notin> set (snd (R 1))" for j
    using assms(2) own[OF that(1)] that(2,3) by (simp add: extension_def)
  show "sec' j = sec j" if "j = x \<or> j \<in> set (fst (R x))"
  proof (rule same)
    show "j \<in> set (own R x)" using that by (auto simp: own_def)
    show "j \<notin> set (snd (R 0))" "j \<notin> set (snd (R 1))"
      by (rule head_not_data[OF f(1) assms(3) f(2) that], rule head_not_data[OF f(1) assms(3) f(3) that])
  qed
  show "contents sec' (R(k := (hs, ds))) x = contents sec R x" if "x \<noteq> 0" "x \<noteq> 1"
  proof (rule contents_cong)
    fix j assume "j = x \<or> j \<in> set (snd (R x))"
    then have j: "j \<in> set (own R x)" by (auto simp: own_def)
    show "sec' j = sec j"
      using same[OF j] data_not_data[OF f(1) assms(3) f(2) that(1) j] data_not_data[OF f(1) assms(3) f(3) that(2) j]
      by (simp add: own_def)
  qed (rule lay)
qed

lemma extension_files:
  assumes "fs_ok sec fs str R" "extension sec fs R k hs ds sec'"
    and "mset (dir_sectors d') = add_mset k (mset (dir_sectors (dir_on sec fs R)))"
  defines "R' \<equiv> R(k := (hs, ds))"
  shows "files_ok sec' R' (heads d')"
    "set (all_own R' (heads d')) = set (k # hs @ ds) \<union> set (all_own R (heads (dir_on sec fs R)))"
proof -
  let ?K = "heads (dir_on sec fs R)"
  note old = extension_old[OF assms(1,2)]
  have heads: "mset (heads d') = mset (k # ?K)" using assms(3) by (simp add: heads_def)
  have "map (own R') ?K = map (own R) ?K" unfolding R'_def own_def using old(2) by (intro map_cong) simp_all
  then have own: "all_own R' (k # ?K) = (k # hs @ ds) @ all_own R ?K"
    by (simp add: all_own_def own_def R'_def del: map_eq_conv)
  show "set (all_own R' (heads d')) = set (k # hs @ ds) \<union> set (all_own R ?K)"
    unfolding files_ok_mset(2)[OF heads] own by (simp only: set_append)
  have "files_ok sec' R' ?K" unfolding R'_def by (rule files_ok_cong[OF fs_okD(1)[OF assms(1)] old(3,2)])
  moreover have "distinct (all_own R' (k # ?K))"
    using assms(2) fs_okD(1)[OF assms(1)] unfolding own extension_def files_ok_def by auto
  ultimately have "files_ok sec' R' (k # ?K)" using assms(2) by (simp add: files_ok_def extension_def R'_def)
  then show "files_ok sec' R' (heads d')" using files_ok_mset(1)[OF heads] by blast
qed

lemma extension_ok:
  assumes "fs_ok sec fs str R" "extension sec fs R k hs ds sec'"
    and d': "dir_ok str d'" "length (dir_table d') = 10" "tableSize d' = 10"
      "mset (dir_sectors d') = add_mset k (mset (dir_sectors (dir_on sec fs R)))"
    and bm: "map_ok bm" "marked bm = marked (map_on sec fs R) \<union> nat ` set (k # hs @ ds)"
    and bytes: "file_bytes sec' (of_hdr (directoryFile fs)) (snd (R 1)) = table_to_bytes (dir_table d')"
      "file_bytes sec' (of_hdr (freeMapFile fs)) (snd (R 0)) = words_to_bytes (bm_map bm)"
  defines "R' \<equiv> R(k := (hs, ds))"
  shows "fs_ok sec' fs str R'" "dir_on sec' fs R' = d'"
proof -
  note f = fs_okD[OF assms(1)]
  note old = extension_old[OF assms(1,2)]
  have "R' 1 = R 1" "R' 0 = R 0" using old(2) f(2,3) unfolding R'_def by blast+
  then have d: "dir_on sec' fs R' = d'" and m: "map_on sec' fs R' = bm"
    using bytes d'(2,3) table_of_to_bytes[of "dir_table d'" "[]"] map_ok_fields[OF bm(1)]
      bytes_to_words_inverse[of "bm_map bm" "[]"] unfolding dir_on_def map_on_def by simp_all
  note new = extension_files[OF assms(1,2) d'(4), folded R'_def]
  have "marked bm = nat ` set (all_own R' (heads d'))" unfolding bm(2) f(11) new(2) by blast
  moreover have "sec' 0 = sec 0" "sec' 1 = sec 1" "sec' 2 = sec 2" using old(3) f(2-4) by blast+
  ultimately show "fs_ok sec' fs str R'"
    unfolding fs_ok_def d m using f(5-9) d'(1) new(1) by simp
  show "dir_on sec' fs R' = d'" by (rule d)
qed

lemma extension_fs_files:
  assumes "fs_ok sec fs str R" "extension sec fs R k hs ds sec'" "dir_on sec' fs (R(k := (hs, ds))) = d'"
    "lookup str d' = (lookup str (dir_on sec fs R))(nm \<mapsto> k)"
  shows "fs_files sec' fs str (R(k := (hs, ds))) =
    (fs_files sec fs str R)(nm \<mapsto> file_bytes sec' (hdr_of_bytes (sec' k)) ds)"
proof
  fix x
  have "contents sec' (R(k := (hs, ds))) y = contents sec R y" if "lookup str (dir_on sec fs R) x = Some y" for y
    using extension_old(4)[OF assms(1,2), of y] lookup_sector[OF that] fs_okD(16)[OF assms(1)] by (simp add: heads_def)
  moreover have "contents sec' (R(k := (hs, ds))) k = file_bytes sec' (hdr_of_bytes (sec' k)) ds"
    by (simp add: contents_def)
  ultimately show "fs_files sec' fs str (R(k := (hs, ds))) x =
      ((fs_files sec fs str R)(nm \<mapsto> file_bytes sec' (hdr_of_bytes (sec' k)) ds)) x"
    unfolding fs_files_def assms(3,4) fun_upd_apply[where y = x]
    by (cases "lookup str (dir_on sec fs R) x") simp_all
qed

text \<open>A write through an open file changes the bytes of that file and of no other, and keeps the
  invariant.\<close>

lemma rewrite_ok:
  assumes "fs_ok sec fs str R" "k \<in> set (heads (dir_on sec fs R))" "k \<noteq> 0" "k \<noteq> 1"
    and new: "file_ok sec' (hdr_of_bytes (sec' k)) (fst (R k)) (snd (R k))"
      "FileHeader_FileLength (hdr_of_bytes (sec' k)) = FileHeader_FileLength (hdr_of_bytes (sec k))"
    and same: "\<forall>j. sector_ok j \<longrightarrow> j \<notin> set (snd (R k)) \<longrightarrow> j \<noteq> k \<longrightarrow> sec' j = sec j"
  shows "fs_ok sec' fs str R" "dir_on sec' fs R = dir_on sec fs R"
    "\<forall>x\<in>set (heads (dir_on sec fs R)). x \<noteq> k \<longrightarrow> contents sec' R x = contents sec R x"
proof -
  let ?K = "heads (dir_on sec fs R)"
  note f = fs_okD[OF assms(1)]
  have other: "sec' j = sec j" if "x \<in> set ?K" "x \<noteq> k" "j \<in> set (own R x)" for x j
    using that same files_ok_sectors[OF f(1)] own_in_all[OF that(1,3)] data_not_data[OF f(1) that(1) assms(2) that(2,3)]
    by (auto simp: own_def)
  have fixed: "sec' 0 = sec 0" "sec' 1 = sec 1" "map sec' (snd (R 0)) = map sec (snd (R 0))" "map sec' (snd (R 1)) = map sec (snd (R 1))"
    using other[OF f(2)] other[OF f(3)] assms(3,4) by (auto simp: own_def)
  have on: "dir_on sec' fs R = dir_on sec fs R" "map_on sec' fs R = map_on sec fs R"
    unfolding dir_on_def map_on_def file_bytes_def raw_bytes_def fixed by (rule refl)+
  have "file_ok sec' (hdr_of_bytes (sec' x)) (fst (R x)) (snd (R x))" if "x \<in> set ?K" for x
  proof (cases "x = k")
    case False
    then have "sec' x = sec x" "\<And>j. j \<in> set (fst (R x)) \<Longrightarrow> sec' j = sec j" using other[OF that] by (auto simp: own_def)
    moreover have "file_ok sec (hdr_of_bytes (sec x)) (fst (R x)) (snd (R x))" using f(1) that by (simp add: files_ok_def)
    ultimately show ?thesis using file_ok_cong by (metis (no_types))
  qed (use new(1) in simp)
  then have "files_ok sec' R ?K" using f(1) by (simp add: files_ok_def)
  moreover have "FileHeader_FileLength (hdr_of_bytes (sec' 2)) = 500"
    using f(9) new(2) other[OF f(4), of 2] by (cases "k = 2") (auto simp: own_def)
  ultimately show "fs_ok sec' fs str R"
    unfolding fs_ok_def on fixed(1,2) using f(5-8,10,11) by simp
  show "\<forall>x\<in>set ?K. x \<noteq> k \<longrightarrow> contents sec' R x = contents sec R x"
    using other by (intro ballI impI contents_cong) (auto simp: own_def)
  show "dir_on sec' fs R = dir_on sec fs R" by (rule on)
qed

subsection \<open>Reading and writing the free map and the directory\<close>

context block_store
begin

lemma fetch_directory_spec:
  assumes "ready s" "fs_ok (sec s) fs str R"
  obtains s' where "fetch_directory dev m fs s = Ok (dir_on (sec s) fs R, s')" "ready s'" "sec s' = sec s"
proof -
  obtain d where d: "Directory_new (fr_entries m) NumDirEntries = Ok d" "length (dir_table d) = 10" "tableSize d = 10"
    using Directory_new_spec[of NumDirEntries "fr_entries m"] by (auto simp: NumDirEntries_def)
  have f: "file_ok (sec s) (of_hdr (directoryFile fs)) (fst (R 1)) (snd (R 1))"
    "FileHeader_FileLength (of_hdr (directoryFile fs)) = 160"
    using assms(2) by (simp_all add: fs_ok_def files_ok_def heads_def)
  obtain s' where s': "Directory_FetchFrom dev (directoryFile fs) d s =
      Ok (d\<lparr>dir_table := table_of_bytes (length (dir_table d)) (file_bytes (sec s) (of_hdr (directoryFile fs)) (snd (R 1)))\<rparr>, s')"
    "ready s'" "sec s' = sec s"
    by (rule Directory_FetchFrom_spec[OF assms(1) f(1), of d]) (use d f(2) in auto)
  have "d\<lparr>dir_table := table_of_bytes (length (dir_table d)) (file_bytes (sec s) (of_hdr (directoryFile fs)) (snd (R 1)))\<rparr> =
      dir_on (sec s) fs R"
    using d by (simp add: dir_on_def)
  then show ?thesis using that[of s'] d(1) s' by (simp add: fetch_directory_def)
qed

lemma BitMap_FetchFrom_spec:
  assumes "ready s" "file_ok (sec s) (of_hdr f) hs ds" "map_ok bm" "FileHeader_FileLength (of_hdr f) = 128"
  obtains s' where "BitMap_FetchFrom dev f bm s =
      Ok (\<lparr>numBits = 1024, numWords = 32, bm_map = bytes_to_words 32 (file_bytes (sec s) (of_hdr f) ds)\<rparr>, s')"
    "ready s'" "sec s' = sec s"
proof -
  let ?B = "file_bytes (sec s) (of_hdr f) ds"
  note bm = map_ok_fields[OF assms(3)]
  have len: "length ?B = 128" using length_file_bytes[OF assms(1,2)] assms(4) by simp
  with ReadAt_spec[OF assms(1,2), of 0 128] obtain s' where
    "OpenFile_ReadAt dev f 128 0 s = Ok (128, ?B, s')" "ready s'" "sec s' = sec s"
    by (auto simp: INT_MAX_def)
  moreover have "mem_write ?B 0 (words_to_bytes (bm_map bm)) = Ok ?B"
    using mem_write_nat[of 0 ?B "words_to_bytes (bm_map bm)"] len bm by (simp add: overwrite_def)
  moreover have "bm\<lparr>bm_map := bytes_to_words 32 ?B\<rparr> = \<lparr>numBits = 1024, numWords = 32, bm_map = bytes_to_words 32 ?B\<rparr>"
    using bm by simp
  ultimately show ?thesis using that[of s'] bm by (simp add: BitMap_FetchFrom_def)
qed

lemma BitMap_WriteBack_spec:
  assumes "ready s" "file_ok (sec s) (of_hdr f) hs ds" "map_ok bm" "FileHeader_FileLength (of_hdr f) = 128"
  obtains s' where "BitMap_WriteBack dev junk f bm s = Ok s'" "ready s'" "file_ok (sec s') (of_hdr f) hs ds"
    "file_bytes (sec s') (of_hdr f) ds = words_to_bytes (bm_map bm)"
    "\<forall>j. sector_ok j \<longrightarrow> j \<notin> set ds \<longrightarrow> sec s' j = sec s j"
proof -
  let ?T = "words_to_bytes (bm_map bm)"
  note bm = map_ok_fields[OF assms(3)]
  have "length (file_bytes (sec s) (of_hdr f) ds) = 128" using length_file_bytes[OF assms(1,2)] assms(4) by simp
  with WriteAt_spec[OF assms(1,2), of 0 128 ?T junk] bm assms(4) show ?thesis
    using that by (auto simp: BitMap_WriteBack_def INT_MAX_def overwrite_def)
qed

lemma fetch_map_spec:
  assumes "ready s" "fs_ok (sec s) fs str R"
  obtains s' where "fetch_map dev m fs s = Ok (map_on (sec s) fs R, s')" "ready s'" "sec s' = sec s"
proof -
  obtain bm where bm: "BitMap_new (fr_words m) NumSectors = Ok bm" "map_ok bm"
    using BitMap_new_spec[of NumSectors "fr_words m"] by (auto simp: map_ok_def disk_defs)
  have f: "file_ok (sec s) (of_hdr (freeMapFile fs)) (fst (R 0)) (snd (R 0))"
    "FileHeader_FileLength (of_hdr (freeMapFile fs)) = 128"
    using assms(2) by (simp_all add: fs_ok_def files_ok_def heads_def)
  obtain s' where s': "BitMap_FetchFrom dev (freeMapFile fs) bm s = Ok (map_on (sec s) fs R, s')" "ready s'" "sec s' = sec s"
    unfolding map_on_def by (rule BitMap_FetchFrom_spec[OF assms(1) f(1) bm(2) f(2)])
  with that[of s'] bm(1) show ?thesis by (simp add: fetch_map_def)
qed

text \<open>The three writes at the end of \<open>Create\<close>.\<close>

lemma commit_spec:
  assumes "ready s" "fs_ok sec0 fs str R" "\<forall>j. sector_ok j \<longrightarrow> j \<notin> set hs \<longrightarrow> sec s j = sec0 j"
    and new: "file_ok (sec s) hdr hs ds" "sector_ok k" "distinct (k # hs @ ds)"
      "set (k # hs @ ds) \<inter> set (all_own R (heads (dir_on sec0 fs R))) = {}"
    and d': "length (dir_table d') = 10" "tableSize d' = 10" and bm: "map_ok bm"
  obtains s2 s3 s' where "FileHeader_WriteBack dev hdr k s = Ok s2"
    "Directory_WriteBack dev junk (directoryFile fs) d' s2 = Ok s3"
    "BitMap_WriteBack dev junk (freeMapFile fs) bm s3 = Ok s'" "ready s'" "extension sec0 fs R k hs ds (sec s')"
    "hdr_of_bytes (sec s' k) = hdr" "file_bytes (sec s') (of_hdr (directoryFile fs)) (snd (R 1)) = table_to_bytes (dir_table d')"
    "file_bytes (sec s') (of_hdr (freeMapFile fs)) (snd (R 0)) = words_to_bytes (bm_map bm)"
proof -
  note f = fs_okD[OF assms(2)]
  let ?D = "snd (R 1)" and ?M = "snd (R 0)" and ?K = "heads (dir_on sec0 fs R)"
  have shape: "hdr_shape hdr" using new(1) by (simp add: file_ok_def)
  obtain s2 where s2: "FileHeader_WriteBack dev hdr k s = Ok s2" "ready s2"
    "\<forall>j. sector_ok j \<longrightarrow> sec s2 j = (if j = k then hdr_to_bytes hdr else sec s j)"
    using WriteBack_ok[OF assms(1) new(2) shape] by metis
  have old: "sector_ok j \<and> j \<notin> set (k # hs @ ds)" if "x \<in> set ?K" "j \<in> set (own R x)" for x j
    using files_ok_sectors[OF f(1)] own_in_all[OF that] new(4) by blast
  have same2: "sec s2 j = sec0 j" if "x \<in> set ?K" "j \<in> set (own R x)" for x j
    using old[OF that] s2(3) assms(3) by simp
  have D: "file_ok (sec s2) (of_hdr (directoryFile fs)) (fst (R 1)) ?D"
    unfolding f(6) using same2[OF f(3)] by (intro file_ok_cong[OF f(13)]) (simp add: own_def)
  obtain s3 where s3: "Directory_WriteBack dev junk (directoryFile fs) d' s2 = Ok s3" "ready s3"
    "file_bytes (sec s3) (of_hdr (directoryFile fs)) ?D = table_to_bytes (dir_table d')"
    "\<forall>j. sector_ok j \<longrightarrow> j \<notin> set ?D \<longrightarrow> sec s3 j = sec s2 j"
    by (rule Directory_WriteBack_spec[OF s2(2) D, of d' junk]) (use d' f(6,8) in simp_all)
  have M: "file_ok (sec s3) (of_hdr (freeMapFile fs)) (fst (R 0)) ?M"
    unfolding f(5)
  proof (rule file_ok_cong[OF f(12)])
    fix j assume j: "j \<in> set (fst (R 0))"
    then have "j \<in> set (own R 0)" "j \<notin> set ?D" using head_not_data[OF f(1,2,3)] by (auto simp: own_def)
    then show "sec s3 j = sec0 j" using s3(4) same2[OF f(2)] old[OF f(2)] by simp
  qed
  have len: "FileHeader_FileLength (of_hdr (freeMapFile fs)) = 128" using f(5,7) by simp
  obtain s' where s': "BitMap_WriteBack dev junk (freeMapFile fs) bm s3 = Ok s'" "ready s'"
    "file_bytes (sec s') (of_hdr (freeMapFile fs)) ?M = words_to_bytes (bm_map bm)"
    "\<forall>j. sector_ok j \<longrightarrow> j \<notin> set ?M \<longrightarrow> sec s' j = sec s3 j"
    by (rule BitMap_WriteBack_spec[OF s3(2) M bm len, of junk])
  have data: "j \<notin> set (k # hs @ ds)" "sector_ok j" if "j \<in> set ?M \<or> j \<in> set ?D" for j
    using that old[OF f(2), of j] old[OF f(3), of j] by (auto simp: own_def)
  have same: "sec s' j = sec s2 j" if "sector_ok j" "j \<notin> set ?M" "j \<notin> set ?D" for j
    using that s3(4) s'(4) by simp
  have k: "sec s' k = hdr_to_bytes hdr" using same[OF new(2)] data[of k] s2(3) new(2) by auto
  moreover have "file_ok (sec s') hdr hs ds"
  proof (rule file_ok_cong[OF new(1)])
    fix j assume j: "j \<in> set hs"
    then have "sector_ok j" "j \<noteq> k" using new(1,3) by (auto simp: file_ok_def)
    then show "sec s' j = sec s j" using same[of j] data[of j] j s2(3) by auto
  qed
  moreover have "sec s' j = sec0 j" if "sector_ok j" "j \<notin> set (k # hs)" "j \<notin> set ?M" "j \<notin> set ?D" for j
    using that same[of j] s2(3) assms(3) by simp
  ultimately have "extension sec0 fs R k hs ds (sec s')"
    using new shape by (simp add: extension_def)
  moreover have "file_bytes (sec s') (of_hdr (directoryFile fs)) ?D = table_to_bytes (dir_table d')"
  proof -
    have "sec s' j = sec s3 j" if "j \<in> set ?D" for j
      using that s'(4) data(2)[of j] data_not_data[OF f(1) f(3) f(2), of j] by (simp add: own_def)
    then show ?thesis
      using file_same(2)[of "of_hdr (directoryFile fs)" "of_hdr (directoryFile fs)" "[]" ?D "sec s'" "sec s3"] s3(3) by simp
  qed
  ultimately show ?thesis using that[OF s2(1) s3(1) s'(1,2)] s'(3) k shape by simp
qed

text \<open>\<open>Create\<close> of a new name, with an entry in the directory and room on the disk for the header, the data
  and the further headers.\<close>

lemma Create_spec:
  fixes m :: fresh_memory
  assumes "ready s" "fs_ok (sec s) fs str R" "str name = Some nm" "fs_files (sec s) fs str R nm = None"
    and junk: "hdr_shape (fr_hdrs m 0)" "\<And>i. hdr_shape (fr_chain m i)"
    and sz: "0 \<le> initialSize" "initialSize < 2 ^ 31" "n = nat (divRoundUp initialSize SectorSize)" "n \<noteq> NumDirect"
    and room: "card (dom (fs_files (sec s) fs str R)) < 10"
      "Suc (n + (n - 1) div NumDirect) \<le> 1024 - card (marked (map_on (sec s) fs R))"
  shows "\<exists>s' R' bs. FileSystem_Create dev str m fs name initialSize s = Ok (True, s') \<and> ready s' \<and>
    fs_ok (sec s') fs str R' \<and> length bs = nat initialSize \<and>
    fs_files (sec s') fs str R' = (fs_files (sec s) fs str R)(nm \<mapsto> bs)"
proof -
  let ?d = "dir_on (sec s) fs R" and ?bm = "map_on (sec s) fs R"
  note f = fs_okD[OF assms(2)]
  obtain s1 where s1: "fetch_directory dev m fs s = Ok (?d, s1)" "ready s1" "sec s1 = sec s"
    by (rule fetch_directory_spec[OF assms(1,2)])
  have ok1: "fs_ok (sec s1) fs str R" using assms(2) s1(3) by simp
  obtain s2 where s2: "fetch_map dev m fs s1 = Ok (?bm, s2)" "ready s2" "sec s2 = sec s"
    using fetch_map_spec[OF s1(2) ok1, of m] s1(3) by metis
  have none: "lookup str ?d nm = None" using assms(4) by (simp add: fs_files_def)
  then have find: "Directory_Find str ?d name = Ok (-1)" using Find_spec[OF f(10) assms(3)] by simp
  have free: "bm.free ?bm = 1024 - card (marked ?bm)" by (simp add: bm.free_def map_on_def bm_size_def)
  then have "0 < bm.free ?bm" using room(2) by simp
  then obtain bm1 k where k: "BitMap_Find ?bm = Ok (bm1, k)" "sector_ok k" "nat k \<notin> marked ?bm" "map_ok bm1"
    "marked bm1 = insert (nat k) (marked ?bm)" "bm.free bm1 = bm.free ?bm - 1"
    using find_sector[OF map_on_ok] by metis
  have "dom (fs_files (sec s) fs str R) = dom (lookup str ?d)" by (auto simp: fs_files_def)
  then have "length (used_entries ?d) < length (dir_table ?d)"
    using room(1) card_dom_lookup[OF f(10)] by (simp add: dir_on_def)
  then obtain d' where d': "Directory_Add str ?d name k = Ok (True, d')" "dir_ok str d'" "tableSize d' = 10"
    "lookup str d' = (lookup str ?d)(nm \<mapsto> k)" "mset (dir_sectors d') = add_mset k (mset (dir_sectors ?d))"
    using Add_free[OF f(10) assms(3) none _ sint_sector[OF k(2)]] by (metis Directory.select_convs(1) dir_on_def)
  have "n + (n - 1) div NumDirect \<le> bm.free bm1" using k(6) free room(2) by simp
  from Allocate_spec[where junk = "fr_chain m" and now = "fr_now m", OF s2(2) k(4) junk sz this] obtain hdr bm2 s3 hs ds where
    a: "FileHeader_Allocate dev (fr_now m) (fr_chain m) (fr_hdrs m 0) bm1 initialSize s2 = Ok (True, hdr, bm2, s3)"
    "ready s3" "hdr_shape hdr" "FileHeader_FileLength hdr = initialSize" "chain (sec s3) hdr hs ds" "length ds = n"
    "distinct (hs @ ds)" "\<forall>j\<in>set (hs @ ds). sector_ok j \<and> nat j \<notin> marked bm1" "map_ok bm2"
    "marked bm2 = marked bm1 \<union> nat ` set (hs @ ds)" "\<forall>j. sector_ok j \<longrightarrow> j \<notin> set hs \<longrightarrow> sec s3 j = sec s2 j"
    by (elim exE conjE) (rule that)
  have fok: "file_ok (sec s3) hdr hs ds"
    using a sz(1,3) divRoundUp_ge[OF sz(1), of SectorSize] divRoundUp_nonneg_ge0[OF sz(1), of SectorSize]
    by (simp add: file_ok_def SectorSize_def)
  have fresh: "distinct (k # hs @ ds)" using a(7,8) k(5) by auto
  have "nat j \<notin> marked ?bm" if "j \<in> set (k # hs @ ds)" for j using that a(8) k(3,5) by auto
  then have disj: "set (k # hs @ ds) \<inter> set (all_own R (heads ?d)) = {}" unfolding f(11) by blast
  have same: "\<forall>j. sector_ok j \<longrightarrow> j \<notin> set hs \<longrightarrow> sec s3 j = sec s j" using a(11) s2(3) by simp
  have len: "length (dir_table d') = 10" using d'(2,3) by (simp add: dir_ok_def)
  obtain s4 s5 s6 where c: "FileHeader_WriteBack dev hdr k s3 = Ok s4"
    "Directory_WriteBack dev (fr_bytes m) (directoryFile fs) d' s4 = Ok s5"
    "BitMap_WriteBack dev (fr_bytes m) (freeMapFile fs) bm2 s5 = Ok s6" "ready s6" "extension (sec s) fs R k hs ds (sec s6)"
    "hdr_of_bytes (sec s6 k) = hdr" "file_bytes (sec s6) (of_hdr (directoryFile fs)) (snd (R 1)) = table_to_bytes (dir_table d')"
    "file_bytes (sec s6) (of_hdr (freeMapFile fs)) (snd (R 0)) = words_to_bytes (bm_map bm2)"
    by (rule commit_spec[OF a(2) assms(2) same fok k(2) fresh disj len d'(3) a(9)])
  let ?R = "R(k := (hs, ds))"
  have marked: "marked bm2 = marked ?bm \<union> nat ` set (k # hs @ ds)" using a(10) k(5) by simp
  note ext = extension_ok[OF assms(2) c(5) d'(2) len d'(3,5) a(9) marked c(7,8)]
  have "FileSystem_Create dev str m fs name initialSize s = Ok (True, s6)"
    using s1(1) find s2(1) k(1,2) d'(1) a(1) c(1-3)
    by (auto simp: FileSystem_Create_def sector_ok_def)
  moreover have "fs_files (sec s6) fs str ?R =
      (fs_files (sec s) fs str R)(nm \<mapsto> file_bytes (sec s6) hdr ds)"
    using extension_fs_files[OF assms(2) c(5) ext(2) d'(4)] c(6) by simp
  moreover have "length (file_bytes (sec s6) hdr ds) = nat initialSize"
    using length_file_bytes[OF c(4), of hdr hs ds] c(5,6) a(4) by (simp add: extension_def)
  ultimately show ?thesis using c(4) ext(1) by blast
qed

lemma Create_refused:
  fixes m :: fresh_memory
  assumes "ready s" "fs_ok (sec s) fs str R" "str name = Some nm" "0 \<le> initialSize"
    "fs_files (sec s) fs str R nm \<noteq> None \<or> card (dom (fs_files (sec s) fs str R)) \<ge> 10 \<or>
     1024 - card (marked (map_on (sec s) fs R)) \<le> nat (divRoundUp initialSize SectorSize)"
  shows "\<exists>s'. FileSystem_Create dev str m fs name initialSize s = Ok (False, s') \<and> ready s' \<and> sec s' = sec s"
proof -
  let ?d = "dir_on (sec s) fs R" and ?bm = "map_on (sec s) fs R"
  note f = fs_okD[OF assms(2)]
  obtain s1 where s1: "fetch_directory dev m fs s = Ok (?d, s1)" "ready s1" "sec s1 = sec s"
    by (rule fetch_directory_spec[OF assms(1,2)])
  have ok1: "fs_ok (sec s1) fs str R" using assms(2) s1(3) by simp
  obtain s2 where s2: "fetch_map dev m fs s1 = Ok (?bm, s2)" "ready s2" "sec s2 = sec s"
    using fetch_map_spec[OF s1(2) ok1, of m] s1(3) by metis
  have find: "Directory_Find str ?d name = Ok (case lookup str ?d nm of None \<Rightarrow> -1 | Some k \<Rightarrow> k)"
    by (rule Find_spec[OF f(10) assms(3)])
  have dom: "dom (fs_files (sec s) fs str R) = dom (lookup str ?d)" by (auto simp: fs_files_def)
  have free: "bm.free ?bm = 1024 - card (marked ?bm)" by (simp add: bm.free_def map_on_def bm_size_def)
  consider k where "lookup str ?d nm = Some k" | "lookup str ?d nm = None" "bm.free ?bm = 0"
    | "lookup str ?d nm = None" "0 < bm.free ?bm" by (cases "lookup str ?d nm") auto
  then show ?thesis
  proof cases
    case (1 k)
    then have "k \<noteq> -1" using lookup_sector[OF 1] f(1) by (auto simp: files_ok_def heads_def sector_ok_def)
    with 1 find s1 show ?thesis by (simp add: FileSystem_Create_def)
  next
    case 2
    then have "BitMap_Find ?bm = Ok (?bm, -1)" using bm.find_none[of ?bm] map_on_ok by (simp add: map_ok_def)
    with 2 find s1 s2 show ?thesis by (simp add: FileSystem_Create_def)
  next
    case 3
    obtain bm1 k where k: "BitMap_Find ?bm = Ok (bm1, k)" "sector_ok k" "map_ok bm1" "bm.free bm1 = bm.free ?bm - 1"
      using find_sector[OF map_on_ok 3(2)] by metis
    show ?thesis
    proof (cases "length (used_entries ?d) = length (dir_table ?d)")
      case True
      then have "Directory_Add str ?d name k = Ok (False, ?d)" using Add_full[OF f(10) assms(3)] by blast
      with 3 find s1 s2 k show ?thesis by (auto simp: FileSystem_Create_def sector_ok_def)
    next
      case False
      then have room: "length (used_entries ?d) < length (dir_table ?d)" using used_entries_le[of ?d] by simp
      then have less: "bm.free bm1 < nat (divRoundUp initialSize SectorSize)"
        using assms(5) 3 free k(4) card_dom_lookup[OF f(10)] unfolding dom by (auto simp: fs_files_def dir_on_def)
      have "BitMap_NumClear bm1 = Ok (int (bm.free bm1))"
        using k(3) by (simp add: BitMap_NumClear_spec map_ok_def bm.free_def)
      moreover have "int (bm.free bm1) < divRoundUp initialSize SectorSize"
        using less by (simp only: zless_nat_eq_int_zless)
      ultimately have "\<exists>hdr. FileHeader_Allocate dev (fr_now m) (fr_chain m) (fr_hdrs m 0) bm1 initialSize s2 =
          Ok (False, hdr, bm1, s2)"
        by (simp add: FileHeader_Allocate_def Let_def)
      moreover obtain d' where "Directory_Add str ?d name k = Ok (True, d')"
        using Add_free[OF f(10) assms(3) 3(1) room sint_sector[OF k(2)]] by metis
      ultimately show ?thesis
        using 3 find s1 s2 k by (auto simp: FileSystem_Create_def sector_ok_def)
    qed
  qed
qed

lemma Open_spec:
  assumes "ready s" "fs_ok (sec s) fs str R" "str name = Some nm"
  shows "\<exists>s'. ready s' \<and> sec s' = sec s \<and> FileSystem_Open dev str m fs name s =
    Ok (map_option (\<lambda>k. \<lparr>of_hdr = hdr_of_bytes (sec s k), of_seekPosition = 0, of_hdrSector = k\<rparr>)
          (lookup str (dir_on (sec s) fs R) nm), s')"
proof -
  let ?d = "dir_on (sec s) fs R"
  note f = fs_okD[OF assms(2)]
  obtain s1 where s1: "fetch_directory dev m fs s = Ok (?d, s1)" "ready s1" "sec s1 = sec s"
    by (rule fetch_directory_spec[OF assms(1,2)])
  have find: "Directory_Find str ?d name = Ok (case lookup str ?d nm of None \<Rightarrow> -1 | Some k \<Rightarrow> k)"
    by (rule Find_spec[OF f(10) assms(3)])
  show ?thesis
  proof (cases "lookup str ?d nm")
    case None
    with find s1 show ?thesis by (simp add: FileSystem_Open_def)
  next
    case (Some k)
    then have k: "sector_ok k" using lookup_sector[OF Some] f(1) by (auto simp: files_ok_def heads_def)
    obtain s2 where "FileHeader_FetchFrom dev k s1 = Ok (hdr_of_bytes (sec s1 k), s2)" "ready s2" "sec s2 = sec s1"
      by (rule FetchFrom_ok[OF s1(2) k])
    with Some k find s1 show ?thesis by (simp add: FileSystem_Open_def OpenFile_new_def sector_ok_def)
  qed
qed

lemma File_Write_spec:
  fixes now :: u32
  assumes "ready s" "fs_ok (sec s) fs str R" "k \<in> set (heads (dir_on (sec s) fs R))" "k \<noteq> 0" "k \<noteq> 1"
    and f: "of_hdr f = hdr_of_bytes (sec s k)" "of_hdrSector f = k" "0 \<le> of_seekPosition f"
    and n: "0 \<le> nbytes" "of_seekPosition f + nbytes \<le> INT_MAX" "nat nbytes \<le> length from"
  defines "data \<equiv> take (length (contents (sec s) R k) - nat (of_seekPosition f)) (take (nat nbytes) from)"
  obtains f' s' where "OpenFile_Write dev junk now f from nbytes s = Ok (int (length data), f', s')" "ready s'"
    "fs_ok (sec s') fs str R" "dir_on (sec s') fs R = dir_on (sec s) fs R" "of_hdr f' = hdr_of_bytes (sec s' k)" "of_hdrSector f' = k"
    "of_seekPosition f' = of_seekPosition f + int (length data)"
    "contents (sec s') R k = overwrite (nat (of_seekPosition f)) data (contents (sec s) R k)"
    "\<forall>x\<in>set (heads (dir_on (sec s) fs R)). x \<noteq> k \<longrightarrow> contents (sec s') R x = contents (sec s) R x"
proof -
  let ?hs = "fst (R k)" and ?ds = "snd (R k)"
  let ?f = "f\<lparr>of_seekPosition := of_seekPosition f + int (length data),
        of_hdr := (of_hdr f)\<lparr>lastAccessTime := now, lastWriteTime := now\<rparr>\<rparr>"
  have ok: "file_ok (sec s) (of_hdr f) ?hs ?ds" "sector_ok k" "k \<notin> set ?ds" "k \<notin> set (?hs @ ?ds)"
    using fs_okD(1)[OF assms(2)] assms(3) head_not_data[OF fs_okD(1)[OF assms(2)] assms(3,3), of k] f(1)
      own_distinct[OF fs_okD(1)[OF assms(2)] assms(3)] by (auto simp: files_ok_def own_def)
  have len: "length (contents (sec s) R k) = nat (FileHeader_FileLength (of_hdr f))"
    unfolding contents_def f(1)[symmetric] by (rule length_file_bytes[OF assms(1) ok(1)])
  have c: "contents (sec s) R k = file_bytes (sec s) (of_hdr f) ?ds" by (simp add: contents_def f(1))
  obtain s' where s': "OpenFile_Write dev junk now f from nbytes s = Ok (int (length data), ?f, s')" "ready s'"
    "file_ok (sec s') (of_hdr ?f) ?hs ?ds"
    "file_bytes (sec s') (of_hdr ?f) ?ds = overwrite (nat (of_seekPosition f)) data (file_bytes (sec s) (of_hdr f) ?ds)"
    "\<forall>j. sector_ok j \<longrightarrow> j \<notin> set ?ds \<longrightarrow> sec s' j = (if j = k then hdr_to_bytes (of_hdr ?f) else sec s j)"
    unfolding data_def len
    by (rule Write_spec[OF assms(1) ok(1) f(3) n(1,2) _ _ n(3), of junk now, unfolded f(2), OF ok(2,4)])
  have "hdr_shape (of_hdr ?f)" using s'(3) by (simp add: file_ok_def)
  then have h: "hdr_of_bytes (sec s' k) = of_hdr ?f" using s'(5) ok(2,3) by (simp del: hdr_of_to_bytes add: hdr_of_to_bytes)
  have "FileHeader_FileLength (of_hdr ?f) = FileHeader_FileLength (of_hdr f)" by (simp add: FileHeader_FileLength_def)
  then have new: "fs_ok (sec s') fs str R" "dir_on (sec s') fs R = dir_on (sec s) fs R"
    "\<forall>x\<in>set (heads (dir_on (sec s) fs R)). x \<noteq> k \<longrightarrow> contents (sec s') R x = contents (sec s) R x"
    using rewrite_ok[OF assms(2-5), of "sec s'"] s'(3,5) h f(1) by simp_all
  show ?thesis
    using that[OF s'(1,2) new(1,2)] h f(2) s'(4) new(3) c by (simp add: contents_def)
qed

end

end
