(* ===== verification/File_System_Format.thy ===== *)
theory File_System_Format
  imports File_System_Spec
begin

text \<open>
  Formatting a disk: the constructor \<open>FileSystem(TRUE)\<close> establishes the invariant of the file
  system, with no file; the constructor \<open>FileSystem(FALSE)\<close> finds what is on the disk.
\<close>

lemma dir_print_empty:
  assumes "\<forall>i\<in>set is. i < length t \<and> \<not> de_inUse (t ! i)"
  shows "dir_print_loop dev str t (map int is) s = Ok ([], s)"
  using assms by (induction "is") auto

lemma Directory_Print_empty:
  assumes "used_entries d = []" "tableSize d = int (length (dir_table d))"
  shows "Directory_Print dev str d s = Ok ([], s)"
proof -
  have "\<forall>i<length (dir_table d). \<not> de_inUse (dir_table d ! i)"
    using assms(1) by (auto simp: used_entries_def filter_empty_conv)
  then show ?thesis
    using dir_print_empty[of "[0..<length (dir_table d)]" "dir_table d" dev str s] upto_range[of 0 "length (dir_table d)"] assms(2)
    by (simp add: Directory_Print_def)
qed

lemma BitMap_Print_ok:
  assumes "BitMap_ok bm"
  shows "\<exists>out. BitMap_Print bm = Ok out"
proof -
  have "[0..numBits bm - 1] = map int [0..<bm_size bm]"
    using upto_range[of 0 "bm_size bm"] assms by (simp add: bm_size_def BitMap_ok_def)
  then show ?thesis using print_loop_spec[OF assms, of "[0..<bm_size bm]"] by (simp add: BitMap_Print_def)
qed

definition fresh_fs :: "(int \<Rightarrow> byte list) \<Rightarrow> FileSystem" where
  "fresh_fs sec =
     \<lparr>freeMapFile = \<lparr>of_hdr = hdr_of_bytes (sec 0), of_seekPosition = 0, of_hdrSector = 0\<rparr>,
      directoryFile = \<lparr>of_hdr = hdr_of_bytes (sec 1), of_seekPosition = 0, of_hdrSector = 1\<rparr>,
      pipeFile = \<lparr>of_hdr = hdr_of_bytes (sec 2), of_seekPosition = 0, of_hdrSector = 2\<rparr>\<rparr>"

context block_store
begin

lemma open_files_spec:
  assumes "ready s"
  obtains s' where "open_files dev s = Ok (fresh_fs (sec s), s')" "ready s'" "sec s' = sec s"
proof -
  have sk: "sector_ok 0" "sector_ok 1" "sector_ok 2" by (simp_all add: sector_ok_def disk_defs)
  obtain s0 where s0: "FileHeader_FetchFrom dev 0 s = Ok (hdr_of_bytes (sec s 0), s0)" "ready s0" "sec s0 = sec s"
    by (rule FetchFrom_ok[OF assms sk(1)])
  obtain s1 where s1: "FileHeader_FetchFrom dev 1 s0 = Ok (hdr_of_bytes (sec s0 1), s1)" "ready s1" "sec s1 = sec s0"
    by (rule FetchFrom_ok[OF s0(2) sk(2)])
  obtain s2 where s2: "FileHeader_FetchFrom dev 2 s1 = Ok (hdr_of_bytes (sec s1 2), s2)" "ready s2" "sec s2 = sec s1"
    by (rule FetchFrom_ok[OF s1(2) sk(3)])
  from that[of s2] s0 s1 s2 show ?thesis
    by (simp add: open_files_def OpenFile_new_def fs_defs fresh_fs_def)
qed

text \<open>A file that needs no further header.\<close>

lemma Allocate_small:
  fixes fileSize :: int
  assumes "ready s" "map_ok bm" "hdr_shape this" "\<And>i. hdr_shape (junk i)"
    and sz: "0 \<le> fileSize" "fileSize < 2 ^ 31" "n = nat (divRoundUp fileSize SectorSize)" "n < NumDirect"
    and room: "n \<le> 1024 - card (marked bm)"
  obtains hdr bm' s' ds where "FileHeader_Allocate dev now junk this bm fileSize s = Ok (True, hdr, bm', s')" "ready s'"
    "\<forall>j. sector_ok j \<longrightarrow> sec s' j = sec s j" "\<forall>sec. file_ok sec hdr [] ds" "FileHeader_FileLength hdr = fileSize"
    "distinct ds" "\<forall>k\<in>set ds. sector_ok k \<and> nat k \<notin> marked bm" "map_ok bm'" "marked bm' = marked bm \<union> nat ` set ds"
    "card (marked bm') \<le> card (marked bm) + n" "length ds = n"
proof -
  have "n + (n - 1) div NumDirect \<le> bm.free bm"
    using room sz(4) assms(2) by (simp add: bm.free_def map_ok_def disk_defs)
  moreover have "n \<noteq> NumDirect" using sz(4) by simp
  ultimately obtain hdr bm' s' hs ds where
    a: "FileHeader_Allocate dev now junk this bm fileSize s = Ok (True, hdr, bm', s')" "ready s'" "hdr_shape hdr"
    "FileHeader_FileLength hdr = fileSize" "chain (sec s') hdr hs ds" "length ds = n" "distinct (hs @ ds)"
    "\<forall>k\<in>set (hs @ ds). sector_ok k \<and> nat k \<notin> marked bm" "map_ok bm'" "marked bm' = marked bm \<union> nat ` set (hs @ ds)"
    "\<forall>j. sector_ok j \<longrightarrow> j \<notin> set hs \<longrightarrow> sec s' j = sec s j"
    using Allocate_spec[where junk = junk and now = now, OF assms(1-4) sz(1-3)] by (elim meta_impE exE conjE) (assumption | rule that)+
  have hs: "hs = []" using a(5,6) sz(4) by (cases hs) auto
  have "fileSize \<le> SectorSize * int n"
    using sz divRoundUp_ge[OF sz(1), of SectorSize] divRoundUp_nonneg_ge0[OF sz(1), of SectorSize] by (simp add: SectorSize_def)
  then have "\<forall>sec. file_ok sec hdr [] ds" using a hs sz(1) by (simp add: file_ok_def)
  moreover have "card (marked bm') \<le> card (marked bm) + n"
    using card_Un_le[of "marked bm" "nat ` set ds"] card_image_le[of "set ds" nat] card_length[of ds] a(6,10) hs by simp
  ultimately show ?thesis using that[OF a(1,2)] a hs by simp
qed

lemma marks:
  assumes "map_ok bm" "sector_ok k"
  obtains bm' where "BitMap_Mark bm k = Ok bm'" "map_ok bm'" "marked bm' = insert (nat k) (marked bm)"
proof -
  have "nat k < bm_size bm" "int (nat k) = k" using assms by (auto simp: map_ok_def sector_ok_def)
  with BitMap_Mark_spec[of bm "nat k"] assms(1) that show ?thesis by (auto simp: map_ok_def)
qed

lemma format_headers_spec:
  fixes m :: fresh_memory
  assumes "ready s" "map_ok bm" "marked bm = {}" "\<And>i. hdr_shape (fr_hdrs m i)" "\<And>i. hdr_shape (fr_chain m i)"
  obtains bm' s' h0 h1 h2 ds0 ds1 ds2 where "format_headers dev m bm s = Ok (bm', s')" "ready s'" "map_ok bm'"
    "marked bm' = nat ` set (0 # ds0 @ 1 # ds1 @ 2 # ds2)" "distinct (0 # ds0 @ 1 # ds1 @ 2 # ds2)"
    "\<forall>k\<in>set (ds0 @ ds1 @ ds2). sector_ok k"
    "\<forall>sec. file_ok sec h0 [] ds0" "\<forall>sec. file_ok sec h1 [] ds1" "\<forall>sec. file_ok sec h2 [] ds2"
    "FileHeader_FileLength h0 = 128" "FileHeader_FileLength h1 = 160" "FileHeader_FileLength h2 = 500"
    "sec s' 0 = hdr_to_bytes h0" "sec s' 1 = hdr_to_bytes h1" "sec s' 2 = hdr_to_bytes h2"
    "card (marked bm') = 10"
proof -
  have sk: "sector_ok 0" "sector_ok 1" "sector_ok 2" by (simp_all add: sector_ok_def disk_defs)
  obtain b0 where b0: "BitMap_Mark bm 0 = Ok b0" "map_ok b0" "marked b0 = {0}"
    by (rule marks[OF assms(2) sk(1)]) (use assms(3) in auto)
  obtain b1 where b1: "BitMap_Mark b0 1 = Ok b1" "map_ok b1" "marked b1 = {0, 1}"
    by (rule marks[OF b0(2) sk(2)]) (use b0(3) in auto)
  obtain b2 where b2: "BitMap_Mark b1 2 = Ok b2" "map_ok b2" "marked b2 = {0, 1, 2}"
    by (rule marks[OF b1(2) sk(3)]) (use b1(3) in auto)
  have n: "1 = nat (divRoundUp 128 SectorSize)" "2 = nat (divRoundUp 160 SectorSize)" "4 = nat (divRoundUp 500 SectorSize)"
    "1 < NumDirect" "2 < NumDirect" "4 < NumDirect"
    by (simp_all add: divRoundUp_nonneg SectorSize_def NumDirect_def)
  have c2: "card (marked b2) = 3" by (simp add: b2(3))
  obtain h0 b3 s0 ds0 where h0: "FileHeader_Allocate dev (fr_now m) (fr_chain m) (fr_hdrs m 0) b2 128 s = Ok (True, h0, b3, s0)"
    "ready s0" "\<forall>j. sector_ok j \<longrightarrow> sec s0 j = sec s j" "\<forall>sec. file_ok sec h0 [] ds0" "FileHeader_FileLength h0 = 128"
    "distinct ds0" "\<forall>k\<in>set ds0. sector_ok k \<and> nat k \<notin> marked b2" "map_ok b3" "marked b3 = marked b2 \<union> nat ` set ds0"
    "card (marked b3) \<le> card (marked b2) + 1" "length ds0 = 1"
    by (rule Allocate_small[OF assms(1) b2(2) assms(4,5) _ _ n(1,4)]) (simp_all add: c2)
  obtain h1 b4 s1 ds1 where h1: "FileHeader_Allocate dev (fr_now m) (fr_chain m) (fr_hdrs m 1) b3 160 s0 = Ok (True, h1, b4, s1)"
    "ready s1" "\<forall>j. sector_ok j \<longrightarrow> sec s1 j = sec s0 j" "\<forall>sec. file_ok sec h1 [] ds1" "FileHeader_FileLength h1 = 160"
    "distinct ds1" "\<forall>k\<in>set ds1. sector_ok k \<and> nat k \<notin> marked b3" "map_ok b4" "marked b4 = marked b3 \<union> nat ` set ds1"
    "card (marked b4) \<le> card (marked b3) + 2" "length ds1 = 2"
    by (rule Allocate_small[OF h0(2,8) assms(4,5) _ _ n(2,5)]) (use c2 h0(10) in simp_all)
  obtain h2 b5 s2 ds2 where h2: "FileHeader_Allocate dev (fr_now m) (fr_chain m) (fr_hdrs m 2) b4 500 s1 = Ok (True, h2, b5, s2)"
    "ready s2" "\<forall>j. sector_ok j \<longrightarrow> sec s2 j = sec s1 j" "\<forall>sec. file_ok sec h2 [] ds2" "FileHeader_FileLength h2 = 500"
    "distinct ds2" "\<forall>k\<in>set ds2. sector_ok k \<and> nat k \<notin> marked b4" "map_ok b5" "marked b5 = marked b4 \<union> nat ` set ds2"
    "length ds2 = 4"
    by (rule Allocate_small[OF h1(2,8) assms(4,5) _ _ n(3,6)]) (use c2 h0(10) h1(10) in simp_all)
  have shape: "hdr_shape h0" "hdr_shape h1" "hdr_shape h2" using h0(4) h1(4) h2(4) by (auto simp: file_ok_def)
  obtain t0 where t0: "FileHeader_WriteBack dev h0 0 s2 = Ok t0" "ready t0"
    "\<forall>j. sector_ok j \<longrightarrow> sec t0 j = (if j = 0 then hdr_to_bytes h0 else sec s2 j)"
    using WriteBack_ok[OF h2(2) sk(1) shape(1)] by metis
  obtain t1 where t1: "FileHeader_WriteBack dev h1 1 t0 = Ok t1" "ready t1"
    "\<forall>j. sector_ok j \<longrightarrow> sec t1 j = (if j = 1 then hdr_to_bytes h1 else sec t0 j)"
    using WriteBack_ok[OF t0(2) sk(2) shape(2)] by metis
  obtain t2 where t2: "FileHeader_WriteBack dev h2 2 t1 = Ok t2" "ready t2"
    "\<forall>j. sector_ok j \<longrightarrow> sec t2 j = (if j = 2 then hdr_to_bytes h2 else sec t1 j)"
    using WriteBack_ok[OF t1(2) sk(3) shape(3)] by metis
  have run: "format_headers dev m bm s = Ok (b5, t2)"
    using b0(1) b1(1) b2(1) h0(1) h1(1) h2(1) t0(1) t1(1) t2(1)
    by (simp add: format_headers_def fs_defs disk_defs)
  have marked: "marked b5 = nat ` set (0 # ds0 @ 1 # ds1 @ 2 # ds2)"
    using b2(3) h0(9) h1(9) h2(9) by auto
  have dist: "distinct (0 # ds0 @ 1 # ds1 @ 2 # ds2)"
    using b2(3) h0(6,7,9) h1(6,7,9) h2(6,7,9) by auto
  have ok: "\<forall>k\<in>set (ds0 @ ds1 @ ds2). sector_ok k" using h0(7) h1(7) h2(7) by auto
  have "\<forall>k\<in>set (0 # ds0 @ 1 # ds1 @ 2 # ds2). 0 \<le> k" using ok by (auto simp: sector_ok_def)
  then have "inj_on nat (set (0 # ds0 @ 1 # ds1 @ 2 # ds2))" by (intro inj_onI) (metis nat_0_le)
  from card_image[OF this] have "card (marked b5) = 10"
    unfolding marked using distinct_card[OF dist] h0(11) h1(11) h2(10) by simp
  moreover note dist ok
  ultimately show ?thesis
    using that[OF run t2(2) h2(8) marked] h0(4,5) h1(4,5) h2(4,5) t0(3) t1(3) t2(3) sk by simp
qed

text \<open>The free map and the directory are written to the files that were just opened.\<close>

lemma format_write_spec:
  fixes h0 h1 h2 ds0 ds1 ds2 and R :: layout
  assumes "ready s" "map_ok bm" "marked bm = nat ` set (0 # ds0 @ 1 # ds1 @ 2 # ds2)"
    and dist: "distinct (0 # ds0 @ 1 # ds1 @ 2 # ds2)" "\<forall>k\<in>set (ds0 @ ds1 @ ds2). sector_ok k"
    and fls: "\<forall>sec. file_ok sec h0 [] ds0" "\<forall>sec. file_ok sec h1 [] ds1" "\<forall>sec. file_ok sec h2 [] ds2"
      "FileHeader_FileLength h0 = 128" "FileHeader_FileLength h1 = 160" "FileHeader_FileLength h2 = 500"
    and hdrs: "sec s 0 = hdr_to_bytes h0" "sec s 1 = hdr_to_bytes h1" "sec s 2 = hdr_to_bytes h2"
    and d: "dir_ok str d" "length (dir_table d) = 10" "tableSize d = 10" "used_entries d = []"
  defines "fs \<equiv> fresh_fs (sec s)"
    and "R \<equiv> (\<lambda>_. ([], []))(0 := ([], ds0), 1 := ([], ds1), 2 := ([], ds2))"
  obtains s1 s' where "BitMap_WriteBack dev junk (freeMapFile fs) bm s = Ok s1"
    "Directory_WriteBack dev junk (directoryFile fs) d s1 = Ok s'" "ready s'" "fs_ok (sec s') fs str R"
    "fs_files (sec s') fs str R = Map.empty" "map_on (sec s') fs R = bm"
proof -
  have shape: "hdr_shape h0" "hdr_shape h1" "hdr_shape h2" using fls(1-3) by (simp_all add: file_ok_def)
  have h: "of_hdr (freeMapFile fs) = h0" "of_hdr (directoryFile fs) = h1"
    using hdrs shape by (simp_all add: fs_def fresh_fs_def)
  obtain s1 where s1: "BitMap_WriteBack dev junk (freeMapFile fs) bm s = Ok s1" "ready s1"
    "file_bytes (sec s1) h0 ds0 = words_to_bytes (bm_map bm)" "\<forall>j. sector_ok j \<longrightarrow> j \<notin> set ds0 \<longrightarrow> sec s1 j = sec s j"
    by (rule BitMap_WriteBack_spec[of s "freeMapFile fs" "[]" ds0, unfolded h]) (use assms(1,2) fls(1,4) in auto)
  obtain s2 where s2: "Directory_WriteBack dev junk (directoryFile fs) d s1 = Ok s2" "ready s2"
    "file_bytes (sec s2) h1 ds1 = table_to_bytes (dir_table d)" "\<forall>j. sector_ok j \<longrightarrow> j \<notin> set ds1 \<longrightarrow> sec s2 j = sec s1 j"
    by (rule Directory_WriteBack_spec[of s1 "directoryFile fs" "[]" ds1 d, unfolded h]) (use s1(2) d fls(2,5) in auto)
  have sk: "sector_ok 0" "sector_ok 1" "sector_ok 2" by (simp_all add: sector_ok_def disk_defs)
  have keep: "sec s2 0 = sec s 0" "sec s2 1 = sec s 1" "sec s2 2 = sec s 2"
    using s1(4) s2(4) sk dist(1) by auto
  have "sec s2 j = sec s1 j" if "j \<in> set ds0" for j using s2(4) dist that by auto
  then have map: "file_bytes (sec s2) h0 ds0 = words_to_bytes (bm_map bm)"
    using file_same(2)[of h0 h0 "[]" ds0 "sec s2" "sec s1"] s1(3) by simp
  have dd: "dir_on (sec s2) fs R = d"
    using s2(3) d(2,3) table_of_to_bytes[of "dir_table d" "[]"] by (simp add: dir_on_def h R_def)
  have mm: "map_on (sec s2) fs R = bm"
    using map map_ok_fields[OF assms(2)] bytes_to_words_inverse[of "bm_map bm" "[]"] by (simp add: map_on_def h R_def)
  have heads: "heads d = [0, 1, 2]" using d(4) by (simp add: heads_def dir_sectors_def)
  have own: "all_own R (heads d) = 0 # ds0 @ 1 # ds1 @ 2 # ds2" by (simp add: heads own_def R_def)
  have "files_ok (sec s2) R (heads d)"
    unfolding files_ok_def own using dist(1) sk keep hdrs shape fls(1-3) by (auto simp: heads R_def)
  then have "fs_ok (sec s2) fs str R"
    unfolding fs_ok_def dd mm own using h keep hdrs shape fls(4-6) d(1) assms(3) by simp
  moreover have "fs_files (sec s2) fs str R = Map.empty"
    unfolding fs_files_def dd using d(4) by (simp add: lookup_def fun_eq_iff)
  ultimately show ?thesis using that[OF s1(1) s2(1,2)] mm by blast
qed

lemma format_spec:
  fixes m :: fresh_memory
  assumes "ready s" "\<And>i. hdr_shape (fr_hdrs m i)" "\<And>i. hdr_shape (fr_chain m i)"
  shows "\<exists>fs s' R. FileSystem_new dev str m debug True s = Ok (fs, s') \<and> ready s' \<and> fs_ok (sec s') fs str R \<and>
    fs_files (sec s') fs str R = Map.empty \<and> card (marked (map_on (sec s') fs R)) = 10"
proof -
  obtain bm where bm: "BitMap_new (fr_words m) NumSectors = Ok bm" "map_ok bm" "marked bm = {}"
    using BitMap_new_spec[of NumSectors "fr_words m"] by (auto simp: map_ok_def disk_defs)
  obtain d where d: "Directory_new (fr_entries m) NumDirEntries = Ok d" "dir_ok str d" "length (dir_table d) = nat NumDirEntries"
    "tableSize d = NumDirEntries" "used_entries d = []"
    by (rule Directory_new_spec[of NumDirEntries "fr_entries m" str]) (simp add: NumDirEntries_def)
  have d10: "length (dir_table d) = 10" "tableSize d = 10" using d(3,4) by (simp_all add: NumDirEntries_def)
  obtain bm' s1 h0 h1 h2 ds0 ds1 ds2 where f: "format_headers dev m bm s = Ok (bm', s1)" "ready s1" "map_ok bm'"
    "marked bm' = nat ` set (0 # ds0 @ 1 # ds1 @ 2 # ds2)" "distinct (0 # ds0 @ 1 # ds1 @ 2 # ds2)"
    "\<forall>k\<in>set (ds0 @ ds1 @ ds2). sector_ok k"
    "\<forall>sec. file_ok sec h0 [] ds0" "\<forall>sec. file_ok sec h1 [] ds1" "\<forall>sec. file_ok sec h2 [] ds2"
    "FileHeader_FileLength h0 = 128" "FileHeader_FileLength h1 = 160" "FileHeader_FileLength h2 = 500"
    "sec s1 0 = hdr_to_bytes h0" "sec s1 1 = hdr_to_bytes h1" "sec s1 2 = hdr_to_bytes h2"
    "card (marked bm') = 10"
    by (rule format_headers_spec[OF assms(1) bm(2,3) assms(2,3)])
  obtain s2 where o: "open_files dev s1 = Ok (fresh_fs (sec s1), s2)" "ready s2" "sec s2 = sec s1"
    by (rule open_files_spec[OF f(2)])
  obtain s3 s4 R where w: "BitMap_WriteBack dev (fr_bytes m) (freeMapFile (fresh_fs (sec s2))) bm' s2 = Ok s3"
    "Directory_WriteBack dev (fr_bytes m) (directoryFile (fresh_fs (sec s2))) d s3 = Ok s4" "ready s4"
    "fs_ok (sec s4) (fresh_fs (sec s2)) str R" "fs_files (sec s4) (fresh_fs (sec s2)) str R = Map.empty"
    "map_on (sec s4) (fresh_fs (sec s2)) R = bm'"
    by (rule format_write_spec[OF o(2) f(3-12), unfolded o(3), OF f(13-15) d(2) d10 d(5), of "fr_bytes m"])
      (rule that, simp_all only: o(3))
  obtain out where "BitMap_Print bm' = Ok out" using BitMap_Print_ok[of bm'] f(3) by (auto simp: map_ok_def)
  moreover have "Directory_Print dev str d s4 = Ok ([], s4)"
    by (rule Directory_Print_empty[OF d(5)]) (use d(2) in \<open>simp add: dir_ok_def\<close>)
  ultimately have "FileSystem_new dev str m debug True s = Ok (fresh_fs (sec s2), s4)"
    using bm(1) d(1) f(1) o(1,3) w(1,2) by (cases debug) (simp_all add: FileSystem_new_def)
  with w(3-6) f(16) show ?thesis by metis
qed

end

end
