(* ===== verification/Kernel_File_System.thy ===== *)
theory Kernel_File_System
  imports File_System_Format Kernel_Files
begin

text \<open>
  The file system on the kernel's disk: format, Create, Open, Write, Remove, the pipe and a
  restart, each as one statement about the operations of src/filesys/filesys.cc running on the
  synchronous disk.
\<close>

subsection \<open>Formatting\<close>

text \<open>C7. Formatting establishes the invariant of the file system, on any disk: the free map, the directory and the
  pipe are well-formed files that share no sector, the free map marks exactly the ten sectors they
  own, and the directory is empty.\<close>

theorem format_establishes_invariant:
  fixes m :: fresh_memory
  assumes "lone s" "\<And>i. hdr_shape (fr_hdrs m i)" "\<And>i. hdr_shape (fr_chain m i)"
  shows "\<exists>fs s' R. FileSystem_new (kernel_dev n) str m debug True s = Ok (fs, s') \<and> lone s' \<and>
    fs_ok (sectors s') fs str R \<and> fs_files (sectors s') fs str R = Map.empty \<and> card (marked (map_on (sectors s') fs R)) = 10"
  unfolding kernel_dev_eq using assms by (rule synch_disk.format_spec)

text \<open>A concrete memory for the examples: two strings, and fresh memory full of zeros.\<close>

definition two_names :: c_strings where
  "two_names p = (if p = 1 then Some ''hello'' else if p = 2 then Some ''world'' else None)"

definition zero_memory :: fresh_memory where
  "zero_memory = \<lparr>fr_words = (\<lambda>_. 0), fr_entries = (\<lambda>_. \<lparr>de_inUse = True, de_sector = 0, de_type = 0, de_name = 0\<rparr>),
     fr_hdrs = (\<lambda>_. sample_header), fr_chain = (\<lambda>_. sample_header), fr_bytes = (\<lambda>_. 0), fr_now = 9\<rparr>"

definition formatted :: "FileSystem \<times> kern" where
  "formatted = (case FileSystem_new (kernel_dev 0) two_names zero_memory False True booted of Ok x \<Rightarrow> x | Err _ \<Rightarrow> (fresh_fs (sectors booted), booted))"

lemma zero_memory_shape: "hdr_shape (fr_hdrs zero_memory i)" "hdr_shape (fr_chain zero_memory j)"
  by (simp_all add: zero_memory_def sample_header_shape)

theorem format_establishes_invariant_witness:
  "\<exists>R. FileSystem_new (kernel_dev 0) two_names zero_memory False True booted = Ok formatted \<and> lone (snd formatted) \<and>
    fs_ok (sectors (snd formatted)) (fst formatted) two_names R \<and>
    fs_files (sectors (snd formatted)) (fst formatted) two_names R = Map.empty \<and>
    card (marked (map_on (sectors (snd formatted)) (fst formatted) R)) = 10"
  using format_establishes_invariant[OF lone_booted zero_memory_shape, of 0 two_names False]
  by (elim exE conjE) (simp add: formatted_def, blast)

lemma formatted_ok:
  "\<exists>R. lone (snd formatted) \<and> fs_ok (sectors (snd formatted)) (fst formatted) two_names R \<and>
    fs_files (sectors (snd formatted)) (fst formatted) two_names R = Map.empty \<and>
    card (marked (map_on (sectors (snd formatted)) (fst formatted) R)) = 10"
  using synch_disk.format_spec[OF lone_booted zero_memory_shape, of 0 two_names False]
  unfolding kernel_dev_eq[symmetric]
  by (elim exE conjE) (simp add: formatted_def, blast)

subsection \<open>Creating files\<close>

text \<open>C8. \<open>Create\<close> of a name that is not in the directory succeeds when the directory has an entry left and the disk
  has room for the header, the data and the further headers: the file is there with \<open>initialSize\<close>
  bytes, all other files have the bytes they had, and the invariant holds again. The number of
  data sectors is not \<open>NumDirect\<close>, where \<open>Allocate\<close> fails.\<close>

theorem Create_adds_file:
  fixes m :: fresh_memory and initialSize :: int
  defines "d \<equiv> nat (divRoundUp initialSize SectorSize)"
  assumes "lone s" "fs_ok (sectors s) fs str R" "str name = Some nm" "fs_files (sectors s) fs str R nm = None"
    "hdr_shape (fr_hdrs m 0)" "\<And>i. hdr_shape (fr_chain m i)"
    "0 \<le> initialSize" "initialSize < 2 ^ 31" "d \<noteq> NumDirect"
    "card (dom (fs_files (sectors s) fs str R)) < 10"
    "Suc (d + (d - 1) div NumDirect) \<le> 1024 - card (marked (map_on (sectors s) fs R))"
  shows "\<exists>s' R' bs. FileSystem_Create (kernel_dev n) str m fs name initialSize s = Ok (True, s') \<and> lone s' \<and>
    fs_ok (sectors s') fs str R' \<and> length bs = nat initialSize \<and>
    fs_files (sectors s') fs str R' = (fs_files (sectors s) fs str R)(nm \<mapsto> bs)"
  unfolding kernel_dev_eq
  by (rule synch_disk.Create_spec[OF assms(2-9) meta_eq_to_obj_eq[OF d_def] assms(10-12)])

theorem Create_adds_file_witness:
  "\<exists>R s' R' bs. fs_ok (sectors (snd formatted)) (fst formatted) two_names R \<and>
    FileSystem_Create (kernel_dev 0) two_names zero_memory (fst formatted) 1 5000 (snd formatted) = Ok (True, s') \<and> lone s' \<and>
    fs_ok (sectors s') (fst formatted) two_names R' \<and> length bs = 5000 \<and>
    fs_files (sectors s') (fst formatted) two_names R' = [''hello'' \<mapsto> bs]"
proof -
  obtain R where R: "lone (snd formatted)" "fs_ok (sectors (snd formatted)) (fst formatted) two_names R"
    "fs_files (sectors (snd formatted)) (fst formatted) two_names R = Map.empty"
    "card (marked (map_on (sectors (snd formatted)) (fst formatted) R)) = 10"
    using formatted_ok by blast
  have "nat (divRoundUp 5000 SectorSize) = 40" by (simp add: divRoundUp_nonneg SectorSize_def)
  then show ?thesis
    using Create_adds_file[OF R(1,2), of 1 "''hello''" zero_memory 5000 0] R(2-4) zero_memory_shape
    by (simp add: two_names_def NumDirect_def) blast
qed

text \<open>C9. \<open>Create\<close> returns FALSE and changes nothing on disk when the name exists, the directory has no entry left, or
  the sectors left over after the header do not hold the data.\<close>

theorem Create_refuses:
  fixes m :: fresh_memory
  assumes "lone s" "fs_ok (sectors s) fs str R" "str name = Some nm" "0 \<le> initialSize"
    "fs_files (sectors s) fs str R nm \<noteq> None \<or> card (dom (fs_files (sectors s) fs str R)) \<ge> 10 \<or>
     1024 - card (marked (map_on (sectors s) fs R)) \<le> nat (divRoundUp initialSize SectorSize)"
  shows "\<exists>s'. FileSystem_Create (kernel_dev n) str m fs name initialSize s = Ok (False, s') \<and> lone s' \<and> sectors s' = sectors s"
  unfolding kernel_dev_eq using assms by (rule synch_disk.Create_refused)

theorem Create_refuses_witness:
  "\<exists>s'. FileSystem_Create (kernel_dev 0) two_names zero_memory (fst formatted) 1 200000 (snd formatted) = Ok (False, s') \<and>
    lone s' \<and> sectors s' = sectors (snd formatted)"
proof -
  obtain R where R: "lone (snd formatted)" "fs_ok (sectors (snd formatted)) (fst formatted) two_names R"
    "card (marked (map_on (sectors (snd formatted)) (fst formatted) R)) = 10"
    using formatted_ok by blast
  have "nat (divRoundUp 200000 SectorSize) = 1563" by (simp add: divRoundUp_nonneg SectorSize_def)
  then show ?thesis
    using Create_refuses[OF R(1,2), of 1 "''hello''" 200000 0 zero_memory] R(3) by (simp add: two_names_def)
qed

subsection \<open>Using files\<close>

text \<open>C6. \<open>Open\<close> finds a file by its name, or returns NULL, and a \<open>Write\<close> through it is an update of the abstract file
  system: the bytes at the seek position of that file change, no other file does, and the invariant
  holds. A second \<open>Open\<close> of the name sees the bytes written.\<close>

theorem Open_Write_refines:
  fixes m :: fresh_memory and now :: u32
  assumes "lone s" "fs_ok (sectors s) fs str R" "str name = Some nm" "fs_files (sectors s) fs str R nm = Some bs"
    "0 \<le> pos" "0 \<le> nbytes" "pos + nbytes \<le> INT_MAX" "nat nbytes \<le> length from"
  defines "data \<equiv> take (length bs - nat pos) (take (nat nbytes) from)"
  shows "\<exists>f s1 f' s'. FileSystem_Open (kernel_dev n) str m fs name s = Ok (Some f, s1) \<and>
    OpenFile_Write (kernel_dev n) junk now (OpenFile_Seek pos f) from nbytes s1 = Ok (int (length data), f', s') \<and> lone s' \<and>
    fs_ok (sectors s') fs str R \<and>
    fs_files (sectors s') fs str R = (fs_files (sectors s) fs str R)(nm \<mapsto> overwrite (nat pos) data bs)"
proof -
  let ?d = "dir_on (sectors s) fs R"
  obtain k where k: "lookup str ?d nm = Some k" "contents (sectors s) R k = bs"
    using assms(4) by (auto simp: fs_files_def)
  have in_dir: "k \<in> set (dir_sectors ?d)" by (rule lookup_sector[OF k(1)])
  then have K: "k \<in> set (heads ?d)" "k \<noteq> 0" "k \<noteq> 1" using fs_okD(16)[OF assms(2)] by (auto simp: heads_def)
  let ?f = "\<lparr>of_hdr = hdr_of_bytes (sectors s k), of_seekPosition = 0, of_hdrSector = k\<rparr>"
  obtain s1 where s1: "FileSystem_Open (kernel_dev n) str m fs name s = Ok (Some ?f, s1)" "lone s1" "sectors s1 = sectors s"
    using synch_disk.Open_spec[OF assms(1-3), of n m] k(1) unfolding kernel_dev_eq by auto
  let ?g = "OpenFile_Seek pos ?f"
  have g: "of_hdr ?g = hdr_of_bytes (sectors s1 k)" "of_hdrSector ?g = k" "of_seekPosition ?g = pos"
    by (simp_all add: OpenFile_Seek_def s1(3))
  have pos: "0 \<le> of_seekPosition ?g" "of_seekPosition ?g + nbytes \<le> INT_MAX" using assms(5,7) g(3) by simp_all
  obtain f' s' where w: "OpenFile_Write (kernel_dev n) junk now ?g from nbytes s1 = Ok (int (length data), f', s')"
    "lone s'" "fs_ok (sectors s') fs str R" "dir_on (sectors s') fs R = ?d"
    "contents (sectors s') R k = overwrite (nat pos) data bs"
    "\<forall>x\<in>set (heads ?d). x \<noteq> k \<longrightarrow> contents (sectors s') R x = contents (sectors s) R x"
    by (rule synch_disk.File_Write_spec[OF s1(2) assms(2)[folded s1(3)] K(1)[folded s1(3)] K(2,3) g(1,2) pos(1) assms(6)
        pos(2) assms(8), of n junk now, unfolded g(3), unfolded s1(3) k(2), folded data_def kernel_dev_eq])
  have inj: "lookup str ?d x = Some k \<Longrightarrow> x = nm" for x by (rule lookup_inj[OF assms(2) _ k(1)])
  have "fs_files (sectors s') fs str R x = ((fs_files (sectors s) fs str R)(nm \<mapsto> overwrite (nat pos) data bs)) x" for x
  proof (cases "lookup str ?d x")
    case (Some y)
    then have "y \<in> set (heads ?d)" using lookup_sector[OF Some] by (simp add: heads_def)
    moreover have "x \<noteq> nm \<Longrightarrow> y \<noteq> k" using inj Some by blast
    ultimately show ?thesis using Some w(5,6) k(1) by (cases "x = nm") (simp_all add: fs_files_def w(4))
  next
    case None
    with k(1) have "x \<noteq> nm" by auto
    with None show ?thesis by (simp add: fs_files_def w(4))
  qed
  then have "fs_files (sectors s') fs str R = (fs_files (sectors s) fs str R)(nm \<mapsto> overwrite (nat pos) data bs)"
    by (rule ext)
  with s1(1) w(1-3) show ?thesis by (intro exI conjI)
qed

text \<open>The formatted disk with a file \<open>hello\<close> of 5000 bytes.\<close>

definition created :: kern where
  "created = (case FileSystem_Create (kernel_dev 0) two_names zero_memory (fst formatted) 1 5000 (snd formatted) of
     Ok (_, s) \<Rightarrow> s | Err _ \<Rightarrow> booted)"

lemma created_ok:
  "\<exists>R bs. lone created \<and> fs_ok (sectors created) (fst formatted) two_names R \<and> length bs = 5000 \<and>
    fs_files (sectors created) (fst formatted) two_names R = [''hello'' \<mapsto> bs]"
proof -
  obtain R where R: "lone (snd formatted)" "fs_ok (sectors (snd formatted)) (fst formatted) two_names R"
    "fs_files (sectors (snd formatted)) (fst formatted) two_names R = Map.empty"
    "card (marked (map_on (sectors (snd formatted)) (fst formatted) R)) = 10"
    using formatted_ok by blast
  have "nat (divRoundUp 5000 SectorSize) = 40" by (simp add: divRoundUp_nonneg SectorSize_def)
  then obtain s' R' bs where "FileSystem_Create (kernel_dev 0) two_names zero_memory (fst formatted) 1 5000 (snd formatted) = Ok (True, s')"
    "lone s'" "fs_ok (sectors s') (fst formatted) two_names R'" "length bs = 5000"
    "fs_files (sectors s') (fst formatted) two_names R' = [''hello'' \<mapsto> bs]"
    using synch_disk.Create_spec[OF R(1,2), of 1 "''hello''" zero_memory 5000 40 0] R(3,4) zero_memory_shape
    unfolding kernel_dev_eq[symmetric]
    by (simp add: two_names_def NumDirect_def) blast
  moreover from this(1) have "created = s'" by (simp add: created_def)
  ultimately show ?thesis by blast
qed

theorem Open_Write_refines_witness:
  "\<exists>R bs f s1 f' s'. fs_ok (sectors created) (fst formatted) two_names R \<and>
    FileSystem_Open (kernel_dev 0) two_names zero_memory (fst formatted) 1 created = Ok (Some f, s1) \<and>
    OpenFile_Write (kernel_dev 0) (\<lambda>_. 0) 9 (OpenFile_Seek 4998 f) [1, 2, 3] 3 s1 = Ok (2, f', s') \<and> lone s' \<and>
    fs_files (sectors s') (fst formatted) two_names R = [''hello'' \<mapsto> overwrite 4998 [1, 2] bs]"
proof -
  obtain R bs where R: "lone created" "fs_ok (sectors created) (fst formatted) two_names R" "length bs = 5000"
    "fs_files (sectors created) (fst formatted) two_names R = [''hello'' \<mapsto> bs]"
    using created_ok by blast
  show ?thesis
    using Open_Write_refines[OF R(1,2), of 1 "''hello''" bs 4998 3 "[1, 2, 3]" 0 zero_memory "\<lambda>_. 0" 9] R(2-4)
    by (simp add: two_names_def INT_MAX_def) blast
qed

text \<open>C11. What goes into the pipe comes out: \<open>WritePipe\<close> followed by \<open>ReadPipe\<close> returns the bytes, up to the 500
  that the pipe holds, and no file of the directory changes. Both start at the beginning of the
  pipe, so a second \<open>WritePipe\<close> replaces what the first one wrote.\<close>

theorem pipe_roundtrip:
  fixes m :: fresh_memory
  assumes "lone s" "fs_ok (sectors s) fs str R" "0 \<le> nbytes" "nbytes \<le> INT_MAX" "nat nbytes \<le> length data"
  shows "\<exists>s1 s2. WritePipe (kernel_dev n) m data nbytes s = Ok (min 500 nbytes, s1) \<and>
    ReadPipe (kernel_dev n) m nbytes s1 = Ok (min 500 nbytes, take 500 (take (nat nbytes) data), s2) \<and> lone s2 \<and>
    fs_ok (sectors s1) fs str R \<and> fs_files (sectors s1) fs str R = fs_files (sectors s) fs str R"
proof -
  let ?d = "dir_on (sectors s) fs R"
  note f = fs_okD[OF assms(2)]
  have two: "sector_ok 2" by (simp add: sector_ok_def disk_defs)
  have len: "length (contents (sectors s) R 2) = 500"
    using synch_disk.length_file_bytes[OF assms(1) f(14)] f(9) by (simp add: contents_def)
  obtain t where t: "FileHeader_FetchFrom (kernel_dev n) 2 s = Ok (hdr_of_bytes (sectors s 2), t)" "lone t" "sectors t = sectors s"
    using synch_disk.FetchFrom_ok[OF assms(1) two, of n] unfolding kernel_dev_eq by metis
  let ?p = "\<lparr>of_hdr = hdr_of_bytes (sectors s 2), of_seekPosition = 0, of_hdrSector = 2\<rparr>"
  have p: "of_hdr ?p = hdr_of_bytes (sectors t 2)" "of_hdrSector ?p = 2" "of_seekPosition ?p = 0"
    "0 \<le> of_seekPosition ?p" "of_seekPosition ?p + nbytes \<le> INT_MAX" "(2::int) \<noteq> 0" "(2::int) \<noteq> 1"
    using assms(4) t(3) by simp_all
  let ?data = "take 500 (take (nat nbytes) data)"
  obtain g s1 where w: "OpenFile_Write (kernel_dev n) (fr_bytes m) (fr_now m) ?p data nbytes t = Ok (int (length ?data), g, s1)"
    "lone s1" "fs_ok (sectors s1) fs str R" "dir_on (sectors s1) fs R = ?d"
    "contents (sectors s1) R 2 = overwrite 0 ?data (contents (sectors s) R 2)"
    "\<forall>x\<in>set (heads ?d). x \<noteq> 2 \<longrightarrow> contents (sectors s1) R x = contents (sectors s) R x"
    by (rule synch_disk.File_Write_spec[OF t(2) assms(2)[folded t(3)] f(4)[folded t(3)] p(6,7,1,2,4) assms(3) p(5) assms(5),
          of n "fr_bytes m" "fr_now m", unfolded p(3), unfolded t(3) len nat_0 diff_zero, folded kernel_dev_eq])
  have n: "int (length ?data) = min 500 nbytes" using assms(3,5) by (auto simp: min_def)
  have data: "take (nat nbytes) (contents (sectors s1) R 2) = ?data"
    using len assms(5) by (simp add: w(5) overwrite_def min_def)
  obtain u where u: "FileHeader_FetchFrom (kernel_dev n) 2 s1 = Ok (hdr_of_bytes (sectors s1 2), u)" "lone u" "sectors u = sectors s1"
    using synch_disk.FetchFrom_ok[OF w(2) two, of n] unfolding kernel_dev_eq by metis
  let ?q = "\<lparr>of_hdr = hdr_of_bytes (sectors s1 2), of_seekPosition = 0, of_hdrSector = 2\<rparr>"
  have q: "file_ok (sectors u) (of_hdr ?q) (fst (R 2)) (snd (R 2))" "of_hdrSector ?q \<notin> set (fst (R 2) @ snd (R 2))"
    "0 \<le> of_seekPosition ?q" "of_seekPosition ?q + nbytes \<le> INT_MAX" "sector_ok (of_hdrSector ?q)"
    using fs_okD(14)[OF w(3)] own_distinct[OF fs_okD(1,4)[OF w(3)]] two assms(4) u(3) by (simp_all add: own_def)
  have slice: "take (nat nbytes) (drop (nat (of_seekPosition ?q)) (file_bytes (sectors u) (of_hdr ?q) (snd (R 2)))) = ?data"
    using data u(3) by (simp add: contents_def)
  obtain q' s2 where r: "OpenFile_Read (kernel_dev n) (fr_now m) ?q nbytes u = Ok (min 500 nbytes, ?data, q', s2)" "lone s2"
    by (rule synch_disk.Read_spec[OF u(2) q(1,3) assms(3) q(4,5,2), of n "fr_now m", unfolded slice n, folded kernel_dev_eq])
  have "fs_files (sectors s1) fs str R x = fs_files (sectors s) fs str R x" for x
  proof (cases "lookup str ?d x")
    case (Some y)
    then show ?thesis using w(4,6) lookup_sector[OF Some] f(16) by (simp add: fs_files_def heads_def)
  qed (simp add: fs_files_def w(4))
  then have "fs_files (sectors s1) fs str R = fs_files (sectors s) fs str R" by (rule ext)
  moreover have "WritePipe (kernel_dev n) m data nbytes s = Ok (min 500 nbytes, s1)"
    using t(1) w(1) n by (simp add: WritePipe_def OpenFile_new_def PipeSector_def)
  moreover have "ReadPipe (kernel_dev n) m nbytes s1 = Ok (min 500 nbytes, ?data, s2)"
    using u(1) r(1) by (simp add: ReadPipe_def OpenFile_new_def PipeSector_def)
  ultimately show ?thesis using r(2) w(3) by (intro exI conjI)
qed

theorem pipe_roundtrip_witness:
  "\<exists>s1 s2. WritePipe (kernel_dev 0) zero_memory [7, 8, 9] 3 (snd formatted) = Ok (3, s1) \<and>
    ReadPipe (kernel_dev 0) zero_memory 3 s1 = Ok (3, [7, 8, 9], s2) \<and> lone s2"
proof -
  obtain R where R: "lone (snd formatted)" "fs_ok (sectors (snd formatted)) (fst formatted) two_names R"
    using formatted_ok by blast
  show ?thesis
    using pipe_roundtrip[OF R, of 3 "[7, 8, 9]" 0 zero_memory] by (simp add: INT_MAX_def) blast
qed

subsection \<open>What does not work\<close>

text \<open>C12. \<open>Remove\<close> of a file that exists never returns: it ends in the outer loop of \<open>Deallocate\<close>. Only the removal of
  a name that is not there returns, with FALSE and an unchanged disk.\<close>

theorem Remove_only_fails:
  fixes m :: fresh_memory
  assumes "lone s" "fs_ok (sectors s) fs str R" "str name = Some nm"
  shows "if fs_files (sectors s) fs str R nm = None
    then \<exists>s'. FileSystem_Remove (kernel_dev n) str m fs name s = Ok (False, s') \<and> lone s' \<and> sectors s' = sectors s
    else \<forall>r. FileSystem_Remove (kernel_dev n) str m fs name s \<noteq> Ok r"
proof -
  let ?d = "dir_on (sectors s) fs R"
  note f = fs_okD[OF assms(2)]
  obtain s1 where s1: "fetch_directory (kernel_dev n) m fs s = Ok (?d, s1)" "lone s1" "sectors s1 = sectors s"
    unfolding kernel_dev_eq by (rule synch_disk.fetch_directory_spec[OF assms(1,2)])
  have find: "Directory_Find str ?d name = Ok (case lookup str ?d nm of None \<Rightarrow> -1 | Some k \<Rightarrow> k)"
    by (rule Find_spec[OF f(10) assms(3)])
  show ?thesis
  proof (cases "lookup str ?d nm")
    case None
    with find s1 show ?thesis by (simp add: FileSystem_Remove_def fs_files_def)
  next
    case (Some k)
    then have "k \<noteq> -1" using lookup_sector[OF Some] f(1) by (auto simp: files_ok_def heads_def sector_ok_def)
    then have "FileSystem_Remove (kernel_dev n) str m fs name s \<noteq> Ok r" for r
      using Some find s1(1) by (auto simp: FileSystem_Remove_def result_simps Deallocate_not_Ok)
    with Some show ?thesis by (simp add: fs_files_def)
  qed
qed

theorem Remove_only_fails_witness:
  "(\<forall>r. FileSystem_Remove (kernel_dev 0) two_names zero_memory (fst formatted) 1 created \<noteq> Ok r) \<and>
   (\<exists>s'. FileSystem_Remove (kernel_dev 0) two_names zero_memory (fst formatted) 2 created = Ok (False, s') \<and>
     lone s' \<and> sectors s' = sectors created)"
proof -
  obtain R bs where R: "lone created" "fs_ok (sectors created) (fst formatted) two_names R"
    "fs_files (sectors created) (fst formatted) two_names R = [''hello'' \<mapsto> bs]"
    using created_ok by blast
  show ?thesis
    using Remove_only_fails[OF R(1,2), of 1 "''hello''" 0 zero_memory] Remove_only_fails[OF R(1,2), of 2 "''world''" 0 zero_memory] R(3)
    by (simp add: two_names_def)
qed

lemma index_loop_dangling:
  assumes "\<forall>i\<in>set is. i < length t" "\<forall>e\<in>set t. de_inUse e \<longrightarrow> str (de_name e) = None" "\<exists>i\<in>set is. de_inUse (t ! i)"
  shows "index_loop str t name (map int is) = Err DanglingPointer"
  using assms(1,3)
proof (induction "is")
  case (Cons i "is")
  then show ?case using assms(2) by (cases "de_inUse (t ! i)") (auto simp: c_string_def)
qed simp

text \<open>C13. The names of the files do not survive a restart: the directory on disk holds the addresses of the strings, so
  after a start without formatting in a process whose memory has nothing at these addresses, opening
  any file follows a wild pointer, although the files are still on the disk.\<close>

theorem names_lost_at_restart:
  fixes m :: fresh_memory
  assumes "lone s" "fs_ok (sectors s) fs str R" "fs_files (sectors s) fs str R \<noteq> Map.empty"
    "\<forall>e\<in>set (used_entries (dir_on (sectors s) fs R)). str' (de_name e) = None"
  shows "\<exists>fs' s1. FileSystem_new (kernel_dev n) str' m debug False s = Ok (fs', s1) \<and> sectors s1 = sectors s \<and>
    FileSystem_Open (kernel_dev n) str' m fs' name s1 = Err DanglingPointer"
proof -
  let ?fs = "fresh_fs (sectors s)" and ?d = "dir_on (sectors s) fs R"
  note f = fs_okD[OF assms(2)]
  obtain s1 where s1: "open_files (kernel_dev n) s = Ok (?fs, s1)" "lone s1" "sectors s1 = sectors s"
    unfolding kernel_dev_eq by (rule synch_disk.open_files_spec[OF assms(1)])
  have same: "dir_on (sectors s) ?fs R = ?d" "map_on (sectors s) ?fs R = map_on (sectors s) fs R"
    using f(5,6) by (simp_all add: dir_on_def map_on_def fresh_fs_def)
  have "fs_ok (sectors s) ?fs str R"
    using assms(2) unfolding fs_ok_def same by (simp add: fresh_fs_def)
  then have ok: "fs_ok (sectors s1) ?fs str R" unfolding s1(3) .
  obtain s2 where s2: "fetch_directory (kernel_dev n) m ?fs s1 = Ok (?d, s2)"
    unfolding kernel_dev_eq by (rule synch_disk.fetch_directory_spec[OF s1(2) ok, unfolded s1(3) same])
  have "used_entries ?d \<noteq> []" using assms(3) by (auto simp: fs_files_def lookup_def)
  then have "\<exists>i\<in>set [0..<length (dir_table ?d)]. de_inUse (dir_table ?d ! i)"
    by (fastforce simp: used_entries_def filter_empty_conv in_set_conv_nth)
  then have "index_loop str' (dir_table ?d) name (map int [0..<length (dir_table ?d)]) = Err DanglingPointer"
    using assms(4) by (intro index_loop_dangling) (auto simp: used_entries_def)
  then have "Directory_FindIndex str' ?d name = Err DanglingPointer"
    using f(10) upto_range[of 0 "length (dir_table ?d)"] by (simp add: Directory_FindIndex_def dir_ok_def)
  then have "FileSystem_Open (kernel_dev n) str' m ?fs name s1 = Err DanglingPointer"
    using s2 by (simp add: FileSystem_Open_def Directory_Find_def)
  with s1 show ?thesis by (simp add: FileSystem_new_def)
qed

theorem names_lost_at_restart_witness:
  "\<exists>fs' s1. FileSystem_new (kernel_dev 0) (\<lambda>_. None) zero_memory False False created = Ok (fs', s1) \<and>
    sectors s1 = sectors created \<and> FileSystem_Open (kernel_dev 0) (\<lambda>_. None) zero_memory fs' 1 s1 = Err DanglingPointer"
proof -
  obtain R bs where R: "lone created" "fs_ok (sectors created) (fst formatted) two_names R"
    "fs_files (sectors created) (fst formatted) two_names R = [''hello'' \<mapsto> bs]"
    using created_ok by blast
  show ?thesis
    by (rule names_lost_at_restart[OF R(1,2)]) (simp_all add: R(3))
qed

end
