(* ===== verification/Interleaving.thy ===== *)
theory Interleaving
  imports System_Init
begin

text \<open>
  Threads that compete for a lock. The operations of src/threads/synch.cc run with interrupts
  off, so a thread is interrupted only between them and where it sleeps; cut at these points,
  they are the atomic steps below, each made of the code of \<open>P\<close>, \<open>V\<close>, \<open>Acquire\<close>, \<open>Release\<close>,
  \<open>Yield\<close> and the scheduler. A configuration is the kernel and, for each thread, how far it is
  with the lock.
\<close>

subsection \<open>Atomic steps\<close>

text \<open>One turn of \<open>P\<close> up to the next context switch: the value is taken (\<open>True\<close>), or the thread is put into
  the queue of the semaphore and blocked.\<close>

definition P_turn :: "nat \<Rightarrow> 'a kern_scheme \<Rightarrow> (bool \<times> 'a kern_scheme) result" where
  "P_turn a s =
     rbind (sem_get a s) (\<lambda>x.
     if sem_value x = 0
     then rbind (the_nonnull (sem_queue x)) (\<lambda>q.
          rbind (sem_upd a (\<lambda>x. x\<lparr>sem_queue := Some (kl_append (currentThread s) q)\<rparr>) s) (\<lambda>s.
          rbind (thread_upd (currentThread s) (\<lambda>th. th\<lparr>th_status := BLOCKED\<rparr>) s) (\<lambda>s. Ok (False, s))))
     else rbind (sem_upd a (\<lambda>x. x\<lparr>sem_value := sem_value x - 1\<rparr>) s) (\<lambda>s. Ok (True, s)))"

definition V_body :: "nat \<Rightarrow> 'a kern_scheme \<Rightarrow> 'a kern_scheme result" where
  "V_body a s =
     rbind (sem_get a s) (\<lambda>x.
     rbind (the_nonnull (sem_queue x)) (\<lambda>q.
     rbind (case kl_remove q of
              (None, q') \<Rightarrow> sem_upd a (\<lambda>x. x\<lparr>sem_queue := Some q'\<rparr>) s
            | (Some (_, thread), q') \<Rightarrow>
                rbind (sem_upd a (\<lambda>x. x\<lparr>sem_queue := Some q'\<rparr>) s) (\<lambda>s. ReadyToRun thread s)) (\<lambda>s.
     sem_upd a (\<lambda>x. x\<lparr>sem_value := sem_value x + 1\<rparr>) s)))"

text \<open>The processor goes to a thread from the ready list: one that was switched out goes on behind the call of
  \<open>SWITCH\<close>, a new one starts with its procedure.\<close>

definition switch_to :: "bool \<Rightarrow> nat \<Rightarrow> 'a kern_scheme \<Rightarrow> 'a kern_scheme result" where
  "switch_to started nextThread s =
     rbind (Run_before nextThread s) (\<lambda>s. if started then Run_after s else Ok s)"

text \<open>\<open>P\<close> and \<open>V\<close> are these steps with interrupts off.\<close>

lemma Semaphore_V_body:
  "Semaphore_V cb a s =
     rbind (SetLevel cb IntOff s) (\<lambda>(oldLevel, s).
     rbind (V_body a s) (\<lambda>s. rbind (SetLevel cb oldLevel s) (\<lambda>(_, s). Ok s)))"
  by (simp add: Semaphore_V_def V_body_def rbind_assoc case_prod_beta)

lemma P_loop_turn:
  assumes "level (intr s) = IntOff" "P_turn a s = Ok (taken, s')"
  shows "if taken then P_loop cb a s = Some (Ok s) \<and> sem_upd a (\<lambda>x. x\<lparr>sem_value := sem_value x - 1\<rparr>) s = Ok s'
    else P_loop cb a s =
      (case rbind (loop_result (sleep_loop cb s')) (\<lambda>(nextThread, s). Run nextThread s) of
         Err e \<Rightarrow> Some (Err e) | Ok s \<Rightarrow> P_loop cb a s)"
proof -
  obtain x where x: "sems s a = Some x" using assms(2) by (auto simp: P_turn_def sem_get_def result_simps)
  show ?thesis
  proof (cases "sem_value x = 0")
    case True
    then obtain q where q: "sem_queue x = Some q" "\<not> taken"
      using assms(2) x by (auto simp: P_turn_def sem_get_def result_simps)
    with True x assms show ?thesis
      by (subst P_loop.simps) (auto simp: P_turn_def sem_get_def sem_upd_def Sleep_def ASSERT_def result_simps)
  next
    case False
    with x assms(2) show ?thesis
      by (subst P_loop.simps) (auto simp: P_turn_def sem_get_def result_simps)
  qed
qed

subsection \<open>Configurations\<close>

text \<open>
  How far a thread is with the lock: \<open>Entering\<close> while it sleeps in \<open>P\<close> or has been woken up and must look
  at the value again; \<open>Acquired\<close> between \<open>P\<close> and the assignment of \<open>holdingThread\<close>; \<open>Inside\<close> the
  critical section; \<open>Leaving\<close> between the assignment of NULL and \<open>V\<close>.
\<close>

datatype phase = Outside | Entering | Acquired | Inside | Leaving

definition owns :: "phase \<Rightarrow> bool" where
  "owns p \<longleftrightarrow> p \<in> {Acquired, Inside, Leaving}"

text \<open>
  The last two steps are those of a thread that waits for something else or is new: it sleeps in any
  phase but \<open>Entering\<close>, and some later step puts it into the ready list.
\<close>

inductive lock_step :: "nat \<Rightarrow> nat \<Rightarrow> 'a kern_scheme \<times> (nat \<Rightarrow> phase) \<Rightarrow> 'a kern_scheme \<times> (nat \<Rightarrow> phase) \<Rightarrow> bool" for l a where
  take_value: "ph (currentThread s) \<in> {Outside, Entering} \<Longrightarrow> P_turn a s = Ok (True, s') \<Longrightarrow>
    lock_step l a (s, ph) (s', ph(currentThread s := Acquired))"
| wait: "ph (currentThread s) \<in> {Outside, Entering} \<Longrightarrow> P_turn a s = Ok (False, s1) \<Longrightarrow>
    FindNextToRun s1 = (Some t, s2) \<Longrightarrow> switch_to started t s2 = Ok s' \<Longrightarrow>
    lock_step l a (s, ph) (s', ph(currentThread s := Entering))"
| hold: "ph (currentThread s) = Acquired \<Longrightarrow>
    lock_upd l (\<lambda>lk. lk\<lparr>lk_holdingThread := Held (currentThread s)\<rparr>) s = Ok s' \<Longrightarrow>
    lock_step l a (s, ph) (s', ph(currentThread s := Inside))"
| leave: "ph (currentThread s) = Inside \<Longrightarrow> lock_upd l (\<lambda>lk. lk\<lparr>lk_holdingThread := NoThread\<rparr>) s = Ok s' \<Longrightarrow>
    lock_step l a (s, ph) (s', ph(currentThread s := Leaving))"
| signal: "ph (currentThread s) = Leaving \<Longrightarrow> V_body a s = Ok s' \<Longrightarrow>
    lock_step l a (s, ph) (s', ph(currentThread s := Outside))"
| yield: "ph (currentThread s) \<noteq> Entering \<Longrightarrow> FindNextToRun s = (Some t, s1) \<Longrightarrow> ReadyToRun (currentThread s) s1 = Ok s2 \<Longrightarrow>
    switch_to started t s2 = Ok s' \<Longrightarrow> lock_step l a (s, ph) (s', ph)"
| sleep: "ph (currentThread s) \<noteq> Entering \<Longrightarrow> thread_upd (currentThread s) (\<lambda>th. th\<lparr>th_status := BLOCKED\<rparr>) s = Ok s1 \<Longrightarrow>
    FindNextToRun s1 = (Some t, s2) \<Longrightarrow> switch_to started t s2 = Ok s' \<Longrightarrow> lock_step l a (s, ph) (s', ph)"
| wake: "u \<noteq> currentThread s \<Longrightarrow> u \<notin> snd ` set (readyList s) \<Longrightarrow> ph u \<noteq> Entering \<Longrightarrow> ReadyToRun u s = Ok s' \<Longrightarrow>
    lock_step l a (s, ph) (s', ph)"

abbreviation "lock_run l a \<equiv> (lock_step l a)\<^sup>*\<^sup>*"

text \<open>The lock as its constructor leaves it, with no thread using it yet; the running thread is not in the
  ready list, and no thread is twice in it.\<close>

definition lock_start :: "nat \<Rightarrow> nat \<Rightarrow> 'a kern_scheme \<Rightarrow> bool" where
  "lock_start l a s \<longleftrightarrow>
     (case locks s l of None \<Rightarrow> False | Some lk \<Rightarrow> lk_sema lk = a) \<and>
     (case sems s a of None \<Rightarrow> False | Some x \<Rightarrow> sem_value x = 1 \<and> sem_queue x = Some []) \<and>
     distinct (currentThread s # map snd (readyList s)) \<and> threadToBeDestroyed s = None"

lemma Lock_new_start:
  assumes "distinct (currentThread s # map snd (readyList s))" "threadToBeDestroyed s = None"
  shows "lock_start (fst (Lock_new nm s)) (Suc (fst (Lock_new nm s))) (snd (Lock_new nm s))"
  using assms by (simp add: Lock_new_def Semaphore_new_def lock_start_def Let_def)

subsection \<open>The invariant\<close>

text \<open>
  The threads that run or can run (\<open>rs\<close>, the running one first), those in the queue of the semaphore (\<open>qs\<close>),
  the value of the semaphore and the holder of the lock agree with the phases of the threads. The
  last line is what makes waking up one thread enough: while a thread sleeps and the value is not 0,
  some thread that was woken up is on its way to take it.
\<close>

definition lock_ok :: "nat list \<Rightarrow> nat list \<Rightarrow> int \<Rightarrow> holder \<Rightarrow> (nat \<Rightarrow> phase) \<Rightarrow> bool" where
  "lock_ok rs qs v h ph \<longleftrightarrow>
     distinct (rs @ qs) \<and>
     (\<forall>t\<in>set qs. ph t = Entering) \<and>
     (\<forall>t. ph t = Entering \<longrightarrow> t \<in> set rs \<union> set qs) \<and>
     (v = 1 \<and> (\<forall>t. \<not> owns (ph t)) \<or> v = 0 \<and> (\<exists>t. owns (ph t) \<and> (\<forall>u. owns (ph u) \<longrightarrow> u = t))) \<and>
     (\<forall>t. ph t = Inside \<longrightarrow> h = Held t) \<and>
     (qs \<noteq> [] \<and> v \<noteq> 0 \<longrightarrow> (\<exists>t\<in>set rs. ph t = Entering))"

definition lock_inv :: "nat \<Rightarrow> nat \<Rightarrow> 'a kern_scheme \<times> (nat \<Rightarrow> phase) \<Rightarrow> bool" where
  "lock_inv l a = (\<lambda>(s, ph). threadToBeDestroyed s = None \<and> (\<exists>lk x q.
     locks s l = Some lk \<and> sems s a = Some x \<and> sem_queue x = Some q \<and>
     lock_ok (currentThread s # map snd (readyList s)) (map snd q) (sem_value x) (lk_holdingThread lk) ph))"

lemma lock_start_inv: "lock_start l a s \<Longrightarrow> lock_inv l a (s, \<lambda>_. Outside)"
  by (auto simp: lock_start_def lock_inv_def lock_ok_def owns_def split: option.splits)

lemma owns_simps [simp]:
  "\<not> owns Outside" "\<not> owns Entering" "owns Acquired" "owns Inside" "owns Leaving"
  by (simp_all add: owns_def)

lemma lock_ok_perm:
  assumes "lock_ok rs qs v h ph" "mset rs' = mset rs"
  shows "lock_ok rs' qs v h ph"
proof -
  have "set rs' = set rs" "distinct rs' = distinct rs"
    using assms(2) by (rule mset_eq_setD, rule mset_eq_imp_distinct_iff)
  then show ?thesis using assms(1) unfolding lock_ok_def by simp
qed

lemma lock_ok_take:
  assumes "lock_ok (c # rs) qs v h ph" "v \<noteq> 0"
  shows "lock_ok (c # rs) qs (v - 1) h (ph(c := Acquired))"
  using assms unfolding lock_ok_def by auto

lemma lock_ok_owner:
  assumes "lock_ok rs qs v h ph" "owns (ph c)"
  shows "v = 0" "owns (ph t) \<Longrightarrow> t = c"
proof -
  obtain o' where o': "v = 0" "\<And>u. owns (ph u) \<Longrightarrow> u = o'" using assms unfolding lock_ok_def by blast
  show "v = 0" by (rule o'(1))
  show "t = c" if "owns (ph t)" using o'(2)[OF that] o'(2)[OF assms(2)] by simp
qed

text \<open>The invariant when thread \<open>c\<close> owns the lock.\<close>

lemma lock_ok_owned:
  assumes "owns (ph c)"
  shows "lock_ok rs qs v h ph \<longleftrightarrow>
    distinct (rs @ qs) \<and> (\<forall>t\<in>set qs. ph t = Entering) \<and> (\<forall>t. ph t = Entering \<longrightarrow> t \<in> set rs \<union> set qs) \<and>
    v = 0 \<and> (\<forall>t. t \<noteq> c \<longrightarrow> ph t = Outside \<or> ph t = Entering) \<and> (ph c = Inside \<longrightarrow> h = Held c)" (is "_ \<longleftrightarrow> ?r")
proof
  assume i: "lock_ok rs qs v h ph"
  have "ph t = Outside \<or> ph t = Entering" if "t \<noteq> c" for t
    using lock_ok_owner(2)[OF i assms, of t] that by (cases "ph t") simp_all
  then show ?r using i lock_ok_owner(1)[OF i assms] unfolding lock_ok_def by blast
next
  assume r: ?r
  then have u: "\<forall>u. owns (ph u) \<longrightarrow> u = c" by fastforce
  then have "ph t = Inside \<longrightarrow> h = Held t" for t using r owns_simps(4) by metis
  then show "lock_ok rs qs v h ph" using r u assms unfolding lock_ok_def by blast
qed

lemma lock_ok_wait:
  assumes i: "lock_ok (c # rs) qs 0 h ph" and c: "ph c \<in> {Outside, Entering}"
  shows "lock_ok rs (qs @ [c]) 0 h (ph(c := Entering))"
proof -
  obtain t where t: "owns (ph t)" using i unfolding lock_ok_def by auto
  then have "t \<noteq> c" using c by auto
  with t have "owns ((ph(c := Entering)) t)" by simp
  with iffD1[OF lock_ok_owned, OF t i] \<open>t \<noteq> c\<close> show ?thesis by (subst lock_ok_owned) auto
qed

lemma lock_ok_move:
  assumes i: "lock_ok (c # rs) qs v h ph" "owns (ph c)" and p: "owns p" "p = Inside \<Longrightarrow> h' = Held c"
  shows "lock_ok (c # rs) qs v h' (ph(c := p))"
proof -
  have "owns ((ph(c := p)) c)" "p \<noteq> Entering" using p(1) by auto
  then show ?thesis using iffD1[OF lock_ok_owned[where c = c], OF i(2,1)] p(2)
    unfolding lock_ok_owned[where ph = "ph(c := p)" and c = c, OF \<open>owns ((ph(c := p)) c)\<close>] by auto
qed

lemma lock_ok_release:
  assumes i: "lock_ok (c # rs) qs v h ph" "owns (ph c)" and rs': "mset rs' = mset (c # take 1 qs @ rs)"
  shows "lock_ok rs' (drop 1 qs) (v + 1) h (ph(c := Outside))"
proof -
  note owned = iffD1[OF lock_ok_owned[where c = c], OF i(2,1)]
  then have o: "(ph(c := Outside)) t = Outside \<or> (ph(c := Outside)) t = Entering" for t by (cases "t = c") simp_all
  then have "\<not> owns ((ph(c := Outside)) t)" "(ph(c := Outside)) t \<noteq> Inside" for t by (metis owns_simps(1,2), metis phase.distinct)
  moreover have "ph c \<noteq> Entering" using i(2) by auto
  ultimately have "lock_ok (c # take 1 qs @ rs) (drop 1 qs) (v + 1) h (ph(c := Outside))"
    using owned unfolding lock_ok_def by (cases qs) auto
  then show ?thesis by (rule lock_ok_perm) (rule rs')
qed

lemma lock_ok_drop: "lock_ok (c # rs) qs v h ph \<Longrightarrow> ph c \<noteq> Entering \<Longrightarrow> lock_ok rs qs v h ph"
  by (auto simp: lock_ok_def)

lemma lock_ok_add: "lock_ok rs qs v h ph \<Longrightarrow> u \<notin> set rs \<Longrightarrow> ph u \<noteq> Entering \<Longrightarrow> lock_ok (u # rs) qs v h ph"
  by (auto simp: lock_ok_def)

text \<open>What the steps leave alone: the part of the state the invariant speaks of.\<close>

definition sync_part where
  "sync_part s = (locks s, sems s, readyList s, threadToBeDestroyed s)"

lemma thread_upd_part: "thread_upd t f s = Ok s' \<Longrightarrow> sync_part s' = sync_part s \<and> currentThread s' = currentThread s"
  by (auto simp: thread_upd_def sync_part_def result_simps)

lemma mach_do_part: "mach_do f s = Ok s' \<Longrightarrow> sync_part s' = sync_part s \<and> currentThread s' = currentThread s"
  by (auto simp: mach_do_def sync_part_def result_simps)

lemma CheckOverflow_part: "CheckOverflow t s = Ok s' \<Longrightarrow> s' = s"
  by (auto simp: CheckOverflow_def ASSERT_def result_simps split: option.splits if_splits)

lemma ReadyToRun_part:
  "ReadyToRun t s = Ok s' \<Longrightarrow> currentThread s' = currentThread s \<and>
    (\<exists>k. sync_part s' = (locks s, sems s, kl_insert t k (readyList s), threadToBeDestroyed s))"
  by (auto simp: ReadyToRun_def sync_part_def result_simps dest!: thread_upd_part)

lemma Run_before_part: "Run_before t s = Ok s' \<Longrightarrow> sync_part s' = sync_part s \<and> currentThread s' = t"
  by (auto simp: Run_before_def SaveUserState_def AddrSpace_SaveState_def result_simps sync_part_def
      split: option.splits dest!: thread_upd_part[unfolded sync_part_def] CheckOverflow_part)

lemma Run_after_part:
  "Run_after s = Ok s' \<Longrightarrow> threadToBeDestroyed s = None \<Longrightarrow> sync_part s' = sync_part s \<and> currentThread s' = currentThread s"
  by (auto simp: Run_after_def RestoreUserState_def AddrSpace_RestoreState_def result_simps dest!: mach_do_part
      split: option.splits)

lemma switch_to_part:
  assumes "switch_to started t s = Ok s'" "threadToBeDestroyed s = None"
  shows "sync_part s' = sync_part s \<and> currentThread s' = t"
proof -
  obtain s1 where s1: "Run_before t s = Ok s1" "(if started then Run_after s1 else Ok s1) = Ok s'"
    using assms by (auto simp: switch_to_def result_simps split: if_splits)
  have "threadToBeDestroyed s1 = None" using Run_before_part[OF s1(1)] assms(2) by (simp add: sync_part_def)
  then show ?thesis using s1(2) Run_before_part[OF s1(1)] Run_after_part[of s1 s'] by (simp split: if_splits)
qed

lemma FindNextToRun_part:
  "FindNextToRun s = (Some t, s') \<Longrightarrow> map snd (readyList s) = t # map snd (readyList s') \<and> locks s' = locks s \<and>
    sems s' = sems s \<and> threadToBeDestroyed s' = threadToBeDestroyed s \<and> currentThread s' = currentThread s"
  by (cases "readyList s") (auto simp: FindNextToRun_def)

lemma sem_upd_part:
  "sem_upd a f s = Ok s' \<Longrightarrow> \<exists>x. sems s a = Some x \<and> sems s' = (sems s)(a \<mapsto> f x) \<and> locks s' = locks s \<and>
    readyList s' = readyList s \<and> threadToBeDestroyed s' = threadToBeDestroyed s \<and> currentThread s' = currentThread s"
  by (auto simp: sem_upd_def sem_get_def the_ptr_def result_simps split: option.splits)

lemma lock_upd_part:
  "lock_upd l f s = Ok s' \<Longrightarrow> \<exists>lk. locks s l = Some lk \<and> locks s' = (locks s)(l \<mapsto> f lk) \<and> sems s' = sems s \<and>
    readyList s' = readyList s \<and> threadToBeDestroyed s' = threadToBeDestroyed s \<and> currentThread s' = currentThread s"
  by (auto simp: lock_upd_def lock_get_def the_ptr_def result_simps split: option.splits)

lemma P_turn_True:
  "P_turn a s = Ok (True, s') \<Longrightarrow> \<exists>x. sems s a = Some x \<and> sem_value x \<noteq> 0 \<and>
    sync_part s' = (locks s, (sems s)(a \<mapsto> x\<lparr>sem_value := sem_value x - 1\<rparr>), readyList s, threadToBeDestroyed s) \<and>
    currentThread s' = currentThread s"
  by (auto simp: P_turn_def sem_get_def the_ptr_def result_simps sync_part_def dest!: sem_upd_part split: if_splits option.splits)

lemma P_turn_False:
  "P_turn a s = Ok (False, s') \<Longrightarrow> \<exists>x q. sems s a = Some x \<and> sem_value x = 0 \<and> sem_queue x = Some q \<and>
    sync_part s' = (locks s, (sems s)(a \<mapsto> x\<lparr>sem_queue := Some (kl_append (currentThread s) q)\<rparr>), readyList s, threadToBeDestroyed s) \<and>
    currentThread s' = currentThread s"
  by (auto simp: P_turn_def sem_get_def the_ptr_def the_nonnull_def result_simps sync_part_def
      dest!: sem_upd_part thread_upd_part[unfolded sync_part_def] split: if_splits option.splits)

lemma V_body_part:
  assumes "V_body a s = Ok s'"
  shows "\<exists>x q. sems s a = Some x \<and> sem_queue x = Some q \<and> locks s' = locks s \<and>
    sems s' a = Some (x\<lparr>sem_queue := Some (drop 1 q), sem_value := sem_value x + 1\<rparr>) \<and>
    mset (map snd (readyList s')) = mset (take 1 (map snd q) @ map snd (readyList s)) \<and>
    threadToBeDestroyed s' = threadToBeDestroyed s \<and> currentThread s' = currentThread s"
proof -
  obtain x q where x: "sems s a = Some x" "sem_queue x = Some q"
    using assms by (auto simp: V_body_def sem_get_def the_ptr_def the_nonnull_def result_simps split: option.splits)
  show ?thesis
  proof (cases q)
    case Nil
    then show ?thesis using assms x by (auto simp: V_body_def sem_get_def the_ptr_def the_nonnull_def result_simps dest!: sem_upd_part)
  next
    case (Cons e q')
    obtain k t where e: "e = (k, t)" by (cases e)
    obtain s1 s2 where s12: "sem_upd a (\<lambda>x. x\<lparr>sem_queue := Some q'\<rparr>) s = Ok s1" "ReadyToRun t s1 = Ok s2"
      "sem_upd a (\<lambda>x. x\<lparr>sem_value := sem_value x + 1\<rparr>) s2 = Ok s'"
      using assms x Cons e by (auto simp: V_body_def sem_get_def the_ptr_def the_nonnull_def result_simps)
    show ?thesis
      using sem_upd_part[OF s12(1)] ReadyToRun_part[OF s12(2)] sem_upd_part[OF s12(3)] x Cons e
      by (auto simp: sync_part_def mset_kl_insert)
  qed
qed

lemma switch_inv:
  assumes "switch_to started t s = Ok s'" "threadToBeDestroyed s = None" "locks s l = Some lk" "sems s a = Some x"
    "sem_queue x = Some q" "lock_ok (t # map snd (readyList s)) (map snd q) (sem_value x) (lk_holdingThread lk) ph"
  shows "lock_inv l a (s', ph)"
  using switch_to_part[OF assms(1,2)] assms(2-) by (simp add: lock_inv_def sync_part_def)

lemma lock_step_inv: "lock_step l a c c' \<Longrightarrow> lock_inv l a c \<Longrightarrow> lock_inv l a c'"
proof (induction rule: lock_step.induct)
  case (take_value ph s s')
  then show ?case by (auto simp: lock_inv_def sync_part_def dest!: P_turn_True intro: lock_ok_take)
next
  case (hold ph s s')
  then show ?case by (auto simp: lock_inv_def dest!: lock_upd_part intro!: lock_ok_move)
next
  case (leave ph s s')
  then show ?case by (auto simp: lock_inv_def dest!: lock_upd_part intro!: lock_ok_move)
next
  case (signal ph s s')
  then show ?case
    by (auto simp: lock_inv_def drop_map[symmetric] simp del: drop_map dest!: V_body_part intro!: lock_ok_release[unfolded One_nat_def])
next
  case (wake u s ph s')
  then obtain k lk x q where "sync_part s' = (locks s, sems s, kl_insert u k (readyList s), threadToBeDestroyed s)"
    "currentThread s' = currentThread s" "threadToBeDestroyed s = None" "locks s l = Some lk" "sems s a = Some x"
    "sem_queue x = Some q"
    "lock_ok (currentThread s # map snd (readyList s)) (map snd q) (sem_value x) (lk_holdingThread lk) ph"
    by (auto simp: lock_inv_def dest!: ReadyToRun_part)
  moreover from this(7) have "lock_ok (u # currentThread s # map snd (readyList s)) (map snd q) (sem_value x) (lk_holdingThread lk) ph"
    using wake(1-3) by (intro lock_ok_add[of "_ # _"]) auto
  ultimately show ?case by (auto simp: lock_inv_def sync_part_def mset_kl_insert intro: lock_ok_perm)
next
  case (wait ph s s1 t s2 started s')
  obtain lk x q where x: "threadToBeDestroyed s = None" "locks s l = Some lk" "sems s a = Some x" "sem_queue x = Some q"
    "lock_ok (currentThread s # map snd (readyList s)) (map snd q) (sem_value x) (lk_holdingThread lk) ph"
    using wait(5) by (auto simp: lock_inv_def)
  have p: "sem_value x = 0" "sync_part s1 = (locks s, (sems s)(a \<mapsto> x\<lparr>sem_queue := Some (kl_append (currentThread s) q)\<rparr>), readyList s, None)"
    using P_turn_False[OF wait(2)] x by auto
  then have "lock_ok (map snd (readyList s)) (map snd q @ [currentThread s]) 0 (lk_holdingThread lk) (ph(currentThread s := Entering))"
    using x wait(1) by (intro lock_ok_wait) auto
  then show ?case using p x FindNextToRun_part[OF wait(3)]
    by (intro switch_inv[OF wait(4), where x = "x\<lparr>sem_queue := Some (kl_append (currentThread s) q)\<rparr>"])
      (auto simp: sync_part_def kl_append_def)
next
  case (yield ph s t s1 s2 started s')
  then obtain k lk x q where x: "threadToBeDestroyed s = None" "locks s l = Some lk" "sems s a = Some x" "sem_queue x = Some q"
    "lock_ok (currentThread s # map snd (readyList s)) (map snd q) (sem_value x) (lk_holdingThread lk) ph"
    "sync_part s2 = (locks s, sems s, kl_insert (currentThread s) k (readyList s1), None)"
    by (auto simp: lock_inv_def dest!: ReadyToRun_part FindNextToRun_part)
  then have "lock_ok (t # map snd (readyList s2)) (map snd q) (sem_value x) (lk_holdingThread lk) ph"
    using FindNextToRun_part[OF yield(2)] by (elim lock_ok_perm) (simp add: sync_part_def mset_kl_insert)
  with x show ?case by (intro switch_inv[OF yield(4)]) (auto simp: sync_part_def)
next
  case (sleep ph s s1 t s2 started s')
  then obtain lk x q where x: "threadToBeDestroyed s = None" "locks s l = Some lk" "sems s a = Some x" "sem_queue x = Some q"
    "lock_ok (currentThread s # map snd (readyList s)) (map snd q) (sem_value x) (lk_holdingThread lk) ph"
    by (auto simp: lock_inv_def)
  then have "lock_ok (map snd (readyList s)) (map snd q) (sem_value x) (lk_holdingThread lk) ph"
    using sleep(1) by (elim lock_ok_drop)
  with x show ?case using thread_upd_part[OF sleep(2)] FindNextToRun_part[OF sleep(3)]
    by (intro switch_inv[OF sleep(4)]) (auto simp: sync_part_def)
qed

lemma lock_run_inv: "lock_run l a c c' \<Longrightarrow> lock_inv l a c \<Longrightarrow> lock_inv l a c'"
  by (induction rule: rtranclp_induct) (auto intro: lock_step_inv)

subsection \<open>Executing steps\<close>

text \<open>A choice of the next step, and the step relation as a function of it.\<close>

datatype choice = Take | Wait | Hold | Leave | Signal | YieldTo

fun lock_do :: "nat \<Rightarrow> nat \<Rightarrow> choice \<Rightarrow> 'a kern_scheme \<times> (nat \<Rightarrow> phase) \<Rightarrow> ('a kern_scheme \<times> (nat \<Rightarrow> phase)) option" where
  "lock_do l a Take (s, ph) =
     (if ph (currentThread s) \<in> {Outside, Entering}
      then case P_turn a s of Ok (True, s') \<Rightarrow> Some (s', ph(currentThread s := Acquired)) | _ \<Rightarrow> None else None)"
| "lock_do l a Wait (s, ph) =
     (if ph (currentThread s) \<in> {Outside, Entering}
      then case P_turn a s of
             Ok (False, s1) \<Rightarrow>
               (case FindNextToRun s1 of
                  (Some t, s2) \<Rightarrow> (case switch_to True t s2 of Ok s' \<Rightarrow> Some (s', ph(currentThread s := Entering)) | _ \<Rightarrow> None)
                | _ \<Rightarrow> None)
           | _ \<Rightarrow> None
      else None)"
| "lock_do l a Hold (s, ph) =
     (if ph (currentThread s) = Acquired
      then case lock_upd l (\<lambda>lk. lk\<lparr>lk_holdingThread := Held (currentThread s)\<rparr>) s of
             Ok s' \<Rightarrow> Some (s', ph(currentThread s := Inside)) | _ \<Rightarrow> None
      else None)"
| "lock_do l a Leave (s, ph) =
     (if ph (currentThread s) = Inside
      then case lock_upd l (\<lambda>lk. lk\<lparr>lk_holdingThread := NoThread\<rparr>) s of
             Ok s' \<Rightarrow> Some (s', ph(currentThread s := Leaving)) | _ \<Rightarrow> None
      else None)"
| "lock_do l a Signal (s, ph) =
     (if ph (currentThread s) = Leaving
      then case V_body a s of Ok s' \<Rightarrow> Some (s', ph(currentThread s := Outside)) | _ \<Rightarrow> None else None)"
| "lock_do l a YieldTo (s, ph) =
     (if ph (currentThread s) \<noteq> Entering
      then case FindNextToRun s of
             (Some t, s1) \<Rightarrow>
               (case ReadyToRun (currentThread s) s1 of
                  Ok s2 \<Rightarrow> (case switch_to True t s2 of Ok s' \<Rightarrow> Some (s', ph) | _ \<Rightarrow> None) | _ \<Rightarrow> None)
           | _ \<Rightarrow> None
      else None)"

lemma lock_do_step: "lock_do l a w c = Some c' \<Longrightarrow> lock_step l a c c'"
  by (induction l a w c rule: lock_do.induct)
    (auto split: if_splits result.splits prod.splits bool.splits option.splits intro: lock_step.intros)

fun lock_sched :: "nat \<Rightarrow> nat \<Rightarrow> choice list \<Rightarrow> 'a kern_scheme \<times> (nat \<Rightarrow> phase) \<Rightarrow> ('a kern_scheme \<times> (nat \<Rightarrow> phase)) option" where
  "lock_sched l a [] c = Some c"
| "lock_sched l a (w # ws) c = (case lock_do l a w c of None \<Rightarrow> None | Some c' \<Rightarrow> lock_sched l a ws c')"

lemma lock_sched_run: "lock_sched l a ws c = Some c' \<Longrightarrow> lock_run l a c c'"
  by (induction ws arbitrary: c) (auto split: option.splits intro: converse_rtranclp_into_rtranclp lock_do_step)

text \<open>Three threads: the first runs, the others are ready, and a new lock has the addresses 3 and 4.\<close>

definition plain_thread :: Thread where
  "plain_thread = \<lparr>th_start = None, th_uid = 0, th_tid = 0, th_priority = 0, th_stack = Some STACK_FENCEPOST,
     th_status = READY, th_name = ''t'', th_userRegisters = [], th_space = None\<rparr>"

definition three_threads :: kern where
  "three_threads = snd (Lock_new ''l'' (zeroed\<lparr>threads := (\<lambda>t. if t < 3 then Some plain_thread else None),
     next_addr := 3, currentThread := 0, readyList := [(0, 1), (0, 2)], threadToBeDestroyed := None\<rparr>))"

lemma three_threads_start: "lock_start 3 4 three_threads"
  using Lock_new_start[of "zeroed\<lparr>threads := (\<lambda>t. if t < 3 then Some plain_thread else None), next_addr := 3,
      currentThread := 0, readyList := [(0, 1), (0, 2)], threadToBeDestroyed := None\<rparr>" "''l''"]
  by (simp add: three_threads_def Lock_new_def Semaphore_new_def)

text \<open>The first thread takes the lock, both others come and sleep, and it leaves again.\<close>

lemma three_threads_sched:
  "map_option (\<lambda>(s, ph). (map ph [0, 1, 2], currentThread s, map snd (readyList s), sems s 4))
     (lock_sched 3 4 [Take, Hold, YieldTo, Wait, Wait, Leave, Signal] (three_threads, \<lambda>_. Outside)) =
   Some ([Outside, Entering, Entering], 0, [1],
     Some \<lparr>sem_name = Some ''l'', sem_value = 1, sem_queue = Some [(0, 2)]\<rparr>)"
  by code_simp

subsection \<open>Properties\<close>

text \<open>C4. Mutual exclusion: however the threads that use a new lock are scheduled, at most one of them is
  between \<open>Acquire\<close> and \<open>Release\<close>, and the lock names it as its holder.\<close>

theorem lock_mutual_exclusion:
  assumes "lock_start l a s" "lock_run l a (s, \<lambda>_. Outside) (s', ph)" "ph t = Inside"
  shows "(ph u = Inside \<longrightarrow> u = t) \<and> (\<exists>lk. locks s' l = Some lk \<and> lk_holdingThread lk = Held t)"
proof -
  have "lock_inv l a (s', ph)" using lock_run_inv[OF assms(2) lock_start_inv[OF assms(1)]] .
  then obtain rs qs v lk where i: "lock_ok rs qs v (lk_holdingThread lk) ph" "locks s' l = Some lk"
    by (auto simp: lock_inv_def)
  have "owns (ph t)" using assms(3) by simp
  from lock_ok_owner(2)[OF i(1) this, of u] show ?thesis using i assms(3) by (auto simp: lock_ok_def)
qed

theorem lock_mutual_exclusion_witness:
  "\<exists>s ph. lock_run 3 4 (three_threads, \<lambda>_. Outside) (s, ph) \<and> ph 0 = Inside \<and> ph 1 = Entering \<and> ph 2 = Entering \<and>
    (\<exists>lk. locks s 3 = Some lk \<and> lk_holdingThread lk = Held 0)"
proof -
  have "map_option (\<lambda>(s, ph). map ph [0, 1, 2]) (lock_sched 3 4 [Take, Hold, YieldTo, Wait, Wait] (three_threads, \<lambda>_. Outside)) =
      Some [Inside, Entering, Entering]" by code_simp
  then obtain s ph where r: "lock_sched 3 4 [Take, Hold, YieldTo, Wait, Wait] (three_threads, \<lambda>_. Outside) = Some (s, ph)"
    "ph 0 = Inside" "ph 1 = Entering" "ph 2 = Entering" by (auto simp del: lock_sched.simps)
  from lock_mutual_exclusion[OF three_threads_start lock_sched_run[OF r(1)] r(2), of 0] lock_sched_run[OF r(1)] r
  show ?thesis by blast
qed

text \<open>C5. No wake-up is lost: whenever threads sleep on a new lock that no thread has, a thread that was woken up
  is running or in the ready list and has still to look at the value; once it runs, nothing keeps it
  from taking the lock.\<close>

theorem lock_no_lost_wakeup:
  assumes "lock_start l a s" "lock_run l a (s, \<lambda>_. Outside) (s', ph)"
    and "sems s' a = Some x" "sem_queue x \<noteq> Some []" "\<forall>t. \<not> owns (ph t)"
  shows "(\<exists>t\<in>set (currentThread s' # map snd (readyList s')). ph t = Entering) \<and>
    (ph (currentThread s') = Entering \<longrightarrow> (\<exists>s''. lock_step l a (s', ph) (s'', ph(currentThread s' := Acquired))))"
proof -
  have "lock_inv l a (s', ph)" using lock_run_inv[OF assms(2) lock_start_inv[OF assms(1)]] .
  then obtain q h where "sem_queue x = Some q"
    "lock_ok (currentThread s' # map snd (readyList s')) (map snd q) (sem_value x) h ph"
    using assms(3) by (auto simp: lock_inv_def)
  then have "sem_value x = 1" and e: "\<exists>t\<in>set (currentThread s' # map snd (readyList s')). ph t = Entering"
    using assms(4,5) by (auto simp: lock_ok_def)
  then have "\<exists>s''. P_turn a s' = Ok (True, s'')" using assms(3) by (simp add: P_turn_def sem_get_def sem_upd_def)
  then show ?thesis using e by (blast intro: lock_step.take_value)
qed

theorem lock_no_lost_wakeup_witness:
  "\<exists>s ph. lock_run 3 4 (three_threads, \<lambda>_. Outside) (s, ph) \<and> map_option sem_queue (sems s 4) = Some (Some [(0, 2)]) \<and>
    (\<exists>t\<in>set (currentThread s # map snd (readyList s)). ph t = Entering)"
proof -
  let ?ws = "[Take, Hold, YieldTo, Wait, Wait, Leave, Signal]"
  obtain s ph x where r: "lock_sched 3 4 ?ws (three_threads, \<lambda>_. Outside) = Some (s, ph)"
    "sems s 4 = Some x" "sem_queue x = Some [(0, 2)]" "sem_value x = 1"
    using three_threads_sched by (auto simp del: lock_sched.simps)
  have "lock_inv 3 4 (s, ph)" using lock_run_inv[OF lock_sched_run[OF r(1)] lock_start_inv[OF three_threads_start]] .
  then have "\<forall>t. \<not> owns (ph t)" using r(2,4) by (auto simp: lock_inv_def lock_ok_def)
  from lock_no_lost_wakeup[OF three_threads_start lock_sched_run[OF r(1)] r(2) _ this] r lock_sched_run[OF r(1)]
  show ?thesis by (intro exI[of _ s] exI[of _ ph]) simp
qed

end
