(* ===== verification/Address_Space.thy ===== *)
theory Address_Space
  imports Kernel_Files
begin

text \<open>
  User address spaces: src/userprog/addrspace.cc and the object file format of src/bin/noff.h. The
  constructor copies the code and the initialised data of an executable to the virtual disk of
  the address space, a byte at a time; pages reach main memory later, on page faults. The uninitialised
  header, array and members of the C++ objects are parameters.
\<close>

subsection \<open>Object files\<close>

definition NOFFMAGIC :: u32 where "NOFFMAGIC = 0xbadfad"

record Segment =
  virtualAddr :: u32
  inFileAddr :: u32
  segSize :: u32

record NoffHeader =
  noffMagic :: u32
  codeSeg :: Segment
  initData :: Segment
  uninitData :: Segment

text \<open>The header as its bytes in the file.\<close>

definition segment_at :: "nat \<Rightarrow> byte list \<Rightarrow> Segment" where
  "segment_at k bs = \<lparr>virtualAddr = u32_of_le (take 4 (drop k bs)), inFileAddr = u32_of_le (take 4 (drop (k + 4) bs)),
     segSize = u32_of_le (take 4 (drop (k + 8) bs))\<rparr>"

definition noff_of_bytes :: "byte list \<Rightarrow> NoffHeader" where
  "noff_of_bytes bs = \<lparr>noffMagic = u32_of_le (take 4 bs), codeSeg = segment_at 4 bs, initData = segment_at 16 bs,
     uninitData = segment_at 28 bs\<rparr>"

definition swap_segment :: "Segment \<Rightarrow> Segment" where
  "swap_segment g = \<lparr>virtualAddr = WordToHost (virtualAddr g), inFileAddr = WordToHost (inFileAddr g),
     segSize = WordToHost (segSize g)\<rparr>"

definition SwapHeader :: "NoffHeader \<Rightarrow> NoffHeader" where
  "SwapHeader h = \<lparr>noffMagic = WordToHost (noffMagic h), codeSeg = swap_segment (codeSeg h),
     initData = swap_segment (initData h), uninitData = swap_segment (uninitData h)\<rparr>"

subsection \<open>Loading\<close>

definition UserStackSize :: int where "UserStackSize = 1024"

text \<open>The loop over a segment: byte \<open>i\<close> of it goes to the same place in the array as in the address space.\<close>

fun load_segment :: "'s sector_dev \<Rightarrow> OpenFile \<Rightarrow> int \<Rightarrow> int list \<Rightarrow> int \<Rightarrow> byte list \<Rightarrow> 's \<Rightarrow> (byte list \<times> 's) result" where
  "load_segment dev executable va [] pos disk s = Ok (disk, s)"
| "load_segment dev executable va (i # is) pos disk s =
     rbind (c_add va i) (\<lambda>a.
     let vpn = a sdiv PageSize;
         offset = a smod PageSize;
         physicalAddress = vpn * PageSize + offset
     in rbind (OpenFile_ReadAt dev executable 1 pos s) (\<lambda>(_, data, s).
        rbind (mem_write data physicalAddress disk) (\<lambda>disk.
        rbind (c_add pos 1) (\<lambda>pos.
        load_segment dev executable va is pos disk s))))"

definition load_if :: "'s sector_dev \<Rightarrow> OpenFile \<Rightarrow> Segment \<Rightarrow> byte list \<Rightarrow> 's \<Rightarrow> (byte list \<times> 's) result" where
  "load_if dev executable g disk s =
     (if sint (segSize g) > 0
      then load_segment dev executable (sint (virtualAddr g)) [0..sint (segSize g) - 1] (sint (inFileAddr g)) disk s
      else Ok (disk, s))"

definition space_pages :: "NoffHeader \<Rightarrow> u32 result" where
  "space_pages noffH =
     rbind (c_add (sint (segSize (codeSeg noffH))) (sint (segSize (initData noffH)))) (\<lambda>n.
     rbind (c_add n (sint (segSize (uninitData noffH)))) (\<lambda>n.
     rbind (c_add n UserStackSize) (\<lambda>n.
     let size = word_of_int n :: u32 in
     Ok (size div word_of_int PageSize + (if size mod word_of_int PageSize > 0 then 1 else 0)))))"

definition load_program :: "'s sector_dev \<Rightarrow> byte list \<Rightarrow> (nat \<Rightarrow> byte) \<Rightarrow> OpenFile \<Rightarrow> 's \<Rightarrow> (u32 \<times> byte list \<times> 's) result" where
  "load_program dev hdr_junk junk executable s =
     rbind (OpenFile_ReadAt dev executable 40 0 s) (\<lambda>(_, data, s).
     let noffH = noff_of_bytes (overwrite 0 data hdr_junk);
         noffH = (if noffMagic noffH \<noteq> NOFFMAGIC \<and> WordToHost (noffMagic noffH) = NOFFMAGIC
                  then SwapHeader noffH else noffH)
     in ASSERT (noffMagic noffH = NOFFMAGIC)
          (rbind (space_pages noffH) (\<lambda>numPages.
           let size = numPages * word_of_int PageSize;
               disk = map junk [0..<unat size]
           in rbind (load_if dev executable (codeSeg noffH) disk s) (\<lambda>(disk, s).
              rbind (load_if dev executable (initData noffH) disk s) (\<lambda>(disk, s).
              Ok (numPages, disk, s))))))"

definition AddrSpace_new :: "'a kern_scheme sector_dev \<Rightarrow> byte list \<Rightarrow> (nat \<Rightarrow> byte) \<Rightarrow> OpenFile \<Rightarrow> 'a kern_scheme \<Rightarrow>
    (nat \<times> 'a kern_scheme) result" where
  "AddrSpace_new dev hdr_junk junk executable s =
     rbind (load_program dev hdr_junk junk executable s) (\<lambda>(numPages, disk, s).
     let this = next_addr s; d = Suc this
     in Ok (this, s\<lparr>vdisks := (vdisks s)(d \<mapsto> disk),
                    spaces := (spaces s)(this \<mapsto> \<lparr>as_disk = Some d, as_pageTable = WildTable, as_numPages = numPages\<rparr>),
                    next_addr := Suc d\<rparr>))"

text \<open>The default constructor sets the page table only.\<close>

definition AddrSpace_default :: "AddrSpace \<Rightarrow> 'a kern_scheme \<Rightarrow> nat \<times> 'a kern_scheme" where
  "AddrSpace_default junk s =
     (let this = next_addr s
      in (this, s\<lparr>spaces := (spaces s)(this \<mapsto> junk\<lparr>as_pageTable := NullTable\<rparr>), next_addr := Suc this\<rparr>))"

text \<open>The destructor frees the page table, which the constructor for an executable never set, and the virtual disk.\<close>

definition AddrSpace_delete :: "nat \<Rightarrow> 'a kern_scheme \<Rightarrow> 'a kern_scheme result" where
  "AddrSpace_delete this s =
     rbind (the_ptr (spaces s this)) (\<lambda>space.
     rbind (if as_pageTable space = WildTable then Err Uninitialised else Ok ()) (\<lambda>_.
     rbind (case as_disk space of
              None \<Rightarrow> Ok s
            | Some d \<Rightarrow> rbind (the_ptr (vdisks s d)) (\<lambda>_. Ok (s\<lparr>vdisks := (vdisks s)(d := None)\<rparr>))) (\<lambda>s.
     Ok (s\<lparr>spaces := (spaces s)(this := None)\<rparr>))))"

definition AddrSpaceCopy :: "nat \<Rightarrow> nat \<Rightarrow> 'a kern_scheme \<Rightarrow> 'a kern_scheme result" where
  "AddrSpaceCopy this src s =
     rbind (the_ptr (spaces s this)) (\<lambda>space.
     rbind (the_ptr (spaces s src)) (\<lambda>from.
     Ok (s\<lparr>spaces := (spaces s)(this \<mapsto> space\<lparr>as_disk := as_disk from, as_numPages := as_numPages from\<rparr>)\<rparr>)))"

fun clear_regs :: "int list \<Rightarrow> Machine \<Rightarrow> Machine result" where
  "clear_regs [] m = Ok m"
| "clear_regs (i # is) m = rbind (WriteRegister i 0 m) (\<lambda>m. clear_regs is m)"

definition InitRegisters :: "u32 \<Rightarrow> Machine \<Rightarrow> Machine result" where
  "InitRegisters numPages m =
     rbind (clear_regs (map int [0..<NumTotalRegs]) m) (\<lambda>m.
     rbind (WriteRegister PCReg 0 m) (\<lambda>m.
     rbind (WriteRegister NextPCReg 4 m) (\<lambda>m.
     WriteRegister StackReg (numPages * word_of_int PageSize - 16) m)))"

subsection \<open>What loading does\<close>

lemma overwrite_Nil [simp]: "overwrite k [] xs = xs"
  by (simp add: overwrite_def)

lemma overwrite_step: "k < length xs \<Longrightarrow> overwrite (Suc k) ys (overwrite k [y] xs) = overwrite k (y # ys) xs"
  by (simp add: overwrite_def add.commute)

text \<open>A segment lies inside the address space and inside the file, and its bytes are copied to its place.\<close>

definition segment_in :: "Segment \<Rightarrow> nat \<Rightarrow> nat \<Rightarrow> bool" where
  "segment_in g space_len file_len \<longleftrightarrow> 0 < sint (segSize g) \<longrightarrow>
     0 \<le> sint (virtualAddr g) \<and> sint (virtualAddr g) + sint (segSize g) \<le> int space_len \<and>
     0 \<le> sint (inFileAddr g) \<and> sint (inFileAddr g) + sint (segSize g) \<le> int file_len"

definition segment_bytes :: "Segment \<Rightarrow> byte list \<Rightarrow> byte list" where
  "segment_bytes g bs = take (nat (sint (segSize g))) (drop (nat (sint (inFileAddr g))) bs)"

definition place :: "Segment \<Rightarrow> byte list \<Rightarrow> byte list \<Rightarrow> byte list" where
  "place g bs disk = (if 0 < sint (segSize g) then overwrite (nat (sint (virtualAddr g))) (segment_bytes g bs) disk else disk)"

text \<open>A program that fits: a complete header with the magic number, of an address space of \<open>np\<close> pages.\<close>

definition program_ok :: "byte list \<Rightarrow> u32 \<Rightarrow> bool" where
  "program_ok bs np \<longleftrightarrow>
     (let h = noff_of_bytes (take 40 bs); len = unat (np * 128)
      in 40 \<le> length bs \<and> noffMagic h = NOFFMAGIC \<and> space_pages h = Ok np \<and> int len \<le> INT_MAX \<and>
         segment_in (codeSeg h) len (length bs) \<and> segment_in (initData h) len (length bs))"

definition prog_image :: "byte list \<Rightarrow> byte list \<Rightarrow> byte list" where
  "prog_image bs disk = (let h = noff_of_bytes (take 40 bs) in place (initData h) bs (place (codeSeg h) bs disk))"

lemma length_place [simp]: "segment_in g (length disk) (length bs) \<Longrightarrow> length (place g bs disk) = length disk"
  by (auto simp: segment_in_def place_def segment_bytes_def)

lemma lone_vdisks: "lone s \<Longrightarrow> lone (s\<lparr>vdisks := v, spaces := (spaces s)(sp \<mapsto> x), next_addr := a\<rparr>)"
  by (auto simp: lone_def quiet_def disk_free_def thread_ready_def cong: option.case_cong split: option.splits)

lemma sectors_vdisks: "sectors (s\<lparr>vdisks := v, spaces := sp, next_addr := a\<rparr>) = sectors s"
  by (intro ext) (simp add: sectors_def)

text \<open>Where a byte of the image comes from.\<close>

definition in_segment :: "Segment \<Rightarrow> nat \<Rightarrow> bool" where
  "in_segment g k \<longleftrightarrow> sint (virtualAddr g) \<le> int k \<and> int k < sint (virtualAddr g) + sint (segSize g)"

lemma nth_place:
  assumes "segment_in g (length disk) (length bs)" "k < length disk"
  shows "place g bs disk ! k =
    (if in_segment g k then bs ! (nat (sint (inFileAddr g)) + (k - nat (sint (virtualAddr g)))) else disk ! k)"
  using assms by (auto simp: segment_in_def place_def segment_bytes_def in_segment_def nth_overwrite)

lemma nth_prog_image:
  assumes "program_ok bs np" "length disk = unat (np * 128)" "k < length disk"
  defines "h \<equiv> noff_of_bytes (take 40 bs)"
  shows "prog_image bs disk ! k =
    (if in_segment (initData h) k then bs ! (nat (sint (inFileAddr (initData h))) + (k - nat (sint (virtualAddr (initData h)))))
     else if in_segment (codeSeg h) k then bs ! (nat (sint (inFileAddr (codeSeg h))) + (k - nat (sint (virtualAddr (codeSeg h)))))
     else disk ! k)"
  using assms(1-3) unfolding h_def by (simp add: program_ok_def Let_def prog_image_def nth_place)

context block_store
begin

lemma load_segment_spec:
  assumes "ready s" "file_ok (sec s) (of_hdr f) hs ds" "va + i + n \<le> length disk" "int (length disk) \<le> INT_MAX"
    "pos + n \<le> length (file_bytes (sec s) (of_hdr f) ds)"
  shows "\<exists>s'. load_segment dev f (int va) (map int [i..<i + n]) (int pos) disk s =
      Ok (overwrite (va + i) (take n (drop pos (file_bytes (sec s) (of_hdr f) ds))) disk, s') \<and> ready s' \<and> sec s' = sec s"
  using assms
proof (induction n arbitrary: i pos disk s)
  case 0
  then show ?case by simp
next
  case (Suc n)
  let ?B = "file_bytes (sec s) (of_hdr f) ds"
  have p: "pos < length ?B" and "int (length ?B) \<le> INT_MAX"
    using Suc.prems length_file_bytes[OF Suc.prems(1,2)] FileLength_bound[of "of_hdr f"] by (auto simp: INT_MAX_def)
  then have r: "take 1 (drop pos ?B) = [?B ! pos]" and p1: "int pos + 1 \<le> INT_MAX"
    by (auto simp: Cons_nth_drop_Suc[symmetric])
  have "min (length ?B - pos) (Suc 0) = Suc 0" using p by simp
  then obtain s1 where s1: "OpenFile_ReadAt dev f 1 (int pos) s = Ok (1, [?B ! pos], s1)" "ready s1" "sec s1 = sec s"
    using ReadAt_spec[OF Suc.prems(1,2), of "int pos" 1] r p1 by auto
  let ?disk = "overwrite (va + i) [?B ! pos] disk"
  obtain s' where s': "load_segment dev f (int va) (map int [Suc i..<Suc i + n]) (int (Suc pos)) ?disk s1 =
      Ok (overwrite (va + Suc i) (take n (drop (Suc pos) ?B)) ?disk, s')" "ready s'" "sec s' = sec s"
    using Suc.IH[of s1 "Suc i" ?disk "Suc pos"] s1 Suc.prems by auto
  have "int va + int i \<le> INT_MAX" using Suc.prems by simp
  moreover have "mem_write [?B ! pos] (int va + int i) disk = Ok ?disk"
    using mem_write_nat[of "va + i" "[?B ! pos]" disk] Suc.prems by simp
  moreover have "map int [i..<i + Suc n] = int i # map int [Suc i..<Suc i + n]" by (simp add: upt_conv_Cons)
  ultimately show ?case
    using s' s1 p p1 Suc.prems(3)
    by (simp add: c_add_def INT_MAX_def sdiv_nonneg smod_nonneg PageSize_def overwrite_step Cons_nth_drop_Suc[symmetric] add.commute[of 1])
qed

lemma load_if_spec:
  assumes "ready s" "file_ok (sec s) (of_hdr f) hs ds" "segment_in g (length disk) (length (file_bytes (sec s) (of_hdr f) ds))"
    "int (length disk) \<le> INT_MAX"
  shows "\<exists>s'. load_if dev f g disk s = Ok (place g (file_bytes (sec s) (of_hdr f) ds) disk, s') \<and> ready s' \<and> sec s' = sec s"
proof (cases "sint (segSize g) > 0")
  case False
  then show ?thesis using assms(1) by (simp add: load_if_def place_def)
next
  case True
  then have eq: "int (nat (sint (virtualAddr g))) = sint (virtualAddr g)" "int (nat (sint (inFileAddr g))) = sint (inFileAddr g)"
    "[0..sint (segSize g) - 1] = map int [0..<0 + nat (sint (segSize g))]"
    using assms(3) upto_range[of 0 "nat (sint (segSize g))"] by (auto simp: segment_in_def)
  show ?thesis
    using load_segment_spec[OF assms(1,2) _ assms(4), of "nat (sint (virtualAddr g))" 0 "nat (sint (segSize g))" "nat (sint (inFileAddr g))"]
      assms(3) True unfolding load_if_def place_def segment_bytes_def eq segment_in_def by (auto simp: nat_add_distrib[symmetric])
qed

lemma load_program_spec:
  assumes s: "ready s" "file_ok (sec s) (of_hdr f) hs ds" and j: "length hdr_junk = 40"
    and p: "program_ok (file_bytes (sec s) (of_hdr f) ds) np"
  shows "\<exists>s'. load_program dev hdr_junk junk f s =
      Ok (np, prog_image (file_bytes (sec s) (of_hdr f) ds) (map junk [0..<unat (np * 128)]), s') \<and> ready s' \<and> sec s' = sec s"
proof -
  let ?B = "file_bytes (sec s) (of_hdr f) ds"
  let ?h = "noff_of_bytes (take 40 ?B)"
  let ?D = "map junk [0..<unat (np * 128)]"
  have P: "40 \<le> length ?B" "noffMagic ?h = NOFFMAGIC" "space_pages ?h = Ok np" "int (length ?D) \<le> INT_MAX"
    "segment_in (codeSeg ?h) (length ?D) (length ?B)" "segment_in (initData ?h) (length ?D) (length ?B)"
    using p by (auto simp: program_ok_def Let_def)
  have m: "min (length ?B) 40 = 40" using P(1) by simp
  obtain s1 where s1: "OpenFile_ReadAt dev f 40 0 s = Ok (40, take 40 ?B, s1)" "ready s1" "sec s1 = sec s"
    using ReadAt_spec[OF s, of 0 40] m by (auto simp: INT_MAX_def)
  have h: "overwrite 0 (take 40 ?B) hdr_junk = take 40 ?B" using j m by (simp add: overwrite_def)
  obtain s2 where s2: "load_if dev f (codeSeg ?h) ?D s1 = Ok (place (codeSeg ?h) ?B ?D, s2)" "ready s2" "sec s2 = sec s"
    using load_if_spec[OF s1(2), of f hs ds "codeSeg ?h" ?D] s1(3) s(2) P(4,5) by auto
  obtain s3 where s3: "load_if dev f (initData ?h) (place (codeSeg ?h) ?B ?D) s2 =
      Ok (place (initData ?h) ?B (place (codeSeg ?h) ?B ?D), s3)" "ready s3" "sec s3 = sec s"
    using load_if_spec[OF s2(2), of f hs ds "initData ?h" "place (codeSeg ?h) ?B ?D"] s2(3) s(2) P(4,5,6) by auto
  show ?thesis using s1 s2 s3 P(2,3)
    by (intro exI[of _ s3]) (simp add: load_program_def h ASSERT_def PageSize_def prog_image_def Let_def)
qed

end

text \<open>The constructor leaves the file and the disk as they are and adds an address space whose virtual disk is the
  image of the program.\<close>

lemma AddrSpace_new_spec:
  assumes s: "lone s" "file_ok (sectors s) (of_hdr f) hs ds" and j: "length hdr_junk = 40"
    and p: "program_ok (file_bytes (sectors s) (of_hdr f) ds) np"
  shows "\<exists>sp s' d. AddrSpace_new (kernel_dev n) hdr_junk junk f s = Ok (sp, s') \<and> lone s' \<and> sectors s' = sectors s \<and>
    spaces s' sp = Some \<lparr>as_disk = Some d, as_pageTable = WildTable, as_numPages = np\<rparr> \<and>
    vdisks s' d = Some (prog_image (file_bytes (sectors s) (of_hdr f) ds) (map junk [0..<unat (np * 128)]))"
proof -
  obtain s1 where s1: "load_program (kernel_dev n) hdr_junk junk f s =
      Ok (np, prog_image (file_bytes (sectors s) (of_hdr f) ds) (map junk [0..<unat (np * 128)]), s1)" "lone s1" "sectors s1 = sectors s"
    using synch_disk.load_program_spec[OF s j p] unfolding kernel_dev_eq by blast
  then show ?thesis
    by (simp add: AddrSpace_new_def Let_def lone_vdisks sectors_vdisks)
qed

text \<open>C14. Loading a program: the constructor of an address space returns for every executable whose header is
  complete and whose segments fit, leaves the disk as it is and makes a virtual disk of the size of
  the address space. Each byte of it that belongs to the initialised data is that byte of the file,
  so is each other byte of the code; the rest, the uninitialised data and the stack included, is
  whatever the memory held before.\<close>

theorem AddrSpace_new_loads:
  assumes s: "lone s" "file_ok (sectors s) (of_hdr f) hs ds" and j: "length hdr_junk = 40"
    and p: "program_ok (file_bytes (sectors s) (of_hdr f) ds) np"
  defines "bs \<equiv> file_bytes (sectors s) (of_hdr f) ds"
  defines "h \<equiv> noff_of_bytes (take 40 bs)"
  shows "\<exists>sp s' d disk. AddrSpace_new (kernel_dev n) hdr_junk junk f s = Ok (sp, s') \<and> lone s' \<and> sectors s' = sectors s \<and>
    spaces s' sp = Some \<lparr>as_disk = Some d, as_pageTable = WildTable, as_numPages = np\<rparr> \<and>
    vdisks s' d = Some disk \<and> length disk = unat (np * 128) \<and>
    (\<forall>k<length disk. disk ! k =
      (if in_segment (initData h) k then bs ! (nat (sint (inFileAddr (initData h))) + (k - nat (sint (virtualAddr (initData h)))))
       else if in_segment (codeSeg h) k then bs ! (nat (sint (inFileAddr (codeSeg h))) + (k - nat (sint (virtualAddr (codeSeg h)))))
       else junk k))"
proof -
  let ?junk = "map junk [0..<unat (np * 128)]"
  obtain sp s' d where r: "AddrSpace_new (kernel_dev n) hdr_junk junk f s = Ok (sp, s')" "lone s'" "sectors s' = sectors s"
    "spaces s' sp = Some \<lparr>as_disk = Some d, as_pageTable = WildTable, as_numPages = np\<rparr>"
    "vdisks s' d = Some (prog_image bs ?junk)"
    using AddrSpace_new_spec[OF s j p, of n junk, folded bs_def] by (elim exE conjE) (rule that)
  have l: "length (prog_image bs ?junk) = unat (np * 128)"
    using p by (simp add: program_ok_def Let_def prog_image_def bs_def)
  have n: "prog_image bs ?junk ! k =
      (if in_segment (initData h) k then bs ! (nat (sint (inFileAddr (initData h))) + (k - nat (sint (virtualAddr (initData h)))))
       else if in_segment (codeSeg h) k then bs ! (nat (sint (inFileAddr (codeSeg h))) + (k - nat (sint (virtualAddr (codeSeg h)))))
       else junk k)" if "k < unat (np * 128)" for k
    using nth_prog_image[OF p, of ?junk k] that unfolding h_def bs_def by simp
  show ?thesis by (intro exI conjI allI impI) (rule r l | simp only: n l)+
qed

text \<open>A program of two instructions and a word of data.\<close>

definition tiny_program :: "byte list" where
  "tiny_program = [0xad, 0xdf, 0xba, 0, 0, 0, 0, 0, 40, 0, 0, 0, 8, 0, 0, 0, 8, 0, 0, 0, 48, 0, 0, 0, 4, 0, 0, 0,
     0, 0, 0, 0, 0, 0, 0, 0, 0, 0, 0, 0, 12, 0, 0, 0, 0, 0, 0, 12, 1, 2, 3, 4]"

lemma tiny_program_ok: "program_ok (overwrite 0 tiny_program (replicate 200 0)) 9"
  by code_simp

lemma tiny_program_file:
  "\<exists>s :: kern. lone s \<and> file_ok (sectors s) (of_hdr sample_file) [] [6, 7] \<and>
     file_bytes (sectors s) (of_hdr sample_file) [6, 7] = overwrite 0 tiny_program (replicate 200 0)"
proof -
  have "length tiny_program = 52" by (simp add: tiny_program_def)
  then show ?thesis
    using synch_disk.WriteAt_spec[OF lone_booted sample_file_ok(1), of 0 52 tiny_program 0 "\<lambda>_. 0"]
    by (auto simp: sample_file_bytes sample_file_ok(2) INT_MAX_def)
qed

theorem AddrSpace_new_loads_witness:
  "\<exists>(s :: kern) sp s' d disk. AddrSpace_new (kernel_dev 0) (replicate 40 0) (\<lambda>_. 170) sample_file s = Ok (sp, s') \<and>
     vdisks s' d = Some disk \<and> length disk = 1152 \<and> take 13 disk = [12, 0, 0, 0, 0, 0, 0, 12, 1, 2, 3, 4, 170]"
proof -
  let ?B = "overwrite 0 tiny_program (replicate 200 0)"
  let ?g = "\<lambda>va pos n. \<lparr>virtualAddr = va, inFileAddr = pos, segSize = n\<rparr>"
  obtain s :: kern where s: "lone s" "file_ok (sectors s) (of_hdr sample_file) [] [6, 7]"
    "file_bytes (sectors s) (of_hdr sample_file) [6, 7] = ?B" using tiny_program_file by auto
  have h: "noff_of_bytes (take 40 ?B) = \<lparr>noffMagic = NOFFMAGIC, codeSeg = ?g 0 40 8, initData = ?g 8 48 4, uninitData = ?g 0 0 0\<rparr>"
    by code_simp
  have B: "map ((!) ?B) [40..<52] = [12, 0, 0, 0, 0, 0, 0, 12, 1, 2, 3, 4]" by code_simp
  obtain sp s' d disk where r: "AddrSpace_new (kernel_dev 0) (replicate 40 0) (\<lambda>_. 170) sample_file s = Ok (sp, s')"
    "vdisks s' d = Some disk" "length disk = 1152"
    "\<forall>k<length disk. disk ! k = (if in_segment (?g 8 48 4) k then ?B ! (48 + (k - 8))
       else if in_segment (?g 0 40 8) k then ?B ! (40 + (k - 0)) else 170)"
    using AddrSpace_new_loads[OF s(1,2), unfolded s(3) h, OF _ tiny_program_ok, of "replicate 40 0" 0 "\<lambda>_. 170"] by auto
  have "map ((!) disk) [0..<13] = [12, 0, 0, 0, 0, 0, 0, 12, 1, 2, 3, 4, 170]"
    using r(3,4) B by (simp add: upt_rec in_segment_def)
  moreover have "map ((!) disk) [0..<13] = take 13 disk" using r(3) by (intro nth_equalityI) auto
  ultimately have "take 13 disk = [12, 0, 0, 0, 0, 0, 0, 12, 1, 2, 3, 4, 170]" by simp
  with r(1-3) show ?thesis by blast
qed

end
