(* ===== verification/System_Calls.thy ===== *)
theory System_Calls
  imports Address_Space File_System Mips
begin

text \<open>
  The kernel's entry point for user programs: src/userprog/exception.cc and the start of a program,
  \<open>StartProcess\<close> of src/userprog/progtest.cc. The state is the kernel with the global \<open>fileSystem\<close>, the
  character arrays, open files and \<open>Info\<close> objects that the system calls allocate, and the host's
  standard input and output. Addresses of these objects are the numbers that user programs get and
  pass as file descriptors. A system call reads and writes user memory with \<open>ReadMem\<close> and \<open>WriteMem\<close>,
  which call the handler again on a page fault. What \<open>printf\<close> prints for tracing is left out.
\<close>

subsection \<open>State\<close>

record Info =
  info_space :: "nat option"
  info_pc :: u32

record user_kern = kern +
  fileSystem :: FileSystem
  char_arrays :: "u32 \<Rightarrow> byte list option"
  opened :: "u32 \<Rightarrow> OpenFile option"
  infos :: "u32 \<Rightarrow> Info option"
  next_ptr :: u32
  host_in :: "byte list"
  host_out :: "byte list"

text \<open>What the host contributes: fresh memory, the bound on nested handlers, and input for the debugger.\<close>

record host =
  h_nest :: nat
  h_mem :: fresh_memory
  h_regs :: "u32 list"
  h_hdr :: "byte list"
  h_space :: AddrSpace
  h_scan :: "string \<Rightarrow> int option"
  h_lines :: "nat \<Rightarrow> string"

text \<open>A pointer to a character array as a C string; an array without a zero byte is none.\<close>

definition c_names :: "'a user_kern_scheme \<Rightarrow> c_strings" where
  "c_names s p =
     (case char_arrays s p of
        None \<Rightarrow> None
      | Some bs \<Rightarrow> if 0 \<in> set bs then Some (map (\<lambda>b. char_of (unat b)) (takeWhile (\<lambda>b. b \<noteq> 0) bs)) else None)"

definition new_chars :: "byte list \<Rightarrow> 'a user_kern_scheme \<Rightarrow> u32 \<times> 'a user_kern_scheme" where
  "new_chars bs s =
     (next_ptr s, s\<lparr>char_arrays := (char_arrays s)(next_ptr s \<mapsto> bs), next_ptr := next_ptr s + 1\<rparr>)"

definition get_reg :: "int \<Rightarrow> 'a kern_scheme \<Rightarrow> u32 result" where
  "get_reg i s = rbind (mach_get s) (\<lambda>m. ReadRegister i m)"

definition put_reg :: "int \<Rightarrow> u32 \<Rightarrow> 'a kern_scheme \<Rightarrow> 'a kern_scheme result" where
  "put_reg i v s = mach_do (WriteRegister i v) s"

subsection \<open>Page faults\<close>

definition page_fault :: "ExceptionType \<Rightarrow> 'a kern_scheme \<Rightarrow> 'a kern_scheme result" where
  "page_fault which s =
     (if which = PageFaultException
      then rbind (mach_get s) (\<lambda>m.
           rbind (get_reg BadVAddrReg s) (\<lambda>address.
           case tlb m of
             Some _ \<Rightarrow> mach_do (tlbReplace address) s
           | None \<Rightarrow> ReverseTableReplace address s))
      else Err AssertFailed)"

subsection \<open>User memory\<close>

text \<open>\<open>while (value != 0) { machine->ReadMem(address++,1,&value); len++; }\<close>; a fault leaves \<open>value\<close> as it is.\<close>

partial_function (option) scan_loop :: "int \<Rightarrow> int \<Rightarrow> u32 \<Rightarrow> 'a kern_scheme \<Rightarrow> (int \<times> int \<times> 'a kern_scheme) result option" where
  "scan_loop address len value s =
     (if value = 0 then Some (Ok (address, len, s))
      else case ReadMem page_fault (word_of_int address) 1 s of
             Err e \<Rightarrow> Some (Err e)
           | Ok (r, s) \<Rightarrow>
               (case c_add address 1 of
                  Err e \<Rightarrow> Some (Err e)
                | Ok address \<Rightarrow> scan_loop address (len + 1) (case r of None \<Rightarrow> value | Some v \<Rightarrow> v) s))"

text \<open>The loops that copy from user memory; \<open>None\<close> is a local that was never assigned.\<close>

fun fetch_loop :: "int \<Rightarrow> int list \<Rightarrow> u32 option \<Rightarrow> 'a kern_scheme \<Rightarrow> (byte list \<times> 'a kern_scheme) result" where
  "fetch_loop address [] value s = Ok ([], s)"
| "fetch_loop address (i # is) value s =
     rbind (c_add address i) (\<lambda>a.
     rbind (ReadMem page_fault (word_of_int a) 1 s) (\<lambda>(r, s).
     case (case r of None \<Rightarrow> value | Some v \<Rightarrow> Some v) of
       None \<Rightarrow> Err Uninitialised
     | Some v \<Rightarrow> rbind (fetch_loop address is (Some v) s) (\<lambda>(bs, s). Ok (ucast v # bs, s))))"

text \<open>The loop of \<open>SC_Read\<close>; the result of \<open>WriteMem\<close> is ignored.\<close>

fun put_loop :: "int \<Rightarrow> int \<Rightarrow> byte list \<Rightarrow> 'a kern_scheme \<Rightarrow> 'a kern_scheme result" where
  "put_loop address i [] s = Ok s"
| "put_loop address i (b # bs) s =
     rbind (c_add address i) (\<lambda>a.
     rbind (WriteMem page_fault (word_of_int a) 1 (scast b) s) (\<lambda>(_, s).
     put_loop address (i + 1) bs s))"

definition fetch_name :: "'a user_kern_scheme \<Rightarrow> (u32 \<times> 'a user_kern_scheme) result" where
  "fetch_name s =
     rbind (get_reg 4 s) (\<lambda>r4.
     rbind (loop_result (scan_loop (sint r4) 0 1 s)) (\<lambda>(address, len, s).
     rbind (c_add address (- len)) (\<lambda>address.
     rbind (fetch_loop address [0..len - 1] (Some 0) s) (\<lambda>(bs, s).
     let (fileName, s) = new_chars bs s
     in rbind (c_string (c_names s) fileName) (\<lambda>_. Ok (fileName, s))))))"

subsection \<open>System calls\<close>

definition SC_Halt :: u32 where "SC_Halt = 0"
definition SC_Exit :: u32 where "SC_Exit = 1"
definition SC_Exec :: u32 where "SC_Exec = 2"
definition SC_Join :: u32 where "SC_Join = 3"
definition SC_Create :: u32 where "SC_Create = 4"
definition SC_Open :: u32 where "SC_Open = 5"
definition SC_Read :: u32 where "SC_Read = 6"
definition SC_Write :: u32 where "SC_Write = 7"
definition SC_Close :: u32 where "SC_Close = 8"
definition SC_Fork :: u32 where "SC_Fork = 9"
definition SC_Yield :: u32 where "SC_Yield = 10"

definition sc_exit :: "host \<Rightarrow> 'a user_kern_scheme \<Rightarrow> 'a user_kern_scheme result" where
  "sc_exit e s = rbind (mach_do AdvancePC s) (\<lambda>s. Finish (kernel_cb (h_nest e)) (currentThread s) s)"

partial_function (option) join_loop :: "nat \<Rightarrow> int \<Rightarrow> 'a kern_scheme \<Rightarrow> 'a kern_scheme result option" where
  "join_loop n threadId s =
     (case aget (ThreadIDOccupied s) threadId of
        Err e \<Rightarrow> Some (Err e)
      | Ok occ \<Rightarrow>
          if occ then case Yield (kernel_cb n) (currentThread s) s of
                        Err e \<Rightarrow> Some (Err e)
                      | Ok s \<Rightarrow> join_loop n threadId s
          else Some (Ok s))"

definition sc_join :: "host \<Rightarrow> 'a user_kern_scheme \<Rightarrow> 'a user_kern_scheme result" where
  "sc_join e s =
     rbind (get_reg 4 s) (\<lambda>threadId.
     rbind (loop_result (join_loop (h_nest e) (sint threadId) s)) (\<lambda>s. mach_do AdvancePC s))"

text \<open>The procedures a forked thread can run: \<open>exec_func\<close> and \<open>fork_func\<close>.\<close>

definition EXEC_FUNC :: nat where "EXEC_FUNC = 0"
definition FORK_FUNC :: nat where "FORK_FUNC = 1"

definition sc_fork :: "host \<Rightarrow> 'a user_kern_scheme \<Rightarrow> 'a user_kern_scheme result" where
  "sc_fork e s =
     rbind (get_reg 4 s) (\<lambda>addr.
     rbind (thread_get (currentThread s) s) (\<lambda>th.
     let info = next_ptr s;
         s = s\<lparr>infos := (infos s)(info \<mapsto> \<lparr>info_space = th_space th, info_pc = addr\<rparr>), next_ptr := info + 1\<rparr>
     in rbind (Thread_new (h_regs e) ''new thread'' 255 s) (\<lambda>(newThread, s).
        rbind (Fork (kernel_cb (h_nest e)) newThread FORK_FUNC (sint info) s) (\<lambda>s.
        mach_do AdvancePC s))))"

definition sc_yield :: "host \<Rightarrow> 'a user_kern_scheme \<Rightarrow> 'a user_kern_scheme result" where
  "sc_yield e s = rbind (mach_do AdvancePC s) (\<lambda>s. Yield (kernel_cb (h_nest e)) (currentThread s) s)"

definition sc_create :: "host \<Rightarrow> 'a user_kern_scheme \<Rightarrow> 'a user_kern_scheme result" where
  "sc_create e s =
     rbind (fetch_name s) (\<lambda>(fileName, s).
     rbind (FileSystem_Create (kernel_dev (h_nest e)) (c_names s) (h_mem e) (fileSystem s) fileName 100 s) (\<lambda>(_, s).
     mach_do AdvancePC s))"

definition sc_open :: "host \<Rightarrow> 'a user_kern_scheme \<Rightarrow> 'a user_kern_scheme result" where
  "sc_open e s =
     rbind (fetch_name s) (\<lambda>(fileName, s).
     rbind (FileSystem_Open (kernel_dev (h_nest e)) (c_names s) (h_mem e) (fileSystem s) fileName s) (\<lambda>(openfile, s).
     let (fd, s) = (case openfile of
                      None \<Rightarrow> (0, s)
                    | Some f \<Rightarrow> (next_ptr s, s\<lparr>opened := (opened s)(next_ptr s \<mapsto> f), next_ptr := next_ptr s + 1\<rparr>))
     in rbind (put_reg 2 fd s) (\<lambda>s. mach_do AdvancePC s)))"

text \<open>\<open>new char[len]\<close> fails for a negative length.\<close>

definition alloc_ok :: "int \<Rightarrow> unit result" where
  "alloc_ok len = (if len < 0 then Err OutOfBounds else Ok ())"

definition sc_write :: "host \<Rightarrow> 'a user_kern_scheme \<Rightarrow> 'a user_kern_scheme result" where
  "sc_write e s =
     rbind (get_reg 4 s) (\<lambda>address. rbind (get_reg 5 s) (\<lambda>len. rbind (get_reg 6 s) (\<lambda>fd.
     rbind (alloc_ok (sint len)) (\<lambda>_.
     rbind (fetch_loop (sint address) [0..sint len - 1] None s) (\<lambda>(data, s).
     rbind (if fd \<noteq> 1
            then rbind (the_ptr (opened s fd)) (\<lambda>openfile.
                 rbind (OpenFile_Write (kernel_dev (h_nest e)) (fr_bytes (h_mem e)) (fr_now (h_mem e)) openfile data (sint len) s) (\<lambda>(_, openfile, s).
                 Ok (s\<lparr>opened := (opened s)(fd \<mapsto> openfile)\<rparr>)))
            else Ok (s\<lparr>host_out := host_out s @ data\<rparr>)) (\<lambda>s.
     mach_do AdvancePC s))))))"

text \<open>\<open>getchar\<close> returns EOF, -1, at the end of the input.\<close>

fun get_chars :: "nat \<Rightarrow> byte list \<Rightarrow> byte list \<times> byte list" where
  "get_chars 0 inp = ([], inp)"
| "get_chars (Suc n) inp =
     (case inp of
        [] \<Rightarrow> let (bs, rest) = get_chars n [] in (- 1 # bs, rest)
      | b # inp \<Rightarrow> let (bs, rest) = get_chars n inp in (b # bs, rest))"

definition sc_read :: "host \<Rightarrow> 'a user_kern_scheme \<Rightarrow> 'a user_kern_scheme result" where
  "sc_read e s =
     rbind (get_reg 4 s) (\<lambda>address. rbind (get_reg 5 s) (\<lambda>len. rbind (get_reg 6 s) (\<lambda>fd.
     rbind (alloc_ok (sint len)) (\<lambda>_.
     rbind (if fd \<noteq> 0
            then rbind (the_ptr (opened s fd)) (\<lambda>openfile.
                 rbind (OpenFile_Read (kernel_dev (h_nest e)) (fr_now (h_mem e)) openfile (sint len) s) (\<lambda>(result, data, openfile, s).
                 Ok (result, data, s\<lparr>opened := (opened s)(fd \<mapsto> openfile)\<rparr>)))
            else let (data, rest) = get_chars (nat (sint len)) (host_in s)
                 in Ok (sint len, data, s\<lparr>host_in := rest\<rparr>)) (\<lambda>(result, data, s).
     rbind (put_loop (sint address) 0 data s) (\<lambda>s.
     rbind (put_reg 2 (word_of_int result) s) (\<lambda>s. mach_do AdvancePC s)))))))"

text \<open>Deleting the null pointer does nothing.\<close>

definition sc_close :: "'a user_kern_scheme \<Rightarrow> 'a user_kern_scheme result" where
  "sc_close s =
     rbind (get_reg 4 s) (\<lambda>fd.
     rbind (if fd = 0 then Ok s else rbind (the_ptr (opened s fd)) (\<lambda>_. Ok (s\<lparr>opened := (opened s)(fd := None)\<rparr>))) (\<lambda>s.
     mach_do AdvancePC s))"

definition sc_exec :: "host \<Rightarrow> 'a user_kern_scheme \<Rightarrow> 'a user_kern_scheme result" where
  "sc_exec e s =
     rbind (get_reg 4 s) (\<lambda>address.
     rbind (Thread_new (h_regs e) ''new thread'' 255 s) (\<lambda>(newThread, s).
     rbind (Fork (kernel_cb (h_nest e)) newThread EXEC_FUNC (sint address) s) (\<lambda>s.
     rbind (thread_get newThread s) (\<lambda>th.
     rbind (put_reg 2 (word_of_int (th_tid th)) s) (\<lambda>s. mach_do AdvancePC s)))))"

definition ExceptionHandler :: "host \<Rightarrow> ExceptionType \<Rightarrow> 'a user_kern_scheme \<Rightarrow> 'a user_kern_scheme result" where
  "ExceptionHandler e which s =
     rbind (get_reg 2 s) (\<lambda>type.
     if which = SyscallException \<and> type = SC_Halt then Halt s
     else if which = SyscallException \<and> type = SC_Exit then sc_exit e s
     else if which = SyscallException \<and> type = SC_Join then sc_join e s
     else if which = SyscallException \<and> type = SC_Fork then sc_fork e s
     else if which = SyscallException \<and> type = SC_Yield then sc_yield e s
     else if which = SyscallException \<and> type = SC_Create then sc_create e s
     else if which = SyscallException \<and> type = SC_Open then sc_open e s
     else if which = SyscallException \<and> type = SC_Write then sc_write e s
     else if which = SyscallException \<and> type = SC_Read then sc_read e s
     else if which = SyscallException \<and> type = SC_Close then sc_close s
     else if which = SyscallException \<and> type = SC_Exec then sc_exec e s
     else page_fault which s)"

subsection \<open>Starting programs\<close>

definition set_space :: "nat \<Rightarrow> 'a kern_scheme \<Rightarrow> 'a kern_scheme result" where
  "set_space sp s = thread_upd (currentThread s) (\<lambda>th. th\<lparr>th_space := Some sp\<rparr>) s"

definition jump_user :: "host \<Rightarrow> nat \<Rightarrow> 'a user_kern_scheme \<Rightarrow> 'a user_kern_scheme result" where
  "jump_user e sp s =
     rbind (space_get sp s) (\<lambda>space.
     rbind (mach_do (InitRegisters (as_numPages space)) s) (\<lambda>s.
     AddrSpace_RestoreState space s))"

definition user_run :: "host \<Rightarrow> 'a user_kern_scheme \<Rightarrow> 'a user_kern_scheme result" where
  "user_run e s = Machine_Run (kernel_cb (h_nest e)) (ExceptionHandler e) (h_scan e) (h_lines e) s"

text \<open>\<open>exec_func\<close> gets the address that the user program passed, and uses it as a pointer of the kernel.\<close>

definition exec_func :: "host \<Rightarrow> u32 \<Rightarrow> 'a user_kern_scheme \<Rightarrow> 'a user_kern_scheme result" where
  "exec_func e fileName s =
     rbind (the_ptr (char_arrays s fileName)) (\<lambda>bs.
     rbind (aset bs 5 0) (\<lambda>bs.
     let s = s\<lparr>char_arrays := (char_arrays s)(fileName \<mapsto> bs)\<rparr>
     in rbind (c_string (c_names s) fileName) (\<lambda>_.
        rbind (FileSystem_Open (kernel_dev (h_nest e)) (c_names s) (h_mem e) (fileSystem s) fileName s) (\<lambda>(executable, s).
        case executable of
          None \<Rightarrow> Ok s
        | Some f \<Rightarrow>
            rbind (AddrSpace_new (kernel_dev (h_nest e)) (h_hdr e) (fr_bytes (h_mem e)) f s) (\<lambda>(space, s).
            rbind (set_space space s) (\<lambda>s.
            rbind (jump_user e space s) (\<lambda>s. user_run e s)))))))"

definition fork_func :: "host \<Rightarrow> u32 \<Rightarrow> 'a user_kern_scheme \<Rightarrow> 'a user_kern_scheme result" where
  "fork_func e info_address s =
     rbind (the_ptr (infos s info_address)) (\<lambda>info.
     let (space, s) = AddrSpace_default (h_space e) s
     in case info_space info of
          None \<Rightarrow> Err AssertFailed
        | Some src \<Rightarrow>
            rbind (AddrSpaceCopy space src s) (\<lambda>s.
            rbind (set_space space s) (\<lambda>s.
            rbind (jump_user e space s) (\<lambda>s.
            rbind (put_reg PCReg (info_pc info) s) (\<lambda>s.
            rbind (put_reg NextPCReg (info_pc info + 4) s) (\<lambda>s. user_run e s))))))"

text \<open>\<open>ThreadRoot\<close> runs the procedure of a new thread between \<open>InterruptEnable\<close> and \<open>ThreadFinish\<close>.\<close>

definition ThreadRoot :: "host \<Rightarrow> 'a user_kern_scheme \<Rightarrow> 'a user_kern_scheme result" where
  "ThreadRoot e s =
     rbind (Enable (kernel_cb (h_nest e)) s) (\<lambda>s.
     rbind (thread_get (currentThread s) s) (\<lambda>th.
     rbind (the_nonnull (th_start th)) (\<lambda>(f, arg).
     rbind (if f = EXEC_FUNC then exec_func e (word_of_int arg) s else fork_func e (word_of_int arg) s) (\<lambda>s.
     Finish (kernel_cb (h_nest e)) (currentThread s) s))))"

definition StartProcess :: "host \<Rightarrow> u32 \<Rightarrow> 'a user_kern_scheme \<Rightarrow> 'a user_kern_scheme result" where
  "StartProcess e filename s =
     rbind (FileSystem_Open (kernel_dev (h_nest e)) (c_names s) (h_mem e) (fileSystem s) filename s) (\<lambda>(executable, s).
     case executable of
       None \<Rightarrow> Ok s
     | Some f \<Rightarrow>
         rbind (AddrSpace_new (kernel_dev (h_nest e)) (h_hdr e) (fr_bytes (h_mem e)) f s) (\<lambda>(space, s).
         rbind (set_space space s) (\<lambda>s.
         rbind (jump_user e space s) (\<lambda>s.
         rbind (user_run e s) (\<lambda>s. Err AssertFailed)))))"

definition MultiThreadTest :: "host \<Rightarrow> int \<Rightarrow> 'a user_kern_scheme \<Rightarrow> 'a user_kern_scheme result" where
  "MultiThreadTest e dummy s = user_run e s"

subsection \<open>Nested exceptions\<close>

text \<open>A fault inside a system call is handled as any other: \<open>ReadMem\<close> and \<open>WriteMem\<close> raise no system call.\<close>

lemma Translate_no_syscall: "Translate va sz w tid m = Ok (Inl x, m') \<Longrightarrow> x \<noteq> SyscallException"
  by (auto simp: Translate_def Let_def result_simps split: if_splits option.splits)

lemma aset_length: "aset xs i v = Ok ys \<Longrightarrow> 0 \<le> i \<and> i < int (length xs) \<and> length ys = length xs"
  by (auto simp: aset_def split: if_splits)

lemma DelayedLoad_length: "DelayedLoad r v m = Ok m' \<Longrightarrow> length (registers m') = length (registers m)"
  by (auto simp: DelayedLoad_def result_simps dest!: aset_length)

lemma RaiseException_nested:
  assumes "which \<noteq> SyscallException"
  shows "RaiseException (ExceptionHandler e) which va s = RaiseException page_fault which va s"
proof (cases "mach_do (\<lambda>m. rbind (aset (registers m) BadVAddrReg va) (\<lambda>rs. Ok (m\<lparr>registers := rs\<rparr>))) s")
  case (Ok s1)
  then obtain m1 where m1: "machine s1 = Some m1" "36 \<le> length (registers m1)"
    by (auto simp: mach_do_def result_simps reg_defs dest!: aset_length)
  show ?thesis
  proof (cases "mach_do (DelayedLoad 0 0) s1")
    case (Ok s2)
    then have "\<exists>v. get_reg 2 (setStatus SystemMode s2) = Ok v"
      using m1 by (auto simp: mach_do_def mach_get_def result_simps get_reg_def ReadRegister_def ASSERT_def NumTotalRegs_def
          setStatus_def upd_intr_def dest!: DelayedLoad_length)
    then show ?thesis using assms \<open>mach_do _ s = Ok s1\<close> Ok by (auto simp: RaiseException_def ExceptionHandler_def)
  qed (simp add: RaiseException_def \<open>mach_do _ s = Ok s1\<close>)
qed (simp add: RaiseException_def)

lemma ReadMem_nested: "ReadMem (ExceptionHandler e) va sz s = ReadMem page_fault va sz s"
  by (auto simp: ReadMem_def Let_def dest: Translate_no_syscall intro!: rbind_cong RaiseException_nested split: sum.splits)

lemma WriteMem_nested: "WriteMem (ExceptionHandler e) va sz v s = WriteMem page_fault va sz v s"
  by (auto simp: WriteMem_def Let_def dest: Translate_no_syscall intro!: rbind_cong RaiseException_nested split: sum.splits)

end
