(* ===== verification/User_Programs.thy ===== *)
theory User_Programs
  imports System_Calls Virtual_Memory Kernel_File_System
begin

text \<open>
  What a user program sees of the kernel of src/userprog/exception.cc: its memory across page faults,
  and the bytes that system calls move between its memory and files. The address space is the one
  src/machine/translate.cc defines through the reverse page table, with the pages that are not in memory on the
  virtual disk of the thread.
\<close>

subsection \<open>Bytes of user memory\<close>

definition user_byte :: "Machine \<Rightarrow> int \<Rightarrow> u32 \<Rightarrow> byte option" where
  "user_byte m tid va = map_option (\<lambda>i. mainMemory m ! phys i va) (frame_of m (va div 128) tid)"

text \<open>Reading changes the use bits and the counter of translations only.\<close>

definition same_view :: "Machine \<Rightarrow> Machine \<Rightarrow> bool" where
  "same_view m m' \<longleftrightarrow> mainMemory m' = mainMemory m \<and> registers m' = registers m \<and> tlb m' = tlb m \<and>
     frames_ok m' \<and> frame_of m' = frame_of m"

lemma same_view_trans: "same_view m m1 \<Longrightarrow> same_view m1 m2 \<Longrightarrow> same_view m m2"
  by (simp add: same_view_def)

lemma user_byte_same: "same_view m m' \<Longrightarrow> user_byte m' = user_byte m"
  by (simp add: same_view_def user_byte_def fun_eq_iff)

lemma aligned_byte [simp]: "aligned va 1"
  by (simp add: aligned_def)

lemma ReadMem_byte:
  assumes m: "machine s = Some m" "frames_ok m" "current_tid s = Ok tid" and b: "user_byte m tid va = Some b"
  shows "\<exists>m'. ReadMem h va 1 s = Ok (Some (scast b), s\<lparr>machine := Some m'\<rparr>) \<and> same_view m m'"
proof -
  obtain i where i: "frame_of m (va div 128) tid = Some i" "b = mainMemory m ! phys i va"
    using b unfolding user_byte_def by (cases "frame_of m (va div 128) tid") simp_all
  have l: "i < 32" using frame_of_Some(1)[OF i(1)] .
  let ?m = "touch False i (m\<lparr>tlbTimes := tlbTimes m + 1\<rparr>)"
  have "Translate va 1 False tid m = Ok (Inr (word_of_nat (phys i va)), ?m)"
    using i(1) by (subst Translate_spec[OF m(2)]) simp_all
  moreover have "mainMemory ?m = mainMemory m" by (simp add: touch_def)
  ultimately have "ReadMem h va 1 s = Ok (Some (scast b), s\<lparr>machine := Some ?m\<rparr>)"
    using m i(2) phys_word(3,4)[OF l, of va] frames_ok_simps(1)[OF m(2)]
    by (simp add: ReadMem_def mach_get_def load_def)
  moreover have "same_view m ?m" using m(2) unfolding same_view_def by (simp, simp add: touch_def)
  ultimately show ?thesis by blast
qed

lemma ucast_scast_byte: "ucast (scast (b :: byte) :: u32) = b"
  by transfer (simp add: take_bit_signed_take_bit)

lemma fetch_loop_resident:
  assumes "machine s = Some m" "frames_ok m" "current_tid s = Ok tid"
    and "\<forall>i<length bs. user_byte m tid (word_of_int (a + int (k + i))) = Some (bs ! i)"
    and "- INT_MAX - 1 \<le> a" "a + int (k + length bs) \<le> INT_MAX"
  shows "\<exists>m'. fetch_loop a (map int [k..<k + length bs]) v s = Ok (bs, s\<lparr>machine := Some m'\<rparr>) \<and> same_view m m'"
  using assms
proof (induction bs arbitrary: k v s m)
  case Nil
  then have "s\<lparr>machine := Some m\<rparr> = s" "same_view m m" by (simp_all add: same_view_def)
  then show ?case by (intro exI[of _ m]) simp
next
  case (Cons b bs)
  have "user_byte m tid (word_of_int (a + int k)) = Some b" using Cons.prems(4)[rule_format, of 0] by simp
  then obtain m1 where m1: "ReadMem page_fault (word_of_int (a + int k)) 1 s = Ok (Some (scast b), s\<lparr>machine := Some m1\<rparr>)"
    "same_view m m1" using ReadMem_byte[OF Cons.prems(1-3)] by blast
  have u: "\<forall>i<length bs. user_byte m1 tid (word_of_int (a + int (Suc k + i))) = Some (bs ! i)"
    unfolding user_byte_same[OF m1(2)] using Cons.prems(4)[rule_format, of "Suc _"] by (simp add: add_ac)
  have "current_tid (s\<lparr>machine := Some m1\<rparr>) = Ok tid" "frames_ok m1"
    using Cons.prems(3) m1(2) by (simp_all add: current_tid_def same_view_def)
  with Cons.IH[of "s\<lparr>machine := Some m1\<rparr>" m1 "Suc k" "Some (scast b)"] u Cons.prems(5,6)
  obtain m' where "fetch_loop a (map int [Suc k..<Suc k + length bs]) (Some (scast b)) (s\<lparr>machine := Some m1\<rparr>) =
      Ok (bs, s\<lparr>machine := Some m'\<rparr>)" "same_view m1 m'" by auto
  moreover have "[k..<k + length (b # bs)] = k # [Suc k..<Suc k + length bs]" by (simp add: upt_conv_Cons del: upt_Suc)
  moreover have "c_add a (int k) = Ok (a + int k)" using Cons.prems(5,6) by (simp add: c_add_def)
  ultimately have "fetch_loop a (map int [k..<k + length (b # bs)]) v s = Ok (b # bs, s\<lparr>machine := Some m'\<rparr>)"
    using m1(1) by (simp add: ucast_scast_byte)
  then show ?case using same_view_trans[OF m1(2) \<open>same_view m1 m'\<close>] by blast
qed

subsection \<open>Page faults\<close>

text \<open>What a fault needs: coherent paging, a delayed load to a general register if any, and the page that is
  missing on the virtual disk \<open>bs\<close> of the thread.\<close>

definition faulting :: "'a kern_scheme \<Rightarrow> Machine \<Rightarrow> int \<Rightarrow> u32 \<Rightarrow> byte list \<Rightarrow> bool" where
  "faulting s m tid va bs \<longleftrightarrow> machine s = Some m \<and> frames_ok m \<and> loadable (Some m) \<and> sint (registers m ! 37) < 32 \<and> tlb m = None \<and> coherent s m \<and>
     (\<forall>n. 0 \<le> random_src s n) \<and> current_tid s = Ok tid \<and> frame_of m (va div 128) tid = None \<and>
     (\<exists>d. vdisk_of tid s = Ok (d, bs)) \<and> has_page (unat (va div 128)) bs \<and> length bs < 2 ^ 31"

lemma vdisk_of_cong:
  assumes "thread_poiners s' = thread_poiners s" "threads s' = threads s" "spaces s' = spaces s" "vdisks s' = vdisks s"
  shows "vdisk_of t s' = vdisk_of t s"
  using assms by (simp add: vdisk_of_def)

lemma coherent_cong:
  assumes "\<And>t. vdisk_of t s' = vdisk_of t s" "rt_page_table m' = rt_page_table m" "mainMemory m' = mainMemory m"
  shows "coherent s' m' = coherent s m" "vm_has s' = vm_has s" "vm_page s' m' = vm_page s m"
  using assms by (simp_all add: coherent_def vm_has_def vm_page_def frame_of_def fun_eq_iff cong: option.case_cong)

lemma page_byte:
  assumes "has_page (unat (va div 128 :: u32)) bs"
  shows "page (unat (va div 128)) bs ! (unat va mod 128) = bs ! unat va"
proof -
  have "unat (va div 128) = unat va div 128" by (simp add: unat_div)
  then show ?thesis using assms by (simp add: page_def has_page_def)
qed

lemma user_byte_page:
  assumes "frames_ok m" "frame_of m (va div 128) tid = Some i"
  shows "user_byte m tid va = Some (vm_page s m tid (va div 128) ! (unat va mod 128))"
  using frame_of_Some(1)[OF assms(2)] frames_ok_simps(1)[OF assms(1)] assms(2)
  by (simp add: user_byte_def vm_page_def page_def phys_def)

lemma replace_victim_threads:
  "replace_victim m s = Ok (p, s') \<Longrightarrow> threads s' = threads s \<and> currentThread s' = currentThread s"
  by (cases "first_invalid [0..TLBSize - 1] (rt_page_table m)") (auto simp: replace_victim_def Random_def Let_def split: if_splits)

lemma replace_save_threads:
  "replace_save m e s = Ok s' \<Longrightarrow> threads s' = threads s \<and> currentThread s' = currentThread s"
  unfolding replace_save_def by (cases "vdisk_of (rt_tid e) s") (auto simp: result_simps split: if_splits)

lemma replace_load_threads:
  "replace_load v p m e s = Ok s' \<Longrightarrow> threads s' = threads s \<and> currentThread s' = currentThread s"
  unfolding replace_load_def by (auto simp: result_simps)

lemma ReverseTableReplace_threads:
  assumes "ReverseTableReplace va s = Ok s'"
  shows "threads s' = threads s \<and> currentThread s' = currentThread s"
proof -
  obtain m p s1 e s2 where "replace_victim m s = Ok (p, s1)" "replace_save m e s1 = Ok s2" "replace_load (va div word_of_int PageSize) p m e s2 = Ok s'"
    using assms unfolding ReverseTableReplace_def Let_def by (auto simp: result_simps)
  then show ?thesis using replace_victim_threads replace_save_threads replace_load_threads by metis
qed

lemma ReadMem_fault:
  assumes "faulting s m tid va bs"
  shows "\<exists>s' m'. ReadMem page_fault va 1 s = Ok (None, s') \<and> machine s' = Some m' \<and> frames_ok m' \<and> coherent s' m' \<and>
    current_tid s' = Ok tid \<and> user_byte m' tid va = Some (bs ! unat va) \<and>
    (\<forall>t v. vm_has s t v \<longrightarrow> vm_page s' m' t v = vm_page s m t v)"
proof -
  obtain d where f: "machine s = Some m" "frames_ok m" "loadable (Some m)" "tlb m = None" "coherent s m"
    "\<forall>n. 0 \<le> random_src s n" "current_tid s = Ok tid" "frame_of m (va div 128) tid = None"
    "vdisk_of tid s = Ok (d, bs)" "has_page (unat (va div 128)) bs" "length bs < 2 ^ 31" "sint (registers m ! 37) < 32"
    using assms by (auto simp: faulting_def)
  let ?m1 = "m\<lparr>tlbTimes := tlbTimes m + 1, registers := (registers m)[39 := va]\<rparr>"
  let ?r = "nat (sint (registers m ! 37))"
  let ?m2 = "?m1\<lparr>registers := (registers m)[39 := va, ?r := registers m ! 38, 37 := 0, 38 := 0, 0 := 0]\<rparr>"
  have n: "length (registers m) = 40" "0 \<le> sint (registers m ! 37)" using f(3) by (auto simp: loadable_def NumTotalRegs_def)
  have d2: "DelayedLoad 0 0 ?m1 = Ok ?m2" using n f(12) by (simp add: DelayedLoad_def reg_defs)
  have r2: "registers ?m2 ! 39 = va" using n f(12) by (simp add: nth_list_update)
  let ?s2 = "setStatus SystemMode (s\<lparr>machine := Some ?m2\<rparr>)"
  have T: "Translate va 1 False tid m = Ok (Inl PageFaultException, m\<lparr>tlbTimes := tlbTimes m + 1\<rparr>)"
    using f(8) by (subst Translate_spec[OF f(2)]) simp_all
  have v2: "vdisk_of t ?s2 = vdisk_of t s" for t by (intro vdisk_of_cong) (simp_all add: setStatus_def)
  have c2: "coherent ?s2 ?m2 = coherent s m" "vm_has ?s2 = vm_has s" "vm_page ?s2 ?m2 = vm_page s m"
    by (intro coherent_cong v2; simp)+
  have "frames_ok ?m2" "frame_of ?m2 = frame_of m" using f(2) by (simp_all add: frames_ok_def frame_of_def fun_eq_iff)
  moreover have "machine ?s2 = Some ?m2" "random_src ?s2 = random_src s" "current_tid ?s2 = Ok tid"
    using f(7) by (simp_all add: setStatus_def current_tid_def)
  moreover have "vm_has s tid (va div 128)" using f(9-11) by (simp add: vm_has_def)
  ultimately obtain s3 m3 where r: "ReverseTableReplace va ?s2 = Ok s3" "machine s3 = Some m3" "frames_ok m3" "coherent s3 m3"
    "frame_of m3 (va div 128) tid \<noteq> None" "\<forall>t v. vm_has s t v \<longrightarrow> vm_page s3 m3 t v = vm_page s m t v"
    using ReverseTableReplace_spec[of ?s2 ?m2 tid va] f(5,6,8) c2 by auto
  let ?s' = "setStatus UserMode s3"
  have "RaiseException page_fault PageFaultException va (s\<lparr>machine := Some (m\<lparr>tlbTimes := tlbTimes m + 1\<rparr>)\<rparr>) = Ok ?s'"
    using n d2 r2 r(1) f(4)
    by (simp add: RaiseException_def mach_do_def mach_get_def page_fault_def get_reg_def ReadRegister_def reg_defs ASSERT_def setStatus_def)
  then have R: "ReadMem page_fault va 1 s = Ok (None, ?s')"
    using T f(1,7) by (simp add: ReadMem_def mach_get_def)
  have "vdisk_of t ?s' = vdisk_of t s3" for t by (intro vdisk_of_cong) (simp_all add: setStatus_def)
  then have c3: "coherent ?s' m3" "vm_page ?s' m3 = vm_page s3 m3" using r(4) coherent_cong[of ?s' s3 m3 m3] by simp_all
  have "current_tid ?s' = Ok tid"
    using ReverseTableReplace_threads[OF r(1)] f(7) by (simp add: setStatus_def current_tid_def)
  moreover obtain i where i: "frame_of m3 (va div 128) tid = Some i" using r(5) by auto
  have "vm_page s m tid (va div 128) = page (unat (va div 128)) bs" using f(8,9) by (simp add: vm_page_def)
  then have "user_byte m3 tid va = Some (bs ! unat va)"
    using user_byte_page[OF r(3) i, of s3] r(6) \<open>vm_has s tid (va div 128)\<close> page_byte[OF f(10)] by simp
  moreover have "machine ?s' = Some m3" using r(2) by (simp add: setStatus_def)
  ultimately show ?thesis using R c3 r(3,6) by auto
qed

text \<open>C16. Demand paging: a user access to a page that is not in memory fails once, with the page fault handled by
  \<open>ExceptionHandler\<close>; the same access then succeeds and reads the byte of the thread's virtual disk, where
  the loader of the program or an earlier eviction put it. Paging stays coherent and no page of any thread changes.\<close>

theorem page_fault_retry:
  assumes "faulting s m tid va bs"
  shows "\<exists>s' m' s''. ReadMem (ExceptionHandler e) va 1 s = Ok (None, s') \<and> machine s' = Some m' \<and> frames_ok m' \<and> coherent s' m' \<and>
    ReadMem (ExceptionHandler e) va 1 s' = Ok (Some (scast (bs ! unat va)), s'') \<and>
    (\<forall>t v. vm_has s t v \<longrightarrow> vm_page s' m' t v = vm_page s m t v)"
proof -
  obtain s' m' where r: "ReadMem page_fault va 1 s = Ok (None, s')" "machine s' = Some m'" "frames_ok m'" "coherent s' m'"
    "current_tid s' = Ok tid" "user_byte m' tid va = Some (bs ! unat va)"
    "\<forall>t v. vm_has s t v \<longrightarrow> vm_page s' m' t v = vm_page s m t v"
    using ReadMem_fault[OF assms] by (elim exE conjE) (rule that)
  obtain s'' where "ReadMem (ExceptionHandler e) va 1 s' = Ok (Some (scast (bs ! unat va)), s'')"
    using ReadMem_byte[OF r(2,3,5,6)] by blast
  then show ?thesis using r unfolding ReadMem_nested by blast
qed

subsection \<open>Pages of a finished thread\<close>

lemma find_tid_first:
  assumes "k < length occ" "\<forall>j<k. occ ! j" "\<not> occ ! k" "i \<le> k" "k < n"
  shows "find_tid (map int [i..<n]) occ = Ok (Some (int k))"
  using assms
proof (induction "k - i" arbitrary: i)
  case 0
  then have "[i..<n] = k # [Suc k..<n]" by (simp add: upt_conv_Cons)
  then show ?case using 0 by simp
next
  case (Suc d)
  then have "[i..<n] = i # [Suc i..<n]" by (simp add: upt_conv_Cons)
  then show ?case using Suc by simp
qed

text \<open>C18. The destructor of a thread leaves its pages in the reverse page table, marked with its id, and ids are used again:
  a new thread that gets the id of a deleted one reads the memory of the deleted one.\<close>

theorem reused_id_sees_old_pages:
  assumes old: "threads s t = Some old" "th_tid old = int k" "Thread_delete t s = Ok s1"
    and new: "Thread_new junk nm p s1 = Ok (u, s2)" "\<forall>j<k. ThreadIDOccupied s ! j" "k < MaxThreadCount"
    and m: "machine s = Some m" "frames_ok m" "user_byte m (int k) va = Some b"
  shows "\<exists>s3. ReadMem eh va 1 (s2\<lparr>currentThread := u\<rparr>) = Ok (Some (scast b), s3)"
proof -
  have "k < length (ThreadIDOccupied s)" and s1: "ThreadIDOccupied s1 = (ThreadIDOccupied s)[k := False]" "machine s1 = machine s"
    using old by (auto simp: Thread_delete_def thread_get_def result_simps ASSERT_def aset_def split: if_splits)
  then have "find_tid [0..int MaxThreadCount - 1] (ThreadIDOccupied s1) = Ok (Some (int k))"
    using find_tid_first[of k "(ThreadIDOccupied s)[k := False]" 0 MaxThreadCount] new(2,3) by simp
  then have "current_tid (s2\<lparr>currentThread := u\<rparr>) = Ok (int k)" "machine s2 = machine s1"
    using new(1) by (auto simp: Thread_new_def Let_def result_simps ASSERT_def current_tid_def split: if_splits)
  then show ?thesis using ReadMem_byte[of "s2\<lparr>currentThread := u\<rparr>" m "int k" va b] m s1(2) by auto
qed

theorem reused_id_sees_old_pages_witness:
  "\<exists>s1 u s2 s3. Thread_delete 1 (two_threads\<lparr>ThreadIDOccupied := True # True # replicate 126 False\<rparr>) = Ok s1 \<and>
     Thread_new [] ''new'' 255 s1 = Ok (u, s2) \<and> ReadMem page_fault 900 1 (s2\<lparr>currentThread := u\<rparr>) = Ok (Some 0, s3)"
proof -
  let ?s = "two_threads\<lparr>ThreadIDOccupied := True # True # replicate 126 False\<rparr>"
  obtain s1 where s1: "Thread_delete 1 ?s = Ok s1"
    by (simp add: Thread_delete_def thread_get_def two_threads_def Let_def ASSERT_def aset_def)
  moreover from this obtain u s2 where "Thread_new [] ''new'' 255 s1 = Ok (u, s2)"
    by (auto simp: Thread_delete_def thread_get_def two_threads_def Let_def ASSERT_def aset_def Thread_new_def MaxThreadCount_def upto_rec1)
  moreover have "user_byte two_pages (int 0) 900 = Some 0" using frame_of_two_pages[of 0] by (simp add: user_byte_def phys_def two_pages_def)
  ultimately show ?thesis
    using reused_id_sees_old_pages[of ?s 1 _ 0 s1 "[]" "''new''" 255 u s2 two_pages 900 0 page_fault] frames_ok_two_pages
    by (auto simp: two_threads_def Let_def MaxThreadCount_def)
qed

subsection \<open>The state around a system call\<close>

text \<open>A user thread in a system call, alone on the machine: its registers are settled, as \<open>RaiseException\<close> leaves them.\<close>

definition in_syscall :: "'a kern_scheme \<Rightarrow> Machine \<Rightarrow> int \<Rightarrow> bool" where
  "in_syscall s m tid \<longleftrightarrow> lone s \<and> settled s \<and> machine s = Some m \<and> frames_ok m \<and> current_tid s = Ok tid"

lemma in_syscallD:
  assumes "in_syscall s m tid"
  shows "lone s" "settled s" "machine s = Some m" "frames_ok m" "current_tid s = Ok tid" "loadable (Some m)" "settle m = m"
proof -
  show "lone s" "settled s" "machine s = Some m" "frames_ok m" "current_tid s = Ok tid"
    using assms by (simp_all add: in_syscall_def)
  then show "loadable (Some m)" "settle m = m" by (simp_all add: lone_def settled_def)
qed

lemma in_syscall_machine:
  assumes "in_syscall s m tid" "same_view m m'"
  shows "in_syscall (s\<lparr>machine := Some m'\<rparr>) m' tid"
proof -
  have r: "registers m' = registers m" and f: "frames_ok m'" using assms(2) by (simp_all add: same_view_def)
  have "loadable (Some m')" using in_syscallD(6)[OF assms(1)] r by (simp add: loadable_def)
  moreover have "settle m' = m'" using settle_registers[OF in_syscallD(6)[OF assms(1)] r] in_syscallD(7)[OF assms(1)] by blast
  ultimately show ?thesis
    using in_syscallD(1,3,5,6)[OF assms(1)] f r
    by (simp add: in_syscall_def lone_def thread_ready_def settled_def current_tid_def quiet_def disk_free_def cong: option.case_cong)
qed

lemma bare_view: "frames_ok m \<Longrightarrow> bare m' = bare m \<Longrightarrow> same_view m m'"
  by (cases m; cases m') (simp add: bare_def same_view_def frames_ok_def frame_of_def fun_eq_iff)

lemma in_syscall_disk:
  assumes "in_syscall s m tid" "lone s'" "settled s'" "untouched s' = untouched s"
  shows "\<exists>m'. in_syscall s' m' tid \<and> same_view m m'" "kern.more s' = kern.more s" "vdisks s' = vdisks s" "thread_poiners s' = thread_poiners s"
proof -
  obtain m' where m': "machine s' = Some m'" "bare m' = bare m"
    using assms(3,4) in_syscallD(3,7)[OF assms(1)] by (auto simp: untouched_def settled_def)
  then have v: "same_view m m'" by (intro bare_view in_syscallD(4)[OF assms(1)])
  have c: "currentThread s' = currentThread s" using assms(4) by (simp add: untouched_def)
  have "map_option (\<lambda>th. th\<lparr>th_userRegisters := [], th_status := RUNNING\<rparr>) (threads s' t) =
      map_option (\<lambda>th. th\<lparr>th_userRegisters := [], th_status := RUNNING\<rparr>) (threads s t)" for t
    using assms(4) unfolding untouched_def by (simp add: fun_eq_iff)
  from this[of "currentThread s"] have "current_tid s' = current_tid s"
    unfolding current_tid_def c by (cases "threads s (currentThread s)"; cases "threads s' (currentThread s)")
      (auto dest!: arg_cong[where f = th_tid])
  then have "in_syscall s' m' tid"
    using assms(1-3) m'(1) v by (simp add: in_syscall_def same_view_def)
  with v show "\<exists>m'. in_syscall s' m' tid \<and> same_view m m'" by blast
qed (use assms(4) in \<open>simp_all add: untouched_def\<close>)

lemma user_more:
  assumes "kern.more s' = kern.more s"
  shows "opened s' = opened s" "fileSystem s' = fileSystem s" "char_arrays s' = char_arrays s" "next_ptr s' = next_ptr s"
    "host_in s' = host_in s" "host_out s' = host_out s" "infos s' = infos s"
  using assms by (cases s; cases s'; simp)+

lemma in_syscall_user [simp]:
  "in_syscall (s\<lparr>opened := x\<rparr>) m tid = in_syscall s m tid" "in_syscall (s\<lparr>host_out := y\<rparr>) m tid = in_syscall s m tid"
  "in_syscall (s\<lparr>host_in := y\<rparr>) m tid = in_syscall s m tid"
  by (simp_all add: in_syscall_def lone_def settled_def current_tid_def quiet_def disk_free_def cong: option.case_cong)

lemma get_reg_Ok:
  assumes "in_syscall s m tid" "0 \<le> i" "i < 40"
  shows "get_reg i s = Ok (registers m ! nat i)"
  using in_syscallD(3,6)[OF assms(1)] assms(2,3)
  by (simp add: loadable_def get_reg_def mach_get_def ReadRegister_def NumTotalRegs_def ASSERT_def)

definition advanced :: "Machine \<Rightarrow> Machine" where
  "advanced m = m\<lparr>registers := (registers m)[36 := registers m ! 34, 34 := registers m ! 34 + 4, 35 := registers m ! 35 + 4]\<rparr>"

lemma advanced_simps [simp]:
  "mainMemory (advanced m) = mainMemory m" "frame_of (advanced m) = frame_of m" "frames_ok (advanced m) = frames_ok m"
  "rt_page_table (advanced m) = rt_page_table m"
  by (simp_all add: advanced_def frame_of_def fun_eq_iff frames_ok_def)

lemma AdvancePC_Ok:
  assumes "in_syscall s m tid"
  shows "mach_do AdvancePC s = Ok (s\<lparr>machine := Some (advanced m)\<rparr>)"
proof -
  have "length (registers m) = 40" using in_syscallD(6)[OF assms] by (simp add: loadable_def NumTotalRegs_def)
  then show ?thesis using in_syscallD(3)[OF assms]
    by (simp add: mach_do_def mach_get_def AdvancePC_def WriteRegister_def ASSERT_def reg_defs advanced_def)
qed

subsection \<open>Writing files\<close>

lemmas sc_codes = SC_Halt_def SC_Exit_def SC_Exec_def SC_Join_def SC_Create_def SC_Open_def SC_Read_def SC_Write_def
  SC_Close_def SC_Fork_def SC_Yield_def

lemma ExceptionHandler_write:
  assumes "in_syscall s m tid" "registers m ! 2 = SC_Write"
  shows "ExceptionHandler e SyscallException s = sc_write e s"
  using get_reg_Ok[OF assms(1), of 2] assms(2) by (simp add: ExceptionHandler_def sc_codes)

text \<open>C15. The system call \<open>Write\<close> on an open file refines an update of the file: with the buffer of the program in memory,
  the bytes of the file from its seek position on are replaced by those of the buffer, cut at the end of
  the file, the seek position moves on, the memory of the program stays as it is and the program
  counters advance.\<close>

theorem SC_Write_file:
  assumes s: "in_syscall s m tid" and regs: "registers m ! 2 = SC_Write" "sint (registers m ! 4) = a"
      "sint (registers m ! 5) = int (length data)" "registers m ! 6 \<noteq> 1"
    and user: "\<forall>i<length data. user_byte m tid (word_of_int (a + int i)) = Some (data ! i)" "a + int (length data) \<le> INT_MAX"
    and f: "opened s (registers m ! 6) = Some f" "file_ok (sectors s) (of_hdr f) hs ds" "0 \<le> of_seekPosition f"
      "of_seekPosition f + int (length data) \<le> INT_MAX" "sector_ok (of_hdrSector f)" "of_hdrSector f \<notin> set (hs @ ds)"
  defines "written \<equiv> take (nat (FileHeader_FileLength (of_hdr f)) - nat (of_seekPosition f)) data"
  shows "\<exists>s' f' m'. ExceptionHandler e SyscallException s = Ok s' \<and> opened s' = (opened s)(registers m ! 6 \<mapsto> f') \<and>
    of_seekPosition f' = of_seekPosition f + int (length written) \<and> file_ok (sectors s') (of_hdr f') hs ds \<and>
    file_bytes (sectors s') (of_hdr f') ds = overwrite (nat (of_seekPosition f)) written (file_bytes (sectors s) (of_hdr f) ds) \<and>
    machine s' = Some (advanced m') \<and> same_view m m'"
proof -
  let ?fd = "registers m ! 6" and ?n = "h_nest e" and ?junk = "fr_bytes (h_mem e)" and ?now = "fr_now (h_mem e)"
  have a: "- INT_MAX - 1 \<le> a" using regs(2) sint_ge[of "registers m ! 4"] by (simp add: INT_MAX_def)
  have range: "[0..sint (registers m ! 5) - 1] = map int [0..<0 + length data]" using upto_range[of 0 "length data"] regs(3) by simp
  obtain m' where fetch: "fetch_loop a (map int [0..<0 + length data]) None s = Ok (data, s\<lparr>machine := Some m'\<rparr>)" and m': "same_view m m'"
    using fetch_loop_resident[OF in_syscallD(3,4,5)[OF s], of data a 0 None] user a by auto
  let ?s1 = "s\<lparr>machine := Some m'\<rparr>"
  have s1: "in_syscall ?s1 m' tid" by (rule in_syscall_machine[OF s m'])
  have sec1: "sectors ?s1 = sectors s" by (intro ext) (simp add: sectors_def)
  have r1: "lone ?s1 \<and> settled ?s1 \<and> untouched ?s1 = untouched ?s1" using in_syscallD(1,2)[OF s1] by simp
  have nb: "nat (int (length data)) \<le> length data" "0 \<le> int (length data)" by simp_all
  define f' where "f' = f\<lparr>of_seekPosition := of_seekPosition f + int (length written),
    of_hdr := (of_hdr f)\<lparr>lastAccessTime := ?now, lastWriteTime := ?now\<rparr>\<rparr>"
  have w: "take (nat (FileHeader_FileLength (of_hdr f)) - nat (of_seekPosition f)) (take (nat (int (length data))) data) = written"
    by (simp add: written_def)
  obtain s2 where s2: "OpenFile_Write (kernel_dev ?n) ?junk ?now f data (int (length data)) ?s1 = Ok (int (length written), f', s2)"
    "lone s2 \<and> settled s2 \<and> untouched s2 = untouched ?s1" "file_ok (sectors s2) (of_hdr f') hs ds"
    "file_bytes (sectors s2) (of_hdr f') ds = overwrite (nat (of_seekPosition f)) written (file_bytes (sectors s) (of_hdr f) ds)"
    by (rule kept_disk.Write_spec[OF r1, unfolded sec1, OF f(2,3) nb(2) f(4,5,6) nb(1), of ?n ?junk ?now,
          unfolded w, folded f'_def kernel_dev_eq])
  obtain m2 where s2': "in_syscall s2 m2 tid" "same_view m' m2" and more: "kern.more s2 = kern.more ?s1"
    using in_syscall_disk(1,2)[OF s1] s2(2) by blast
  let ?s3 = "s2\<lparr>opened := (opened s2)(?fd \<mapsto> f')\<rparr>"
  have s3: "in_syscall ?s3 m2 tid" using s2'(1) by simp
  have "ExceptionHandler e SyscallException s = Ok (?s3\<lparr>machine := Some (advanced m2)\<rparr>)"
    using get_reg_Ok[OF s, of 4] get_reg_Ok[OF s, of 5] get_reg_Ok[OF s, of 6] regs f(1) fetch s2(1) AdvancePC_Ok[OF s3] range
    unfolding ExceptionHandler_write[OF s regs(1)] sc_write_def by (simp add: alloc_ok_def)
  moreover have "opened s2 = opened s" using user_more(1)[OF more] by simp
  moreover have "sectors (?s3\<lparr>machine := Some (advanced m2)\<rparr>) = sectors s2" by (intro ext) (simp add: sectors_def)
  ultimately show ?thesis using s2(3,4) same_view_trans[OF m' s2'(2)]
    by (intro exI[of _ "?s3\<lparr>machine := Some (advanced m2)\<rparr>"] exI[of _ f'] exI[of _ m2]) (simp add: f'_def)
qed

text \<open>C17. The system call \<open>Write\<close> does not restart an access to its buffer after a page fault: when the page of the first
  byte is not in memory, the fault brings the page in but the byte is never read, and the call uses a
  variable that was never assigned.\<close>

theorem SC_Write_fault:
  assumes s: "in_syscall s m tid" and regs: "registers m ! 2 = SC_Write" "0 < sint (registers m ! 5)"
    and f: "faulting s m tid (registers m ! 4) bs"
  shows "ExceptionHandler e SyscallException s = Err Uninitialised"
proof -
  let ?a = "sint (registers m ! 4)"
  obtain s' where "ReadMem page_fault (registers m ! 4) 1 s = Ok (None, s')" using ReadMem_fault[OF f] by blast
  moreover have "[0..sint (registers m ! 5) - 1] = 0 # [1..sint (registers m ! 5) - 1]" using regs(2) by (simp add: upto_rec1)
  moreover have "c_add ?a 0 = Ok ?a" using sint_ge[of "registers m ! 4"] sint_lt[of "registers m ! 4"] by (simp add: c_add_def INT_MAX_def)
  ultimately have "fetch_loop ?a [0..sint (registers m ! 5) - 1] None s = Err Uninitialised" by simp
  then show ?thesis
    using get_reg_Ok[OF s, of 4] get_reg_Ok[OF s, of 5] get_reg_Ok[OF s, of 6] regs(2)
    unfolding ExceptionHandler_write[OF s regs(1)] sc_write_def by (simp add: alloc_ok_def)
qed

subsection \<open>A user thread\<close>

text \<open>The kernel after start-up with one user thread: page 7 of its address space of 16 pages is in the first frame of memory,
  changed since it was read in, all others are on its virtual disk; the open file 2 is the file of sectors 6 and 7.\<close>

definition user_machine :: "u32 \<Rightarrow> u32 \<Rightarrow> u32 \<Rightarrow> u32 \<Rightarrow> Machine" where
  "user_machine r2 r4 r5 r6 = \<lparr>mainMemory = [65, 66, 67] @ replicate 4093 0,
     rt_page_table = map (\<lambda>i. \<lparr>virtualPage = 7, physicalPage = word_of_nat i, valid = (i = 0),
       readOnly = False, use = False, dirty = (i = 0), LRU = -1, rt_tid = 0\<rparr>) [0..<32],
     registers = (replicate 40 0)[2 := r2, 4 := r4, 5 := r5, 6 := r6], memoryBitmap = replicate 32 False, tlb = None,
     tlbTimes = 0, tlbHits = 0, tlbsize = 0, pageTable = NullTable, pageTableSize = 0, singleStep = False, runUntilTime = 0\<rparr>"

definition user_disk :: "byte list" where
  "user_disk = [9, 8, 7] @ replicate 2045 0"

definition user_thread :: Thread where
  "user_thread = \<lparr>th_start = None, th_uid = 0, th_tid = 0, th_priority = 255, th_stack = None, th_status = RUNNING,
     th_name = ''user'', th_userRegisters = replicate 40 0, th_space = Some 10\<rparr>"

definition user_state :: "Machine \<Rightarrow> user_kern" where
  "user_state m = kern.extend (booted\<lparr>machine := Some m, threads := [currentThread booted \<mapsto> user_thread],
       thread_poiners := Some (currentThread booted) # replicate 127 None,
       spaces := [10 \<mapsto> \<lparr>as_disk = Some 11, as_pageTable = WildTable, as_numPages = 16\<rparr>],
       vdisks := [11 \<mapsto> user_disk], random_src := (\<lambda>_. 0)\<rparr>)
     (user_kern.fields (fresh_fs (sectors booted)) Map.empty [2 \<mapsto> sample_file] Map.empty 3 [] [])"

lemma user_machine_simps:
  "registers (user_machine r2 r4 r5 r6) ! 2 = r2" "registers (user_machine r2 r4 r5 r6) ! 4 = r4"
  "registers (user_machine r2 r4 r5 r6) ! 5 = r5" "registers (user_machine r2 r4 r5 r6) ! 6 = r6"
  "registers (user_machine r2 r4 r5 r6) ! 37 = 0" "registers (user_machine r2 r4 r5 r6) ! 38 = 0"
  "registers (user_machine r2 r4 r5 r6) ! 0 = 0" "length (registers (user_machine r2 r4 r5 r6)) = 40"
  "tlb (user_machine r2 r4 r5 r6) = None" "mainMemory (user_machine r2 r4 r5 r6) = [65, 66, 67] @ replicate 4093 0"
  by (simp_all add: user_machine_def)

lemma user_state_simps:
  "machine (user_state m) = Some m" "current_tid (user_state m) = Ok 0" "random_src (user_state m) n = 0"
  "opened (user_state m) = [2 \<mapsto> sample_file]" "sectors (user_state m) = sectors booted"
  "vdisk_of 0 (user_state m) = Ok (11, user_disk)" "vdisk_of t (user_state m) = Ok (d, bs) \<Longrightarrow> t = 0"
  by (auto simp: user_state_def kern.defs user_kern.defs current_tid_def user_thread_def sectors_def vdisk_of_def result_simps
      nth_Cons' aget_def the_nonnull_def the_ptr_def split: if_splits)

lemma lone_user_state:
  assumes "loadable (Some m)"
  shows "lone (user_state m)"
proof -
  have "quiet booted" "0 \<le> totalTicks (stats booted)" "readyList booted = []" "threadToBeDestroyed booted = None" "disk_free booted"
    using lone_booted by (simp_all add: lone_def)
  moreover from this have "quiet (user_state m)" "disk_free (user_state m)"
    by (simp_all add: user_state_def kern.defs quiet_def disk_free_def cong: option.case_cong)
  ultimately show ?thesis using assms
    by (simp add: lone_def user_state_def kern.defs thread_ready_def user_thread_def NumTotalRegs_def loadable_def)
qed

lemma user_in_syscall: "in_syscall (user_state (user_machine r2 r4 r5 r6)) (user_machine r2 r4 r5 r6) 0"
proof -
  let ?m = "user_machine r2 r4 r5 r6"
  have l: "loadable (Some ?m)" by (simp add: loadable_def user_machine_simps NumTotalRegs_def)
  have "(registers ?m)[i := 0] = registers ?m" if "registers ?m ! i = 0" for i
    using list_update_id[of "registers ?m" i] that by simp
  then have "settle ?m = ?m" unfolding settle_explicit[OF l] registers_idem by (simp add: user_machine_simps)
  moreover have "frames_ok ?m" by (simp add: frames_ok_def user_machine_def mem_defs)
  ultimately show ?thesis
    using lone_user_state[OF l] by (simp add: in_syscall_def settled_def user_state_simps)
qed

lemma user_frame:
  "frame_of (user_machine r2 r4 r5 r6) v 0 = (if v = 7 then Some 0 else None)"
proof (cases "v = 7")
  case True
  then show ?thesis by (simp add: frame_of_def maps_def user_machine_def upt_rec[of 0])
next
  case False
  then show ?thesis by (auto simp: frame_of_None maps_def user_machine_def)
qed

lemma user_coherent: "coherent (user_state (user_machine r2 r4 r5 r6)) (user_machine r2 r4 r5 r6)"
proof -
  let ?m = "user_machine r2 r4 r5 r6"
  have "vm_has (user_state ?m) 0 7" by (simp add: vm_has_def user_state_simps has_page_def user_disk_def)
  moreover have "rt_page_table ?m ! i = \<lparr>virtualPage = 7, physicalPage = word_of_nat i, valid = (i = 0),
       readOnly = False, use = False, dirty = (i = 0), LRU = -1, rt_tid = 0\<rparr>" if "i < 32" for i
    using that by (simp add: user_machine_def)
  ultimately show ?thesis unfolding coherent_def Let_def by (auto dest!: user_state_simps(7))
qed

lemma user_faulting: "faulting (user_state (user_machine r2 r4 r5 r6)) (user_machine r2 r4 r5 r6) 0 2 user_disk"
  using in_syscallD[OF user_in_syscall] user_coherent
  by (simp add: faulting_def user_state_simps user_frame user_machine_simps has_page_def) (simp add: user_disk_def)

definition plain_host :: host where
  "plain_host = \<lparr>h_nest = 0, h_mem = zero_memory, h_regs = replicate 40 0, h_hdr = replicate 40 0,
     h_space = \<lparr>as_disk = None, as_pageTable = NullTable, as_numPages = 0\<rparr>, h_scan = (\<lambda>_. None), h_lines = (\<lambda>_. [])\<rparr>"

theorem page_fault_retry_witness:
  "\<exists>s' m' s''. ReadMem (ExceptionHandler plain_host) 2 1 (user_state (user_machine 0 0 0 0)) = Ok (None, s') \<and> machine s' = Some m' \<and>
    ReadMem (ExceptionHandler plain_host) 2 1 s' = Ok (Some 7, s'')"
  using page_fault_retry[OF user_faulting, of plain_host 0 0 0 0] by (auto simp: user_disk_def)

theorem SC_Write_fault_witness:
  "ExceptionHandler plain_host SyscallException (user_state (user_machine SC_Write 2 3 2)) = Err Uninitialised"
  using SC_Write_fault[OF user_in_syscall, of SC_Write 2 3 2 user_disk plain_host] user_faulting by (simp add: user_machine_simps)

lemma user_bytes:
  assumes "i < 3"
  shows "user_byte (user_machine r2 r4 r5 r6) 0 (word_of_int (896 + int i)) = Some ([65, 66, 67] ! i)"
proof -
  have "i = 0 \<or> i = 1 \<or> i = 2" using assms by auto
  then show ?thesis by (elim disjE) (simp_all add: user_byte_def user_frame phys_def user_machine_simps)
qed

theorem SC_Write_file_witness:
  "\<exists>s' f'. ExceptionHandler plain_host SyscallException (user_state (user_machine SC_Write 896 3 2)) = Ok s' \<and>
    opened s' 2 = Some f' \<and> of_seekPosition f' = 103 \<and>
    file_bytes (sectors s') (of_hdr f') [6, 7] = overwrite 100 [65, 66, 67] (replicate 200 0)"
proof -
  let ?m = "user_machine SC_Write 896 3 2"
  have "\<forall>i<length [65, 66, 67 :: byte]. user_byte ?m 0 (word_of_int (896 + int i)) = Some ([65, 66, 67] ! i)"
    using user_bytes by simp
  moreover have "of_seekPosition sample_file = 100" "of_hdrSector sample_file = 5" by (simp_all add: sample_file_def)
  ultimately show ?thesis
    using SC_Write_file[OF user_in_syscall, of SC_Write 896 3 2 896 "[65, 66, 67]" sample_file "[]" "[6, 7]" plain_host]
    by (auto simp: user_machine_simps user_state_simps sample_file_ok sample_file_bytes INT_MAX_def sector_ok_def disk_defs)
qed

end
