(* ===== verification/Context_Switch.thy ===== *)
theory Context_Switch
  imports Prelude
begin

text \<open>
  The context switch of src/threads/switch.s for the i386, with the offsets of src/threads/switch.h. The processor is its
  registers and a memory of words, of which the code uses the two thread objects, the top of the
  two stacks and the variable \<open>_eax_save\<close>. The code is a list of instructions, run one after the
  other up to \<open>ret\<close>.
\<close>

subsection \<open>The processor\<close>

datatype reg = EAX | EBX | ECX | EDX | ESI | EDI | EBP | ESP

record cpu =
  regs :: "reg \<Rightarrow> u32"
  eip :: u32
  mem :: "u32 \<Rightarrow> u32"

text \<open>\<open>Put r d b\<close> is \<open>movl %r,d(%b)\<close> and \<open>Get d b r\<close> is \<open>movl d(%b),%r\<close>; the last two use \<open>_eax_save\<close>.\<close>

datatype instr = Put reg u32 reg | Get u32 reg reg | PutSave reg | GetSave reg | Ret

fun exec1 :: "u32 \<Rightarrow> instr \<Rightarrow> cpu \<Rightarrow> cpu" where
  "exec1 sv (Put r d b) c = c\<lparr>mem := (mem c)(regs c b + d := regs c r)\<rparr>"
| "exec1 sv (Get d b r) c = c\<lparr>regs := (regs c)(r := mem c (regs c b + d))\<rparr>"
| "exec1 sv (PutSave r) c = c\<lparr>mem := (mem c)(sv := regs c r)\<rparr>"
| "exec1 sv (GetSave r) c = c\<lparr>regs := (regs c)(r := mem c sv)\<rparr>"
| "exec1 sv Ret c = c\<lparr>eip := mem c (regs c ESP), regs := (regs c)(ESP := regs c ESP + 4)\<rparr>"

definition run_code :: "u32 \<Rightarrow> instr list \<Rightarrow> cpu \<Rightarrow> cpu" where
  "run_code sv is c = fold (exec1 sv) is c"

lemma run_code_simps [simp]: "run_code sv [] c = c" "run_code sv (i # is) c = run_code sv is (exec1 sv i c)"
  by (simp_all add: run_code_def)

subsection \<open>SWITCH\<close>

text \<open>The place of a register in the thread object.\<close>

fun slot :: "reg \<Rightarrow> u32" where
  "slot ESP = 0" | "slot EAX = 4" | "slot EBX = 8" | "slot ECX = 12" | "slot EDX = 16" | "slot EBP = 20"
| "slot ESI = 24" | "slot EDI = 28"

definition slot_PC :: u32 where "slot_PC = 32"

definition switch_save :: "instr list" where
  "switch_save =
     [PutSave EAX, Get 4 ESP EAX, Put EBX (slot EBX) EAX, Put ECX (slot ECX) EAX, Put EDX (slot EDX) EAX,
      Put ESI (slot ESI) EAX, Put EDI (slot EDI) EAX, Put EBP (slot EBP) EAX, Put ESP (slot ESP) EAX,
      GetSave EBX, Put EBX (slot EAX) EAX, Get 0 ESP EBX, Put EBX slot_PC EAX]"

definition switch_load :: "instr list" where
  "switch_load =
     [Get 8 ESP EAX, Get (slot EAX) EAX EBX, PutSave EBX, Get (slot EBX) EAX EBX, Get (slot ECX) EAX ECX,
      Get (slot EDX) EAX EDX, Get (slot ESI) EAX ESI, Get (slot EDI) EAX EDI, Get (slot EBP) EAX EBP,
      Get (slot ESP) EAX ESP, Get slot_PC EAX EAX, Put EAX 4 ESP, GetSave EAX, Ret]"

definition SWITCH :: "u32 \<Rightarrow> cpu \<Rightarrow> cpu" where
  "SWITCH sv c = run_code sv switch_load (run_code sv switch_save c)"

text \<open>The words of a thread object that \<open>SWITCH\<close> uses, and a context that lies there.\<close>

definition save_area :: "u32 \<Rightarrow> u32 set" where
  "save_area t = insert (t + slot_PC) (range (\<lambda>r. t + slot r))"

definition saved_in :: "(u32 \<Rightarrow> u32) \<Rightarrow> u32 \<Rightarrow> (reg \<Rightarrow> u32) \<Rightarrow> u32 \<Rightarrow> bool" where
  "saved_in m t rs pc \<longleftrightarrow> m (t + slot_PC) = pc \<and> (\<forall>r. m (t + slot r) = rs r)"

lemma save_area_simps: "save_area t = {t + 32, t, t + 4, t + 8, t + 12, t + 16, t + 20, t + 24, t + 28}"
proof -
  have "range (\<lambda>r. t + slot r) = (\<lambda>r. t + slot r) ` {EAX, EBX, ECX, EDX, ESI, EDI, EBP, ESP}"
    by (rule arg_cong[where f = "image _"]) (auto intro: reg.exhaust)
  then show ?thesis by (auto simp: save_area_def slot_PC_def)
qed

lemma all_reg: "(\<forall>r. P r) \<longleftrightarrow> P EAX \<and> P EBX \<and> P ECX \<and> P EDX \<and> P ESI \<and> P EDI \<and> P EBP \<and> P ESP"
  by (metis reg.exhaust)

lemma saved_in_cong: "saved_in m t rs pc \<Longrightarrow> \<forall>a\<in>save_area t. m' a = m a \<Longrightarrow> saved_in m' t rs pc"
  by (simp add: saved_in_def save_area_def)

lemma switch_save_spec:
  fixes sv :: u32
  defines "t c \<equiv> mem c (regs c ESP + 4)"
  assumes "sv \<notin> save_area (t c)" "regs c ESP \<notin> save_area (t c)" "sv \<noteq> regs c ESP" "sv \<noteq> regs c ESP + 4"
  shows "saved_in (mem (run_code sv switch_save c)) (t c) (regs c) (mem c (regs c ESP))"
    "regs (run_code sv switch_save c) ESP = regs c ESP"
    "a \<notin> save_area (t c) \<Longrightarrow> a \<noteq> sv \<Longrightarrow> mem (run_code sv switch_save c) a = mem c a"
  using assms(2-) by (simp_all add: saved_in_def switch_save_def save_area_simps all_reg slot_PC_def t_def)

lemma switch_load_spec:
  assumes u: "mem c (regs c ESP + 8) = u" and saved: "saved_in (mem c) u rs pc"
    and sv: "sv \<notin> save_area u" "sv \<noteq> rs ESP" "sv \<noteq> rs ESP + 4"
  shows "regs (run_code sv switch_load c) = rs(ESP := rs ESP + 4)" "eip (run_code sv switch_load c) = mem c (rs ESP)"
    "a \<noteq> sv \<Longrightarrow> a \<noteq> rs ESP + 4 \<Longrightarrow> mem (run_code sv switch_load c) a = mem c a"
proof -
  have n: "u + 32 \<noteq> sv" "u \<noteq> sv" "u + 4 \<noteq> sv" "u + 8 \<noteq> sv" "u + 12 \<noteq> sv" "u + 16 \<noteq> sv" "u + 20 \<noteq> sv" "u + 24 \<noteq> sv" "u + 28 \<noteq> sv"
    "rs ESP \<noteq> sv" "rs ESP + 4 \<noteq> sv"
    using sv by (auto simp: save_area_simps)
  have r: "mem c (u + 32) = pc" "mem c u = rs ESP" "mem c (u + 4) = rs EAX" "mem c (u + 8) = rs EBX" "mem c (u + 12) = rs ECX"
    "mem c (u + 16) = rs EDX" "mem c (u + 20) = rs EBP" "mem c (u + 24) = rs ESI" "mem c (u + 28) = rs EDI"
    using saved by (simp_all add: saved_in_def all_reg slot_PC_def)
  show "regs (run_code sv switch_load c) = rs(ESP := rs ESP + 4)"
    using n r u sv(3) by (simp add: switch_load_def slot_PC_def fun_eq_iff all_reg)
  show "eip (run_code sv switch_load c) = mem c (rs ESP)"
    using n r u sv by (simp add: switch_load_def slot_PC_def)
  show "mem (run_code sv switch_load c) a = mem c a" if "a \<noteq> sv" "a \<noteq> rs ESP + 4"
    using that n r u by (simp add: switch_load_def slot_PC_def)
qed

text \<open>What \<open>SWITCH\<close> relies on: the thread objects, the words at the tops of the two stacks and \<open>_eax_save\<close> do not overlap.\<close>

definition switch_ok :: "u32 \<Rightarrow> cpu \<Rightarrow> bool" where
  "switch_ok sv c \<longleftrightarrow>
     (let e = regs c ESP; t = mem c (e + 4); u = mem c (e + 8); top = mem c (u + slot ESP)
      in save_area t \<inter> save_area u = {} \<and> sv \<notin> save_area t \<union> save_area u \<and> sv \<notin> {e, e + 4, e + 8, top, top + 4} \<and>
         e \<notin> save_area t \<and> e + 8 \<notin> save_area t \<and> top \<notin> save_area t \<and> top + 4 \<notin> save_area t)"

text \<open>C32. A thread that is switched out goes on where it was: after \<open>SWITCH\<close> from thread \<open>t\<close>, whenever another thread calls
  \<open>SWITCH\<close> with \<open>t\<close> as the new thread, and nothing has touched the object of \<open>t\<close> and its return address in
  between, control returns to where \<open>t\<close> called \<open>SWITCH\<close>, with all its registers and its stack pointer as at
  the call.\<close>

theorem SWITCH_resumes:
  assumes "switch_ok sv c" "switch_ok sv c'"
    and "mem c' (regs c' ESP + 8) = mem c (regs c ESP + 4)"
    and "\<forall>a\<in>save_area (mem c (regs c ESP + 4)). mem c' a = mem (SWITCH sv c) a"
    and "mem c' (regs c ESP) = mem c (regs c ESP)"
  shows "regs (SWITCH sv c') = (regs c)(ESP := regs c ESP + 4) \<and> eip (SWITCH sv c') = mem c (regs c ESP)"
proof -
  define e t u top where d: "e = regs c ESP" "t = mem c (e + 4)" "u = mem c (e + 8)" "top = mem c (u + slot ESP)"
  have ok: "save_area t \<inter> save_area u = {}" "sv \<notin> save_area t \<union> save_area u" "sv \<notin> {e, e + 4, e + 8, top, top + 4}"
    "e \<notin> save_area t" "e + 8 \<notin> save_area t" "top \<notin> save_area t" "top + 4 \<notin> save_area t"
    using assms(1) unfolding switch_ok_def Let_def d by blast+
  define e' t' where d': "e' = regs c' ESP" "t' = mem c' (e' + 4)"
  have ok': "save_area t' \<inter> save_area t = {}" "sv \<notin> save_area t' \<union> save_area t" "sv \<notin> {e', e' + 4, e' + 8, mem c' t, mem c' t + 4}"
    "e' \<notin> save_area t'" "e' + 8 \<notin> save_area t'" "mem c' t \<notin> save_area t'" "mem c' t + 4 \<notin> save_area t'"
    using assms(2,3) unfolding switch_ok_def Let_def d d' by simp_all
  let ?c1 = "run_code sv switch_save c" and ?c2 = "run_code sv switch_save c'"
  have keep1: "mem ?c1 a = mem c a" if "a \<notin> save_area t" "a \<noteq> sv" for a
    using switch_save_spec(3)[of sv c a] ok that unfolding d by auto
  have u1: "mem ?c1 (regs ?c1 ESP + 8) = u" "mem ?c1 u = top"
    using switch_save_spec(2)[of sv c] keep1[of "e + 8"] keep1[of u] ok unfolding d by (auto simp: save_area_simps)
  have "mem (SWITCH sv c) a = mem ?c1 a" if "a \<in> save_area t" for a
    unfolding SWITCH_def using that ok u1(2)
    by (intro switch_load_spec(3)[OF u1(1), of "\<lambda>r. mem ?c1 (u + slot r)" "mem ?c1 (u + slot_PC)"]) (auto simp: saved_in_def)
  moreover have "saved_in (mem ?c1) t (regs c) (mem c e)" using switch_save_spec(1)[of sv c] ok unfolding d by auto
  ultimately have s: "saved_in (mem c') t (regs c) (mem c e)"
    using assms(4) unfolding d by (elim saved_in_cong) auto
  then have e: "mem c' t = e" by (auto simp: saved_in_def d dest!: spec[of _ ESP])
  have keep2: "mem ?c2 a = mem c' a" if "a \<notin> save_area t'" "a \<noteq> sv" for a
    using switch_save_spec(3)[of sv c' a] ok' that unfolding d' by auto
  then have s': "saved_in (mem ?c2) t (regs c) (mem c e)" using ok' by (intro saved_in_cong[OF s]) auto
  have "mem ?c2 (regs ?c2 ESP + 8) = t" "mem ?c2 e = mem c e"
    using switch_save_spec(2,3)[of sv c'] ok' assms(3,5) e unfolding d d' by auto
  then show ?thesis
    using switch_load_spec(1,2)[OF _ s', of sv] ok'(2,3) e unfolding SWITCH_def d by auto
qed

text \<open>A thread at 100 switches to the one at 200, which later switches back.\<close>

definition switching_out :: cpu where
  "switching_out = \<lparr>regs = (\<lambda>r. 7 + slot r)(ESP := 1000), eip = 50,
     mem = (\<lambda>_. 0)(1000 := 77, 1004 := 100, 1008 := 200, 200 := 2000, 2000 := 60)\<rparr>"

definition switching_back :: cpu where
  "switching_back = (let c = SWITCH 5000 switching_out in
     c\<lparr>regs := (\<lambda>_. 9)(ESP := 3000), mem := (mem c)(3000 := 88, 3004 := 200, 3008 := 100)\<rparr>)"

theorem SWITCH_resumes_witness:
  "switch_ok 5000 switching_out \<and> switch_ok 5000 switching_back \<and> eip (SWITCH 5000 switching_out) = 60 \<and>
   regs (SWITCH 5000 switching_back) = (\<lambda>r. 7 + slot r)(ESP := 1004) \<and> eip (SWITCH 5000 switching_back) = 77"
proof -
  have out: "switch_ok 5000 switching_out" "eip (SWITCH 5000 switching_out) = 60"
    by (simp_all add: switch_ok_def save_area_simps switching_out_def SWITCH_def switch_save_def switch_load_def slot_PC_def)
  have back': "switch_ok 5000 switching_back"
    by (simp add: switch_ok_def Let_def save_area_simps switching_back_def switching_out_def SWITCH_def switch_save_def switch_load_def slot_PC_def)
  have args: "mem switching_back (regs switching_back ESP + 8) = 100" "mem switching_back 1000 = 77"
    "\<forall>a\<in>save_area 100. mem switching_back a = mem (SWITCH 5000 switching_out) a"
    by (simp_all add: Let_def save_area_simps switching_back_def switching_out_def SWITCH_def switch_save_def switch_load_def slot_PC_def)
  have "regs switching_out = (\<lambda>r. 7 + slot r)(ESP := 1000)" "mem switching_out 1004 = 100" "mem switching_out 1000 = 77"
    by (simp_all add: switching_out_def)
  then show ?thesis using SWITCH_resumes[OF out(1) back'] args out back' by (simp add: fun_upd_upd)
qed

end
