(* ===== verification/Device_Waits.thy ===== *)
theory Device_Waits
  imports Synch_Disk "HOL-Library.Multiset"
begin

text \<open>
  Waiting for devices. A device that polls keeps an interrupt pending all the time, and several
  interrupts may fall due while a thread runs or sleeps. What a device promises is an invariant of
  the state that each of its interrupt handlers keeps (\<open>device_invariant\<close>); the lemmas here carry
  such an invariant through ticks, through the idle loop and through a wait on a semaphore.
\<close>

subsection \<open>Interrupts that keep an invariant\<close>

declare mset_kl_insert [simp]

text \<open>Nothing is due, and no handler runs or has asked for a time slice to end.\<close>

definition calm :: "'a hw_scheme \<Rightarrow> bool" where
  "calm s \<longleftrightarrow> pending_ok s \<and> due s = 0 \<and> \<not> inHandler (intr s) \<and> \<not> yieldOnReturn (intr s)"

text \<open>The invariant may depend on which interrupts are pending, not on their order, the clock or the level.\<close>

locale device_invariant = interrupt_handlers cb for cb :: "'a hw_scheme callbacks" +
  fixes Q :: "'a hw_scheme \<Rightarrow> bool"
  assumes frame: "Q s \<Longrightarrow> mset (pending i) = mset (pending (intr s)) \<Longrightarrow> Q (s\<lparr>intr := i, stats := st\<rparr>)"
    and load: "Q (upd_intr (pending_update (\<lambda>_. ps)) s) \<Longrightarrow>
      \<exists>s'. cb_delayed_load cb s = Ok s' \<and> Q (upd_intr (pending_update (\<lambda>_. ps)) s')"
    and handle: "Q (upd_intr (pending_update (\<lambda>_. (k, p) # pending (intr s))) s) \<Longrightarrow> level (intr s) = IntOff \<Longrightarrow>
      inHandler (intr s) \<Longrightarrow> pi_type p \<noteq> TimerInt \<and>
      (\<exists>s'. cb_handler cb p s = Ok s' \<and> Q s' \<and> yieldOnReturn (intr s') = yieldOnReturn (intr s))"
begin

lemma frame_intr: "Q s \<Longrightarrow> mset (pending (f (intr s))) = mset (pending (intr s)) \<Longrightarrow> Q (upd_intr f s)"
  using frame[of s "f (intr s)" "stats s"] by (simp add: upd_intr_def)

lemma frame_stats: "Q s \<Longrightarrow> Q (upd_stats f s)"
  using frame[of s "intr s" "f (stats s)"] by (simp add: upd_stats_def)

lemma fire_keeps:
  assumes q: "Q s" "pending (intr s) = (k, p) # rest" and l: "level (intr s) = IntOff"
  shows "\<exists>s'. fire cb old k p (upd_intr (pending_update (\<lambda>_. rest)) s) = Ok (True, s') \<and> Q s' \<and>
    yieldOnReturn (intr s') = yieldOnReturn (intr s) \<and> \<not> inHandler (intr s')"
proof -
  define t where "t = upd_intr (pending_update (\<lambda>_. rest)) s"
  have "upd_intr (pending_update (\<lambda>_. (k, p) # rest)) t = s" using q(2) by (simp add: t_def upd_intr_def)
  then obtain u where u: "cb_delayed_load cb t = Ok u" "Q (upd_intr (pending_update (\<lambda>_. (k, p) # rest)) u)"
    using load[of "(k, p) # rest" t] q(1) by auto
  have intr: "intr u = intr t" using delayed_load[OF u(1)] by simp
  define v where "v = setStatus SystemMode (upd_intr (inHandler_update (\<lambda>_. True)) u)"
  have "upd_intr (pending_update (\<lambda>_. (k, p) # pending (intr v))) v =
      upd_intr (\<lambda>i. i\<lparr>inHandler := True, mstatus := SystemMode\<rparr>) (upd_intr (pending_update (\<lambda>_. (k, p) # rest)) u)"
    using intr by (simp add: v_def t_def setStatus_def upd_intr_def)
  moreover have "Q (upd_intr (\<lambda>i. i\<lparr>inHandler := True, mstatus := SystemMode\<rparr>) (upd_intr (pending_update (\<lambda>_. (k, p) # rest)) u))"
    using u(2) by (rule frame_intr) simp
  ultimately have "Q (upd_intr (pending_update (\<lambda>_. (k, p) # pending (intr v))) v)" by simp
  moreover have "level (intr v) = IntOff" "inHandler (intr v)" using l intr by (simp_all add: v_def t_def)
  ultimately obtain w where w: "pi_type p \<noteq> TimerInt" "cb_handler cb p v = Ok w" "Q w" "yieldOnReturn (intr w) = yieldOnReturn (intr v)"
    using handle by blast
  have "Q (upd_intr (inHandler_update (\<lambda>_. False)) (setStatus old w))"
    unfolding setStatus_def using w(3) by (auto intro!: frame_intr)
  then show ?thesis using u(1) w intr by (simp add: fire_def t_def v_def Let_def)
qed

lemma due_loop_keeps:
  assumes "pending_ok s" "level (intr s) = IntOff" "\<not> inHandler (intr s)" "Q s"
  shows "\<exists>s'. due_loop cb s = Some (Ok s') \<and> Q s' \<and> yieldOnReturn (intr s') = yieldOnReturn (intr s) \<and>
    \<not> inHandler (intr s') \<and> due s' = 0"
  using assms
proof (induction "due s" arbitrary: s rule: less_induct)
  case less
  show ?case
  proof (cases "pending (intr s)")
    case Nil
    then show ?thesis using less.prems by (auto simp: due_loop.simps[of cb s] CheckIfDue_def due_def)
  next
    case (Cons kp rest)
    obtain k p where kp: "kp = (k, p)" by (cases kp)
    note tl = pending_ok_tl[OF less.prems(1) Cons[unfolded kp]]
    show ?thesis
    proof (cases "totalTicks (stats s) < k")
      case True
      let ?t = "upd_intr (pending_update (kl_insert p k)) (upd_intr (pending_update (\<lambda>_. rest)) s)"
      have "Q ?t"
        using frame_intr[OF less.prems(4), of "\<lambda>i. i\<lparr>pending := kl_insert p k rest\<rparr>"] Cons kp by (simp add: upd_intr_def comp_def)
      moreover have "due ?t = 0" using True tl(3) unfolding due_insert by (auto simp: due_def filter_empty_conv)
      ultimately show ?thesis using True Cons kp less.prems(2,3)
        by (auto simp: due_loop.simps[of cb s] CheckIfDue_def Let_def)
    next
      case False
      obtain t where t: "fire cb (mstatus (intr s)) k p (upd_intr (pending_update (\<lambda>_. rest)) s) = Ok (True, t)" "Q t"
        "yieldOnReturn (intr t) = yieldOnReturn (intr s)" "\<not> inHandler (intr t)"
        using fire_keeps[OF less.prems(4) Cons[unfolded kp] less.prems(2)] by blast
      have c: "CheckIfDue cb False s = Ok (True, t)"
        using False t(1) Cons kp less.prems(2) by (simp add: CheckIfDue_def Let_def)
      note spec = CheckIfDue_False_spec[OF less.prems(1) c]
      obtain s' where "due_loop cb t = Some (Ok s')" "Q s'" "yieldOnReturn (intr s') = yieldOnReturn (intr t)"
        "\<not> inHandler (intr s')" "due s' = 0"
        using less.hyps[of t] spec t(2,4) by auto
      then show ?thesis using c t(3) by (auto simp: due_loop.simps[of cb s])
    qed
  qed
qed

lemma run_due_keeps:
  assumes "pending_ok s" "level (intr s) = IntOff" "\<not> inHandler (intr s)" "Q s"
  shows "\<exists>s'. run_due cb s = Ok s' \<and> Q s' \<and> calm s' = (\<not> yieldOnReturn (intr s)) \<and> level (intr s') = IntOff \<and>
    clock s' = clock s \<and> mstatus (intr s') = mstatus (intr s)"
proof -
  obtain s' where s': "due_loop cb s = Some (Ok s')" "Q s'" "yieldOnReturn (intr s') = yieldOnReturn (intr s)"
    "\<not> inHandler (intr s')" "due s' = 0"
    using due_loop_keeps[OF assms] by blast
  then have "run_due cb s = Ok s'" by (simp add: run_due_def)
  with run_due_spec[OF assms(1,2) this] s' show ?thesis by (auto simp: calm_def)
qed

text \<open>Turning interrupts on takes a tick, after which nothing is due.\<close>

lemma SetLevel_on_keeps:
  assumes "pending_ok s" "level (intr s) = IntOff" "\<not> inHandler (intr s)" "\<not> yieldOnReturn (intr s)" "mstatus (intr s) = SystemMode" "Q s"
  shows "\<exists>s'. SetLevel cb IntOn s = Ok (IntOff, s') \<and> Q s' \<and> calm s' \<and> level (intr s') = IntOn \<and>
    mstatus (intr s') = SystemMode \<and> totalTicks (stats s') = totalTicks (stats s) + SystemTick"
proof -
  define t where "t = ChangeLevel IntOn IntOff (advance_ticks (ChangeLevel IntOff IntOn s))"
  have "Q t" unfolding t_def ChangeLevel_def advance_ticks_def
    using assms(6) by (auto intro!: frame_intr frame_stats)
  moreover have t: "pending_ok t" "level (intr t) = IntOff" "\<not> inHandler (intr t)" "\<not> yieldOnReturn (intr t)"
    "mstatus (intr t) = SystemMode" "totalTicks (stats t) = totalTicks (stats s) + SystemTick"
    using assms by (simp_all add: t_def advance_ticks_def pending_ok_def)
  ultimately obtain u where u: "run_due cb t = Ok u" "Q u" "calm u" "level (intr u) = IntOff" "clock u = clock t"
    "mstatus (intr u) = mstatus (intr t)"
    using run_due_keeps[of t] by auto
  define v where "v = ChangeLevel IntOff IntOn u"
  have "Q v" unfolding v_def ChangeLevel_def using u(2) by (auto intro!: frame_intr)
  moreover have "calm v" "level (intr v) = IntOn" "mstatus (intr v) = SystemMode" "\<not> yieldOnReturn (intr v)"
    using u t by (simp_all add: v_def calm_def pending_ok_def due_def)
  moreover have "totalTicks (stats v) = totalTicks (stats s) + SystemTick" using u(5) t(6) by (simp add: v_def clock_def)
  moreover have "SetLevel cb IntOn s = Ok (IntOff, v)"
    using assms(2,3) u(1,3) by (simp add: calm_def SetLevel_def OneTick_def Let_def t_def[symmetric] v_def[symmetric])
  ultimately show ?thesis by blast
qed

lemma Idle_keeps:
  assumes "calm s" "level (intr s) = IntOff" "pending (intr s) \<noteq> []" "Q s"
  shows "\<exists>s'. Idle cb s = Ok s' \<and> Q s' \<and> calm s' \<and> level (intr s') = IntOff \<and> mstatus (intr s') = SystemMode \<and>
    totalTicks (stats s) < totalTicks (stats s')"
proof -
  obtain k p rest where p: "pending (intr s) = (k, p) # rest" using assms(3) by (cases "pending (intr s)") auto
  have now: "totalTicks (stats s) < k" using assms(1) p by (auto simp: calm_def due_def split: if_splits)
  define t where "t = upd_stats (\<lambda>st. st\<lparr>idleTicks := idleTicks st + (k - totalTicks (stats s)), totalTicks := k\<rparr>) (setStatus IdleMode s)"
  have "Q t" unfolding t_def setStatus_def using assms(4) by (auto intro!: frame_intr frame_stats)
  moreover have tp: "pending (intr t) = (k, p) # rest" "level (intr t) = IntOff" using p assms(2) by (simp_all add: t_def)
  ultimately obtain u where u: "fire cb IdleMode k p (upd_intr (pending_update (\<lambda>_. rest)) t) = Ok (True, u)" "Q u"
    "yieldOnReturn (intr u) = yieldOnReturn (intr t)" "\<not> inHandler (intr u)"
    using fire_keeps by blast
  have ok: "pending_ok t" "k = pi_when p" using assms(1) p by (auto simp: calm_def t_def pending_ok_def)
  have "upd_intr (pending_update (\<lambda>_. rest)) t = upd_stats (\<lambda>st. st\<lparr>idleTicks := idleTicks st + (k - totalTicks (stats s)), totalTicks := k\<rparr>)
      (upd_intr (pending_update (\<lambda>_. rest)) (setStatus IdleMode s))"
    by (simp add: t_def upd_intr_def upd_stats_def)
  then have c: "CheckIfDue cb True (setStatus IdleMode s) = Ok (True, u)"
    using assms(2) p now u(1) by (simp add: CheckIfDue_def Let_def)
  have spec: "level (intr u) = IntOff" "clock u = clock t" "pending_ok u"
    using fire_spec[OF pending_ok_tl(2)[OF ok(1) tp(1)] _ ok(2) u(1)] tp(2) by (auto simp: clock_def)
  obtain v where v: "run_due cb u = Ok v" "Q v" "calm v = (\<not> yieldOnReturn (intr u))" "level (intr v) = IntOff" "clock v = clock u"
    using run_due_keeps[OF spec(3,1) u(4,2)] by blast
  define w where "w = setStatus SystemMode (upd_intr (yieldOnReturn_update (\<lambda>_. False)) v)"
  have "Q w" unfolding w_def setStatus_def using v(2) by (auto intro!: frame_intr)
  moreover have "calm v" using v(3) u(3) assms(1) by (simp add: t_def calm_def)
  then have "calm w" by (simp add: w_def calm_def pending_ok_def due_def)
  moreover have "totalTicks (stats w) = k" using v(5) spec(2) by (simp add: w_def clock_def t_def)
  moreover have "Idle cb s = Ok w" using c v(1) by (simp add: Idle_def w_def)
  ultimately show ?thesis using now v(4) by (auto simp: w_def)
qed

end

subsection \<open>Waiting on a semaphore\<close>

text \<open>The state in which thread \<open>c\<close> sleeps on the semaphore \<open>a\<close>, and the one in which it has the processor again.\<close>

definition asleep :: "nat \<Rightarrow> 'a kern_scheme \<Rightarrow> 'a kern_scheme" where
  "asleep a s = s\<lparr>sems := (sems s)(a := map_option (sem_queue_update (map_option (kl_append (currentThread s)))) (sems s a)),
     threads := (threads s)(currentThread s := map_option (th_status_update (\<lambda>_. BLOCKED)) (threads s (currentThread s)))\<rparr>"

definition running :: "'a kern_scheme \<Rightarrow> 'a kern_scheme" where
  "running s = s\<lparr>readyList := [],
     threads := (threads s)(currentThread s := map_option (th_status_update (\<lambda>_. RUNNING)) (threads s (currentThread s)))\<rparr>"

locale thread_waits = device_invariant cb Q for cb :: "'a kern_scheme callbacks" and Q :: "'a kern_scheme \<Rightarrow> bool"
begin

lemma sleep_loop_keeps:
  assumes "Q s" "calm s" "level (intr s) = IntOff" "mstatus (intr s) = SystemMode"
    and bound: "\<forall>s. Q s \<longrightarrow> calm s \<longrightarrow> readyList s = [] \<longrightarrow> pending (intr s) \<noteq> [] \<and> totalTicks (stats s) < B"
  shows "\<exists>k t q s'. sleep_loop cb s = Some (Ok (t, s'\<lparr>readyList := q\<rparr>)) \<and> readyList s' = (k, t) # q \<and> Q s' \<and> calm s' \<and>
    level (intr s') = IntOff \<and> mstatus (intr s') = SystemMode \<and> totalTicks (stats s) \<le> totalTicks (stats s')"
  using assms(1-4)
proof (induction "nat (B - totalTicks (stats s))" arbitrary: s rule: less_induct)
  case less
  show ?case
  proof (cases "readyList s")
    case Nil
    then have same: "FindNextToRun s = (None, s)" by (simp add: FindNextToRun_def)
    note b = bound[rule_format, OF less.prems(1,2) Nil]
    obtain t where t: "Idle cb s = Ok t" "Q t" "calm t" "level (intr t) = IntOff" "mstatus (intr t) = SystemMode"
      "totalTicks (stats s) < totalTicks (stats t)"
      using Idle_keeps[OF less.prems(2,3) _ less.prems(1)] b by blast
    then have "nat (B - totalTicks (stats t)) < nat (B - totalTicks (stats s))" using b by simp
    from less.hyps[OF this t(2-5)] same t(1,6) show ?thesis by (fastforce simp: sleep_loop.simps[of cb s])
  next
    case (Cons kt q)
    then show ?thesis using less.prems by (cases kt) (auto simp: sleep_loop.simps[of cb s] FindNextToRun_def)
  qed
qed

text \<open>A wait on a semaphore at zero returns when some handler signals it in bounded time; the thread is then the only one that is ready.\<close>

lemma P_loop_keeps:
  assumes s: "level (intr s) = IntOff" "calm s" "mstatus (intr s) = SystemMode"
    and a: "sems s a = Some x" "sem_value x = 0" "sem_queue x = Some []" "threads s (currentThread s) = Some th"
    and q: "Q (asleep a s)"
    and bound: "\<forall>s. Q s \<longrightarrow> calm s \<longrightarrow> readyList s = [] \<longrightarrow> pending (intr s) \<noteq> [] \<and> totalTicks (stats s) < B"
    and wake: "\<forall>s k t q. Q s \<longrightarrow> readyList s = (k, t) # q \<longrightarrow> t = currentThread s \<and> q = [] \<and> threadToBeDestroyed s = None \<and>
      (\<exists>x th. sems s a = Some x \<and> sem_value x \<noteq> 0 \<and> threads s t = Some th \<and> th_space th = None \<and>
         th_stack th \<in> {None, Some STACK_FENCEPOST})"
  shows "\<exists>s' k. P_loop cb a s = Some (Ok (running s')) \<and> Q s' \<and> readyList s' = [(k, currentThread s')] \<and> calm s' \<and>
    level (intr s') = IntOff \<and> mstatus (intr s') = SystemMode \<and> totalTicks (stats s) \<le> totalTicks (stats s')"
proof -
  have z: "calm (asleep a s)" "level (intr (asleep a s)) = IntOff" "mstatus (intr (asleep a s)) = SystemMode"
    "stats (asleep a s) = stats s" "sems (asleep a s) a = Some (x\<lparr>sem_queue := Some (kl_append (currentThread s) [])\<rparr>)"
    using s a by (simp_all add: asleep_def calm_def pending_ok_def due_def option.map_sel)
  obtain k t qs s' where l: "sleep_loop cb (asleep a s) = Some (Ok (t, s'\<lparr>readyList := qs\<rparr>))" "readyList s' = (k, t) # qs" "Q s'" "calm s'"
    "level (intr s') = IntOff" "mstatus (intr s') = SystemMode" "totalTicks (stats s) \<le> totalTicks (stats s')"
    using sleep_loop_keeps[OF q z(1-3) bound, unfolded z(4)] by (elim exE conjE) (rule that)
  from wake[rule_format, OF l(3,2)] obtain y ty where w: "t = currentThread s'" "qs = []" "threadToBeDestroyed s' = None" "sems s' a = Some y"
    "sem_value y \<noteq> 0" "threads s' t = Some ty" "th_space ty = None" "th_stack ty \<in> {None, Some STACK_FENCEPOST}"
    by blast
  have "Run t (s'\<lparr>readyList := []\<rparr>) = Ok (running s')"
  proof -
    have "thread_ready (spaces (s'\<lparr>readyList := []\<rparr>)) (machine (s'\<lparr>readyList := []\<rparr>)) ty" using w by (simp add: thread_ready_def)
    then show ?thesis using Run_self[of "s'\<lparr>readyList := []\<rparr>" t ty] w
      by (simp add: running_def back_machine_def back_thread_def)
  qed
  moreover have "asleep a s = s\<lparr>sems := (sems s)(a := Some (x\<lparr>sem_queue := Some (kl_append (currentThread s) [])\<rparr>)),
      threads := (threads s)(currentThread s := Some (th\<lparr>th_status := BLOCKED\<rparr>))\<rparr>"
    using a by (cases x) (simp add: asleep_def)
  ultimately have "rbind (sem_upd a (\<lambda>x. x\<lparr>sem_queue := Some (kl_append (currentThread s) [])\<rparr>) s) (\<lambda>s. Sleep cb (currentThread s) s) = Ok (running s')"
    using s(1) a l(1) w(2) by (simp add: sem_upd_def sem_get_def Sleep_def thread_upd_def thread_get_def loop_result_def)
  moreover have "P_loop cb a (running s') = Some (Ok (running s'))"
    using w(4,5) by (intro P_loop_nonzero[of _ _ y]) (simp_all add: running_def)
  ultimately have "P_loop cb a s = Some (Ok (running s'))"
    using a by (simp add: P_loop.simps[of cb a s] sem_get_def)
  then show ?thesis using l w by auto
qed

text \<open>A wait as a whole: what the loop leaves, with the value taken, carries the invariant through the tick at the end.\<close>

lemma P_keeps:
  assumes "level (intr s) = IntOn" and l: "P_loop cb a (off s) = Some (Ok t)" "sems t a = Some x"
    and t: "calm t" "level (intr t) = IntOff" "mstatus (intr t) = SystemMode"
      "Q (t\<lparr>sems := (sems t)(a := Some (x\<lparr>sem_value := sem_value x - 1\<rparr>))\<rparr>)"
  shows "\<exists>s'. Semaphore_P cb a s = Ok s' \<and> Q s' \<and> calm s' \<and> level (intr s') = IntOn \<and> mstatus (intr s') = SystemMode"
proof -
  let ?u = "t\<lparr>sems := (sems t)(a := Some (x\<lparr>sem_value := sem_value x - 1\<rparr>))\<rparr>"
  have "pending_ok ?u" "level (intr ?u) = IntOff" "\<not> inHandler (intr ?u)" "\<not> yieldOnReturn (intr ?u)" "mstatus (intr ?u) = SystemMode"
    using t(1-3) by (simp_all add: calm_def pending_ok_def)
  from SetLevel_on_keeps[OF this t(4)] obtain s' where s': "SetLevel cb IntOn ?u = Ok (IntOff, s')" "Q s'" "calm s'"
    "level (intr s') = IntOn" "mstatus (intr s') = SystemMode"
    by blast
  have "SetLevel cb IntOff s = Ok (IntOn, off s)" using assms(1) by (simp add: SetLevel_off off_def ChangeLevel_def)
  then have "Semaphore_P cb a s = Ok s'" using l s'(1) by (simp add: Semaphore_P_def loop_result_def sem_upd_def sem_get_def)
  with s' show ?thesis by blast
qed

end

text \<open>A signal from a handler, where interrupts are off.\<close>

lemma V_off_empty:
  assumes "level (intr s) = IntOff" "sems s a = Some x" "sem_queue x = Some []"
  shows "Semaphore_V cb a s = Ok (s\<lparr>sems := (sems s)(a := Some (x\<lparr>sem_value := sem_value x + 1\<rparr>))\<rparr>)"
  using assms by (cases x) (simp add: Semaphore_V_def sem_get_def sem_upd_def)

lemma V_off_wake:
  assumes "level (intr s) = IntOff" "sems s a = Some x" "sem_queue x = Some [(k, c)]" "threads s c = Some th" "readyList s = []"
  shows "Semaphore_V cb a s = Ok (s\<lparr>sems := (sems s)(a := Some (x\<lparr>sem_queue := Some [], sem_value := sem_value x + 1\<rparr>)),
    threads := (threads s)(c := Some (th\<lparr>th_status := READY\<rparr>)), readyList := [(th_priority th, c)]\<rparr>)"
  using assms by (simp add: Semaphore_V_def sem_get_def sem_upd_def ReadyToRun_def thread_get_def thread_upd_def)

lemma calm_later:
  assumes "calm s" "q \<in># mset (pending (intr s))"
  shows "totalTicks (stats s) < fst q"
  using assms by (fastforce simp: calm_def due_def filter_empty_conv)

text \<open>The thread has just been given the processor back, and takes the value of the semaphore.\<close>

definition take_sem :: "nat \<Rightarrow> Semaphore \<Rightarrow> 'a kern_scheme \<Rightarrow> 'a kern_scheme" where
  "take_sem a x s = s\<lparr>sems := (sems s)(a := Some (x\<lparr>sem_value := sem_value x - 1\<rparr>))\<rparr>"

text \<open>Between operations of the thread.\<close>

definition awake :: "'a kern_scheme \<Rightarrow> bool" where
  "awake s \<longleftrightarrow> calm s \<and> level (intr s) = IntOn \<and> mstatus (intr s) = SystemMode"

lemma awake_off: "awake s \<Longrightarrow> calm (off s) \<and> level (intr (off s)) = IntOff \<and> mstatus (intr (off s)) = SystemMode"
  by (auto simp: awake_def calm_def off_def pending_ok_def due_def)

text \<open>Operations of a running thread that do not wait: interrupts may fire in the ticks they take.\<close>

context thread_waits
begin

lemma on_again:
  assumes "Q s" "awake s"
  shows "\<exists>s'. SetLevel cb IntOn (off s) = Ok (IntOff, s') \<and> Q s' \<and> awake s'"
proof -
  have "Q (off s)" unfolding off_def using assms(1) by (rule frame_intr) simp
  moreover have "pending_ok (off s)" "\<not> inHandler (intr (off s))" "\<not> yieldOnReturn (intr (off s))" "level (intr (off s)) = IntOff"
    "mstatus (intr (off s)) = SystemMode"
    using awake_off[OF assms(2)] by (simp_all add: calm_def)
  ultimately show ?thesis using SetLevel_on_keeps[of "off s"] unfolding awake_def by blast
qed

lemma off_first: "awake s \<Longrightarrow> SetLevel cb IntOff s = Ok (IntOn, off s)"
  by (simp add: awake_def SetLevel_off off_def ChangeLevel_def)

lemma P_free_keeps:
  assumes "awake s" "sems s a = Some x" "sem_value x \<noteq> 0" "Q (take_sem a x s)"
  shows "\<exists>s'. Semaphore_P cb a s = Ok s' \<and> Q s' \<and> awake s'"
proof -
  have "awake (take_sem a x s)" using assms(1) by (simp add: awake_def calm_def take_sem_def pending_ok_def due_def)
  from on_again[OF assms(4) this] obtain s' where s': "SetLevel cb IntOn (off (take_sem a x s)) = Ok (IntOff, s')" "Q s'" "awake s'" by blast
  have "P_loop cb a (off s) = Some (Ok (off s))" using assms(2,3) by (simp add: P_loop_nonzero)
  moreover have "(off s)\<lparr>sems := (sems s)(a := Some (x\<lparr>sem_value := sem_value x - 1\<rparr>))\<rparr> = off (take_sem a x s)"
    by (simp add: off_def take_sem_def)
  ultimately have "Semaphore_P cb a s = Ok s'"
    using s'(1) assms(2) by (simp add: Semaphore_P_def off_first[OF assms(1)] sem_upd_def sem_get_def)
  with s' show ?thesis by blast
qed

lemma V_free_keeps:
  assumes "awake s" "sems s a = Some x" "sem_queue x = Some []" "Q (s\<lparr>sems := (sems s)(a := Some (x\<lparr>sem_value := sem_value x + 1\<rparr>))\<rparr>)"
  shows "\<exists>s'. Semaphore_V cb a s = Ok s' \<and> Q s' \<and> awake s'"
proof -
  let ?t = "s\<lparr>sems := (sems s)(a := Some (x\<lparr>sem_value := sem_value x + 1\<rparr>))\<rparr>"
  have "awake ?t" using assms(1) by (simp add: awake_def calm_def pending_ok_def due_def)
  from on_again[OF assms(4) this] obtain s' where s': "SetLevel cb IntOn (off ?t) = Ok (IntOff, s')" "Q s'" "awake s'" by blast
  have q: "x\<lparr>sem_queue := Some []\<rparr> = x" using assms(3) by (cases x) simp
  have "(off s)\<lparr>sems := (sems s)(a := Some (x\<lparr>sem_value := sem_value x + 1\<rparr>))\<rparr> = off ?t" by (simp add: off_def)
  then have "Semaphore_V cb a s = Ok s'"
    using s'(1) assms(2,3) by (simp add: Semaphore_V_def off_first[OF assms(1)] sem_upd_def sem_get_def q)
  with s' show ?thesis by blast
qed

lemma Signal_nobody_keeps:
  assumes "awake s" "Q s" "locks s l = Some k" "lk_holdingThread k \<noteq> Unset" "conds s c = Some cd" "cond_waitingQueue cd = []"
  shows "\<exists>s'. Condition_Signal cb c l s = Ok s' \<and> Q s' \<and> awake s'"
proof -
  from on_again[OF assms(2,1)] obtain s' where s': "SetLevel cb IntOn (off s) = Ok (IntOff, s')" "Q s'" "awake s'" by blast
  have "cd\<lparr>cond_waitingQueue := []\<rparr> = cd" using assms(6) by (cases cd) simp
  then have "cond_upd c (\<lambda>x. x\<lparr>cond_waitingQueue := []\<rparr>) (off s) = Ok (off s)"
    using assms(5) by (simp add: cond_upd_def cond_get_def off_def upd_intr_def fun_upd_idem)
  then have "Condition_Signal cb c l s = Ok s'"
    using s'(1) assms(3-6) by (cases "lk_holdingThread k") (simp_all add: Condition_Signal_def off_first[OF assms(1)] isHeldByCurrentThread_def lock_get_def
      cond_get_def off_def)
  with s' show ?thesis by blast
qed

end

text \<open>Scheduling an interrupt leaves nothing due.\<close>

lemma Schedule_calm:
  assumes "awake s" "0 < d"
  shows "Schedule h a d ty s = Ok (upd_intr (pending_update (kl_insert (PendingInterrupt_new h a (totalTicks (stats s) + d) ty) (totalTicks (stats s) + d))) s)"
    "awake (upd_intr (pending_update (kl_insert (PendingInterrupt_new h a (totalTicks (stats s) + d) ty) (totalTicks (stats s) + d))) s)"
proof -
  show "Schedule h a d ty s = Ok (upd_intr (pending_update (kl_insert (PendingInterrupt_new h a (totalTicks (stats s) + d) ty) (totalTicks (stats s) + d))) s)"
    using assms(2) by (simp add: Schedule_def Let_def)
  show "awake (upd_intr (pending_update (kl_insert (PendingInterrupt_new h a (totalTicks (stats s) + d) ty) (totalTicks (stats s) + d))) s)"
    using assms by (auto simp: awake_def calm_def due_insert PendingInterrupt_new_def intro!: pending_ok_insert)
qed

subsection \<open>A kernel with more devices\<close>

text \<open>The callbacks of a kernel whose interrupt handlers are \<open>h\<close>; \<open>n\<close> bounds the nesting of time slices as in \<open>kernel_cb\<close>.\<close>

fun device_cb :: "(PendingInterrupt \<Rightarrow> 'a kern_scheme \<Rightarrow> 'a kern_scheme result) \<Rightarrow> nat \<Rightarrow> 'a kern_scheme callbacks" where
  "device_cb h 0 = \<lparr>cb_handler = h, cb_delayed_load = delayed_load, cb_yield = (\<lambda>s. Err Diverges)\<rparr>"
| "device_cb h (Suc n) = \<lparr>cb_handler = h, cb_delayed_load = delayed_load,
                          cb_yield = (\<lambda>s. Yield (device_cb h n) (currentThread s) s)\<rparr>"

lemma device_cb_simps [simp]: "cb_handler (device_cb h n) = h" "cb_delayed_load (device_cb h n) = delayed_load"
  by (cases n; simp)+

lemma device_handlers:
  assumes "\<And>s p s'. pending_ok s \<Longrightarrow> level (intr s) = IntOff \<Longrightarrow> h p s = Ok s' \<Longrightarrow>
    level (intr s') = IntOff \<and> clock s' = clock s \<and> pending_ok s' \<and> due s' \<le> due s"
  shows "interrupt_handlers (device_cb h n)"
proof unfold_locales
  show "cb_delayed_load (device_cb h n) s = Ok s' \<Longrightarrow> intr s' = intr s \<and> stats s' = stats s" for s s'
    using kernel.delayed_load[of 0 s s'] by simp
  show "level (intr s') = IntOff \<and> clock s' = clock s \<and> pending_ok s' \<and> due s' \<le> due s"
    if "pending_ok s" "level (intr s) = IntOff" "cb_handler (device_cb h n) p s = Ok s'" for s s' p
    using assms[OF that(1,2)] that(3) by simp
qed

lemma delayed_load_loadable:
  assumes "loadable (machine s)"
  shows "\<exists>m. delayed_load s = Ok (s\<lparr>machine := m\<rparr>) \<and> loadable m"
  using loadable_after[OF assms] delayed_load_after[of s] by metis

end
