(* ===== verification/Console.thy ===== *)
theory Console
  imports Device_Waits
begin

text \<open>
  The console device, src/machine/console.cc and console.h, and the console test of
  src/userprog/progtest.cc, which echoes what is typed. The host files behind the keyboard and the
  display are part of the state: for each file descriptor the characters that arrive on it, with the time of the simulation at which
  each can be read (\<open>None\<close> marks the end of the file), and the characters written to it.
\<close>

subsection \<open>State\<close>

text \<open>\<open>EOF\<close> in a \<open>char\<close>, which is signed on the i386.\<close>

definition EOF_char :: byte where "EOF_char = 0xff"

text \<open>The handlers that the console test passes to the device.\<close>

datatype ConsoleRoutine = ReadAvail | WriteDone

record Console =
  con_readFileNo :: int
  con_writeFileNo :: int
  con_writeHandler :: ConsoleRoutine
  con_readHandler :: ConsoleRoutine
  con_handlerArg :: int
  con_putBusy :: bool
  con_incoming :: byte

record con_kern = kern +
  consoles :: "nat \<Rightarrow> Console option"
  console :: "nat option"
  readAvail :: "nat option"
  writeDone :: "nat option"
  unix_in :: "int \<Rightarrow> (int \<times> byte option) list"
  unix_out :: "int \<Rightarrow> byte list"
  unix_open :: "string \<Rightarrow> int"

definition con_get :: "nat \<Rightarrow> 'a con_kern_scheme \<Rightarrow> Console result" where
  "con_get this s = the_ptr (consoles s this)"

definition con_put :: "nat \<Rightarrow> Console \<Rightarrow> 'a con_kern_scheme \<Rightarrow> 'a con_kern_scheme" where
  "con_put this con s = s\<lparr>consoles := (consoles s)(this := Some con)\<rparr>"

subsection \<open>The host\<close>

definition PollFile :: "int \<Rightarrow> 'a con_kern_scheme \<Rightarrow> bool" where
  "PollFile fd s = (case unix_in s fd of [] \<Rightarrow> False | (t, _) # _ \<Rightarrow> t \<le> totalTicks (stats s))"

text \<open>\<open>Read\<close> of one character asserts that it got one; with nothing to read it would block.\<close>

definition Read_char :: "int \<Rightarrow> 'a con_kern_scheme \<Rightarrow> (byte \<times> 'a con_kern_scheme) result" where
  "Read_char fd s =
     (case unix_in s fd of
        [] \<Rightarrow> Err Diverges
      | (t, None) # _ \<Rightarrow> Err AssertFailed
      | (t, Some c) # rest \<Rightarrow> Ok (c, s\<lparr>unix_in := (unix_in s)(fd := rest)\<rparr>))"

definition Write_char :: "int \<Rightarrow> byte \<Rightarrow> 'a con_kern_scheme \<Rightarrow> 'a con_kern_scheme result" where
  "Write_char fd c s =
     ASSERT (0 \<le> fd) (Ok (s\<lparr>unix_out := (unix_out s)(fd := unix_out s fd @ [c])\<rparr>))"

definition OpenForReadWrite :: "string \<Rightarrow> bool \<Rightarrow> 'a con_kern_scheme \<Rightarrow> int result" where
  "OpenForReadWrite name crashOnError s =
     (let fd = unix_open s name in ASSERT (\<not> crashOnError \<or> 0 \<le> fd) (Ok fd))"

definition OpenForWrite :: "string \<Rightarrow> 'a con_kern_scheme \<Rightarrow> int \<times> 'a con_kern_scheme" where
  "OpenForWrite name s = (let fd = unix_open s name in (fd, s\<lparr>unix_out := (unix_out s)(fd := [])\<rparr>))"

subsection \<open>The device\<close>

definition Console_new :: "string option \<Rightarrow> string option \<Rightarrow> ConsoleRoutine \<Rightarrow> ConsoleRoutine \<Rightarrow> int \<Rightarrow>
    'a con_kern_scheme \<Rightarrow> (nat \<times> 'a con_kern_scheme) result" where
  "Console_new readFile writeFile onRead onWrite callArg s =
     (let this = next_addr s; s = s\<lparr>next_addr := Suc this\<rparr> in
      rbind (case readFile of None \<Rightarrow> Ok 0 | Some name \<Rightarrow> OpenForReadWrite name True s) (\<lambda>readFileNo.
      let (writeFileNo, s) = (case writeFile of None \<Rightarrow> (1, s) | Some name \<Rightarrow> OpenForWrite name s);
          s = con_put this \<lparr>con_readFileNo = readFileNo, con_writeFileNo = writeFileNo, con_writeHandler = onWrite,
                           con_readHandler = onRead, con_handlerArg = callArg, con_putBusy = False,
                           con_incoming = EOF_char\<rparr> s
      in rbind (Schedule ConsoleReadPoll (int this) ConsoleTime ConsoleReadInt s) (\<lambda>s. Ok (this, s))))"

definition Console_delete :: "nat \<Rightarrow> 'a con_kern_scheme \<Rightarrow> 'a con_kern_scheme result" where
  "Console_delete this s =
     rbind (con_get this s) (\<lambda>con.
     ASSERT (con_readFileNo con = 0 \<or> 0 \<le> con_readFileNo con)
       (ASSERT (con_writeFileNo con = 1 \<or> 0 \<le> con_writeFileNo con)
         (Ok (s\<lparr>consoles := (consoles s)(this := None)\<rparr>))))"

definition console_routine :: "ConsoleRoutine \<Rightarrow> 'a con_kern_scheme \<Rightarrow> 'a con_kern_scheme result" where
  "console_routine r s =
     (case r of
        ReadAvail \<Rightarrow> rbind (the_nonnull (readAvail s)) (\<lambda>sem. Semaphore_V handler_cb sem s)
      | WriteDone \<Rightarrow> rbind (the_nonnull (writeDone s)) (\<lambda>sem. Semaphore_V handler_cb sem s))"

definition CheckCharAvail :: "nat \<Rightarrow> 'a con_kern_scheme \<Rightarrow> 'a con_kern_scheme result" where
  "CheckCharAvail this s =
     rbind (Schedule ConsoleReadPoll (int this) ConsoleTime ConsoleReadInt s) (\<lambda>s.
     rbind (con_get this s) (\<lambda>con.
       if con_incoming con \<noteq> EOF_char \<or> \<not> PollFile (con_readFileNo con) s then Ok s
       else
         rbind (Read_char (con_readFileNo con) s) (\<lambda>(c, s).
           let s = con_put this (con\<lparr>con_incoming := c\<rparr>) s;
               s = upd_stats (\<lambda>st. st\<lparr>numConsoleCharsRead := numConsoleCharsRead st + 1\<rparr>) s
           in console_routine (con_readHandler con) s)))"

definition Console_WriteDone :: "nat \<Rightarrow> 'a con_kern_scheme \<Rightarrow> 'a con_kern_scheme result" where
  "Console_WriteDone this s =
     rbind (con_get this s) (\<lambda>con.
       let s = con_put this (con\<lparr>con_putBusy := False\<rparr>) s;
           s = upd_stats (\<lambda>st. st\<lparr>numConsoleCharsWritten := numConsoleCharsWritten st + 1\<rparr>) s
       in console_routine (con_writeHandler con) s)"

definition GetChar :: "nat \<Rightarrow> 'a con_kern_scheme \<Rightarrow> (byte \<times> 'a con_kern_scheme) result" where
  "GetChar this s =
     rbind (con_get this s) (\<lambda>con. Ok (con_incoming con, con_put this (con\<lparr>con_incoming := EOF_char\<rparr>) s))"

definition PutChar :: "nat \<Rightarrow> byte \<Rightarrow> 'a con_kern_scheme \<Rightarrow> 'a con_kern_scheme result" where
  "PutChar this ch s =
     rbind (con_get this s) (\<lambda>con.
     ASSERT (\<not> con_putBusy con)
       (rbind (Write_char (con_writeFileNo con) ch s) (\<lambda>s.
        Schedule ConsoleWriteDone (int this) ConsoleTime ConsoleWriteInt
          (con_put this (con\<lparr>con_putBusy := True\<rparr>) s))))"

text \<open>\<open>ConsoleReadPoll\<close> and \<open>ConsoleWriteDone\<close> hand their argument to the console as the object.\<close>

definition con_handler :: "PendingInterrupt \<Rightarrow> 'a con_kern_scheme \<Rightarrow> 'a con_kern_scheme result" where
  "con_handler p s =
     (case pi_handler p of
        ConsoleReadPoll \<Rightarrow> CheckCharAvail (nat (pi_arg p)) s
      | ConsoleWriteDone \<Rightarrow> Console_WriteDone (nat (pi_arg p)) s
      | _ \<Rightarrow> kernel_handler p s)"

abbreviation con_cb :: "nat \<Rightarrow> 'a con_kern_scheme callbacks" where
  "con_cb \<equiv> device_cb con_handler"

subsection \<open>The console test\<close>

definition echo :: "nat \<Rightarrow> 'a con_kern_scheme \<Rightarrow> (byte \<times> 'a con_kern_scheme) result" where
  "echo n s =
     rbind (the_nonnull (readAvail s)) (\<lambda>ra.
     rbind (Semaphore_P (con_cb n) ra s) (\<lambda>s.
     rbind (the_nonnull (console s)) (\<lambda>con.
     rbind (GetChar con s) (\<lambda>(ch, s).
     rbind (PutChar con ch s) (\<lambda>s.
     rbind (the_nonnull (writeDone s)) (\<lambda>wd.
     rbind (Semaphore_P (con_cb n) wd s) (\<lambda>s. Ok (ch, s))))))))"

text \<open>\<^verbatim>\<open>for (;;) { ...; if (ch == 'q') return; }\<close>\<close>

partial_function (option) echo_loop :: "nat \<Rightarrow> 'a con_kern_scheme \<Rightarrow> 'a con_kern_scheme result option" where
  "echo_loop n s =
     (case echo n s of
        Err e \<Rightarrow> Some (Err e)
      | Ok (ch, s) \<Rightarrow> if ch = 0x71 then Some (Ok s) else echo_loop n s)"

definition ConsoleTest :: "nat \<Rightarrow> string option \<Rightarrow> string option \<Rightarrow> 'a con_kern_scheme \<Rightarrow> 'a con_kern_scheme result" where
  "ConsoleTest n inFile outFile s =
     rbind (Console_new inFile outFile ReadAvail WriteDone 0 s) (\<lambda>(con, s).
       let (ra, s) = Semaphore_new ''read avail'' 0 (s\<lparr>console := Some con\<rparr>);
           (wd, s) = Semaphore_new ''write done'' 0 (s\<lparr>readAvail := Some ra\<rparr>)
       in loop_result (echo_loop n (s\<lparr>writeDone := Some wd\<rparr>)))"

subsection \<open>The handlers meet the interface of the interrupt code\<close>

lemma con_put_frame [simp]: "intr (con_put this con s) = intr s" "stats (con_put this con s) = stats s"
  by (simp_all add: con_put_def)

lemma console_routine_frame:
  assumes "level (intr s) = IntOff" "console_routine r s = Ok s'"
  shows "intr s' = intr s \<and> stats s' = stats s"
proof -
  from assms(2) obtain sem where "Semaphore_V handler_cb sem s = Ok s'"
    by (cases r) (auto simp: console_routine_def result_simps)
  with Semaphore_V_off_frame[OF assms(1)] show ?thesis by blast
qed

lemma Console_WriteDone_frame:
  assumes "level (intr s) = IntOff" "Console_WriteDone this s = Ok s'"
  shows "intr s' = intr s \<and> clock s' = clock s"
proof -
  from assms(2) obtain con where
    "console_routine (con_writeHandler con) (upd_stats (\<lambda>st. st\<lparr>numConsoleCharsWritten := numConsoleCharsWritten st + 1\<rparr>)
       (con_put this (con\<lparr>con_putBusy := False\<rparr>) s)) = Ok s'"
    by (auto simp: Console_WriteDone_def Let_def result_simps)
  from console_routine_frame[OF _ this] assms(1) show ?thesis by (simp add: clock_def)
qed

lemma CheckCharAvail_frame:
  assumes "pending_ok s" "level (intr s) = IntOff" "CheckCharAvail this s = Ok s'"
  shows "level (intr s') = IntOff \<and> clock s' = clock s \<and> pending_ok s' \<and> due s' = due s"
proof -
  from assms(3) obtain t con where t: "Schedule ConsoleReadPoll (int this) ConsoleTime ConsoleReadInt s = Ok t" "con_get this t = Ok con"
    by (auto simp: CheckCharAvail_def result_simps)
  note S = Schedule_spec[OF assms(1) t(1)]
  have "intr s' = intr t \<and> clock s' = clock t"
  proof (cases "con_incoming con \<noteq> EOF_char \<or> \<not> PollFile (con_readFileNo con) t")
    case True
    then show ?thesis using assms(3) t by (simp add: CheckCharAvail_def)
  next
    case False
    then obtain c u where u: "Read_char (con_readFileNo con) t = Ok (c, u)" and
      r: "console_routine (con_readHandler con) (upd_stats (\<lambda>st. st\<lparr>numConsoleCharsRead := numConsoleCharsRead st + 1\<rparr>)
        (con_put this (con\<lparr>con_incoming := c\<rparr>) u)) = Ok s'"
      using assms(3) t by (auto simp: CheckCharAvail_def Let_def result_simps)
    have "intr u = intr t" "stats u = stats t" using u by (auto simp: Read_char_def split: list.splits option.splits)
    with console_routine_frame[OF _ r] assms(2) S show ?thesis by (simp add: clock_def)
  qed
  with S assms(2) show ?thesis by (auto simp: clock_def pending_ok_def due_def)
qed

interpretation con: interrupt_handlers "con_cb n" for n
proof (rule device_handlers)
  fix s s' :: "'a con_kern_scheme" and p
  assume a: "pending_ok s" "level (intr s) = IntOff" "con_handler p s = Ok s'"
  show "level (intr s') = IntOff \<and> clock s' = clock s \<and> pending_ok s' \<and> due s' \<le> due s"
  proof (cases "pi_handler p = ConsoleReadPoll \<or> pi_handler p = ConsoleWriteDone")
    case True
    then show ?thesis
    proof
      assume "pi_handler p = ConsoleReadPoll"
      with a CheckCharAvail_frame[OF a(1,2)] show ?thesis by (simp add: con_handler_def)
    next
      assume "pi_handler p = ConsoleWriteDone"
      with a Console_WriteDone_frame[OF a(2)] show ?thesis by (auto simp: con_handler_def pending_ok_def due_def clock_def)
    qed
  next
    case False
    then have "con_handler p s = kernel_handler p s" by (cases "pi_handler p") (simp_all add: con_handler_def)
    with a kernel.handler[OF a(1,2)] show ?thesis by simp
  qed
qed

subsection \<open>What the device and the echo thread keep\<close>

definition poll_at :: "nat \<Rightarrow> int \<Rightarrow> int \<times> PendingInterrupt" where
  "poll_at this w = (w, PendingInterrupt_new ConsoleReadPoll (int this) w ConsoleReadInt)"

definition done_at :: "nat \<Rightarrow> int \<Rightarrow> int \<times> PendingInterrupt" where
  "done_at this w = (w, PendingInterrupt_new ConsoleWriteDone (int this) w ConsoleWriteInt)"

lemma poll_at_inject [simp]: "poll_at this w = poll_at this w' \<longleftrightarrow> w = w'"
  by (auto simp: poll_at_def PendingInterrupt_new_def)

text \<open>What the thread waits for, if anything.\<close>

datatype con_wait = NoWait | OnRead | OnWrite

text \<open>The parts of the state that the echo thread \<open>c\<close> and the console share.\<close>

definition con_view :: "nat \<Rightarrow> nat \<Rightarrow> nat \<Rightarrow> nat \<Rightarrow> Console \<Rightarrow> Semaphore \<Rightarrow> Semaphore \<Rightarrow> Thread \<Rightarrow>
    (int \<times> PendingInterrupt) multiset \<Rightarrow> nat klist \<Rightarrow> (int \<times> byte) list \<Rightarrow> byte list \<Rightarrow> 'a con_kern_scheme \<Rightarrow> bool" where
  "con_view this ra wd c con x y th ps ready arr out s \<longleftrightarrow>
     consoles s this = Some con \<and> console s = Some this \<and> readAvail s = Some ra \<and> writeDone s = Some wd \<and> ra \<noteq> wd \<and>
     sems s ra = Some x \<and> sems s wd = Some y \<and> unix_out s (con_writeFileNo con) = out \<and>
     unix_in s (con_readFileNo con) = map (apsnd Some) arr \<and> threads s c = Some th \<and> currentThread s = c \<and>
     threadToBeDestroyed s = None \<and> loadable (machine s) \<and> readyList s = ready \<and> mset (pending (intr s)) = ps"

text \<open>
  The characters that have not been echoed are the buffered one and those still to arrive. A poll is always pending, and
  as long as the buffer is empty the next poll comes in time for the next character, or by \<open>B\<close>. The semaphore
  \<open>readAvail\<close> counts the buffered character until the thread has taken it up, \<open>writeDone\<close> a finished write until the
  thread has noticed it (\<open>writing\<close>). A thread that waits is either in the queue of its semaphore or ready.
\<close>

definition con_ok :: "nat \<Rightarrow> nat \<Rightarrow> con_wait \<Rightarrow> bool \<Rightarrow> bool \<Rightarrow> int \<Rightarrow> int \<Rightarrow> (int \<times> byte) list \<Rightarrow> Console \<Rightarrow> Semaphore \<Rightarrow> Semaphore \<Rightarrow>
    Thread \<Rightarrow> (int \<times> PendingInterrupt) multiset \<Rightarrow> nat klist \<Rightarrow> (int \<times> byte) list \<Rightarrow> bool" where
  "con_ok this c wt taken writing B v input con x y th ps ready arr \<longleftrightarrow>
     con_readHandler con = ReadAvail \<and> con_writeHandler con = WriteDone \<and> con_writeFileNo con = 1 \<and>
     EOF_char \<notin> snd ` set arr \<and> th_space th = None \<and> th_stack th \<in> {None, Some STACK_FENCEPOST} \<and>
     (if con_incoming con = EOF_char then \<not> taken \<and> input = arr else \<exists>t. input = (t, con_incoming con) # arr) \<and>
     sem_value x = (if con_incoming con = EOF_char \<or> taken then 0 else 1) \<and>
     (con_putBusy con \<longrightarrow> writing) \<and> sem_value y = (if writing \<and> \<not> con_putBusy con then 1 else 0) \<and>
     (\<exists>w. ps = (if con_putBusy con then {#done_at this v, poll_at this w#} else {#poll_at this w#}) \<and>
        (con_incoming con = EOF_char \<longrightarrow> (case arr of [] \<Rightarrow> True | (t, _) # _ \<Rightarrow> w \<le> B \<or> w < t + ConsoleTime))) \<and>
     (case wt of
        NoWait \<Rightarrow> ready = [] \<and> sem_queue x = Some [] \<and> sem_queue y = Some []
      | OnRead \<Rightarrow> sem_queue y = Some [] \<and>
          (if sem_value x = 0 then ready = [] \<and> sem_queue x = Some [(0, c)] else ready = [(th_priority th, c)] \<and> sem_queue x = Some [])
      | OnWrite \<Rightarrow> sem_queue x = Some [] \<and>
          (if sem_value y = 0 then ready = [] \<and> sem_queue y = Some [(0, c)] else ready = [(th_priority th, c)] \<and> sem_queue y = Some []))"

definition con_inv :: "nat \<Rightarrow> nat \<Rightarrow> nat \<Rightarrow> nat \<Rightarrow> con_wait \<Rightarrow> bool \<Rightarrow> bool \<Rightarrow> int \<Rightarrow> int \<Rightarrow> (int \<times> byte) list \<Rightarrow> byte list \<Rightarrow>
    'a con_kern_scheme \<Rightarrow> bool" where
  "con_inv this ra wd c wt taken writing B v input out s \<longleftrightarrow>
     (\<exists>con x y th ps ready arr. con_view this ra wd c con x y th ps ready arr out s \<and>
        con_ok this c wt taken writing B v input con x y th ps ready arr)"

lemma con_invI:
  "con_view this ra wd c con x y th ps ready arr out s \<Longrightarrow> con_ok this c wt taken writing B v input con x y th ps ready arr \<Longrightarrow>
   con_inv this ra wd c wt taken writing B v input out s"
  unfolding con_inv_def by blast

lemma con_invE:
  assumes "con_inv this ra wd c wt taken writing B v input out s"
  obtains con x y th ps ready arr where "con_view this ra wd c con x y th ps ready arr out s"
    "con_ok this c wt taken writing B v input con x y th ps ready arr"
  using assms unfolding con_inv_def by blast

lemma con_view_intr:
  "con_view this ra wd c con x y th ps ready arr out s \<Longrightarrow>
   con_view this ra wd c con x y th (mset (pending i)) ready arr out (s\<lparr>intr := i, stats := st\<rparr>)"
  by (simp add: con_view_def)

text \<open>A poll that finds nothing to do.\<close>

lemma Schedule_poll:
  "Schedule ConsoleReadPoll (int this) ConsoleTime ConsoleReadInt s =
     Ok (upd_intr (pending_update (kl_insert (snd (poll_at this (totalTicks (stats s) + ConsoleTime))) (totalTicks (stats s) + ConsoleTime))) s)"
  by (simp add: Schedule_def Let_def poll_at_def ConsoleTime_def)

lemma Read_char_next:
  assumes "unix_in s fd = map (apsnd Some) arr" "PollFile fd s"
  obtains t ch arr' where "arr = (t, ch) # arr'" "t \<le> totalTicks (stats s)"
    "Read_char fd s = Ok (ch, s\<lparr>unix_in := (unix_in s)(fd := map (apsnd Some) arr')\<rparr>)"
proof (cases arr)
  case Nil
  then show ?thesis using assms by (simp add: PollFile_def)
next
  case (Cons a arr')
  then show ?thesis using assms that[of "fst a" "snd a" arr'] by (cases a) (simp add: PollFile_def Read_char_def)
qed

text \<open>Each signal of the device.\<close>

lemma signal_read:
  assumes s: "con_view this ra wd c con x y th ps ready arr out s" "level (intr s) = IntOff"
    and q: "sem_queue x = Some [] \<or> sem_queue x = Some [(0, c)] \<and> ready = []"
  shows "\<exists>s' th' ready'. console_routine ReadAvail s = Ok s' \<and> intr s' = intr s \<and>
    con_view this ra wd c con (x\<lparr>sem_value := sem_value x + 1, sem_queue := Some []\<rparr>) y th' ps ready' arr out s' \<and>
    th_space th' = th_space th \<and> th_stack th' = th_stack th \<and> th_priority th' = th_priority th \<and>
    ready' = (if sem_queue x = Some [] then ready else [(th_priority th, c)])"
proof (cases "sem_queue x = Some []")
  case True
  with s show ?thesis by (cases x) (simp add: console_routine_def con_view_def V_off_empty)
next
  case False
  with s q show ?thesis by (simp add: console_routine_def con_view_def V_off_wake)
qed

lemma signal_write:
  assumes s: "con_view this ra wd c con x y th ps ready arr out s" "level (intr s) = IntOff"
    and q: "sem_queue y = Some [] \<or> sem_queue y = Some [(0, c)] \<and> ready = []"
  shows "\<exists>s' th' ready'. console_routine WriteDone s = Ok s' \<and> intr s' = intr s \<and>
    con_view this ra wd c con x (y\<lparr>sem_value := sem_value y + 1, sem_queue := Some []\<rparr>) th' ps ready' arr out s' \<and>
    th_space th' = th_space th \<and> th_stack th' = th_stack th \<and> th_priority th' = th_priority th \<and>
    ready' = (if sem_queue y = Some [] then ready else [(th_priority th, c)])"
proof (cases "sem_queue y = Some []")
  case True
  with s show ?thesis by (cases y) (simp add: console_routine_def con_view_def V_off_empty)
next
  case False
  with s q show ?thesis by (simp add: console_routine_def con_view_def V_off_wake)
qed

lemma poll_keeps:
  assumes s: "con_view this ra wd c con x y th ps ready arr out s" "level (intr s) = IntOff"
    and ok: "con_ok this c wt taken writing B v input con x y th (add_mset (poll_at this w) ps) ready arr"
  shows "\<exists>s'. CheckCharAvail this s = Ok s' \<and> con_inv this ra wd c wt taken writing B v input out s' \<and>
    yieldOnReturn (intr s') = yieldOnReturn (intr s)"
proof -
  let ?w = "totalTicks (stats s) + ConsoleTime" and ?ps = "add_mset (poll_at this (totalTicks (stats s) + ConsoleTime)) ps"
  define t where "t = upd_intr (pending_update (kl_insert (snd (poll_at this ?w)) ?w)) s"
  have sch: "Schedule ConsoleReadPoll (int this) ConsoleTime ConsoleReadInt s = Ok t" unfolding t_def by (rule Schedule_poll)
  have tv: "con_view this ra wd c con x y th ?ps ready arr out t"
    using s(1) unfolding t_def con_view_def by (simp add: poll_at_def upd_intr_def)
  have t: "level (intr t) = IntOff" "yieldOnReturn (intr t) = yieldOnReturn (intr s)" "con_get this t = Ok con" "stats t = stats s"
    using s tv by (simp_all add: t_def con_get_def con_view_def)
  have ps: "ps = (if con_putBusy con then {#done_at this v#} else {#})"
    using ok by (auto simp: con_ok_def add_eq_conv_ex poll_at_def done_at_def PendingInterrupt_new_def split: if_splits)
  show ?thesis
  proof (cases "con_incoming con \<noteq> EOF_char \<or> \<not> PollFile (con_readFileNo con) t")
    case True
    then have "CheckCharAvail this s = Ok t" using sch t by (simp add: CheckCharAvail_def)
    moreover have "con_ok this c wt taken writing B v input con x y th ?ps ready arr"
    proof -
      have "con_incoming con = EOF_char \<longrightarrow> (case arr of [] \<Rightarrow> True | (a, _) # _ \<Rightarrow> ?w \<le> B \<or> ?w < a + ConsoleTime)"
        using True tv t(4) by (auto simp: PollFile_def con_view_def split: list.splits)
      then show ?thesis using ok unfolding con_ok_def ps by (auto split: if_splits)
    qed
    ultimately show ?thesis using tv t(2) con_invI by blast
  next
    case False
    then have "unix_in t (con_readFileNo con) = map (apsnd Some) arr" "PollFile (con_readFileNo con) t"
      using tv by (auto simp: con_view_def)
    then obtain a ch arr' where a: "arr = (a, ch) # arr'"
      "Read_char (con_readFileNo con) t = Ok (ch, t\<lparr>unix_in := (unix_in t)(con_readFileNo con := map (apsnd Some) arr')\<rparr>)"
      by (rule Read_char_next)
    define u where "u = upd_stats (\<lambda>st. st\<lparr>numConsoleCharsRead := numConsoleCharsRead st + 1\<rparr>)
      (con_put this (con\<lparr>con_incoming := ch\<rparr>) (t\<lparr>unix_in := (unix_in t)(con_readFileNo con := map (apsnd Some) arr')\<rparr>))"
    have uv: "con_view this ra wd c (con\<lparr>con_incoming := ch\<rparr>) x y th ?ps ready arr' out u"
      using tv unfolding u_def con_view_def by (simp add: con_put_def upd_stats_def)
    have u: "level (intr u) = IntOff" "yieldOnReturn (intr u) = yieldOnReturn (intr s)" using t by (simp_all add: u_def)
    have q: "sem_queue x = Some [] \<or> sem_queue x = Some [(0, c)] \<and> ready = []"
      using ok False by (auto simp: con_ok_def split: con_wait.splits if_splits)
    from signal_read[OF uv u(1) q] obtain s' th' ready' where s': "console_routine ReadAvail u = Ok s'" "intr s' = intr u"
      "con_view this ra wd c (con\<lparr>con_incoming := ch\<rparr>) (x\<lparr>sem_value := sem_value x + 1, sem_queue := Some []\<rparr>) y th' ?ps ready' arr' out s'"
      "th_space th' = th_space th" "th_stack th' = th_stack th" "th_priority th' = th_priority th"
      "ready' = (if sem_queue x = Some [] then ready else [(th_priority th, c)])"
      by blast
    have "con_ok this c wt taken writing B v input (con\<lparr>con_incoming := ch\<rparr>) (x\<lparr>sem_value := sem_value x + 1, sem_queue := Some []\<rparr>) y th' ?ps ready' arr'"
      using ok False a(1) s'(4-7) unfolding con_ok_def ps by (cases wt) (auto split: if_splits)
    moreover have "CheckCharAvail this s = Ok s'"
      using sch t(3) False a(2) s'(1) ok by (simp add: CheckCharAvail_def Let_def u_def con_ok_def)
    ultimately show ?thesis using s'(2,3) u(2) con_invI by metis
  qed
qed

lemma done_keeps:
  assumes s: "con_view this ra wd c con x y th ps ready arr out s" "level (intr s) = IntOff"
    and ok: "con_ok this c wt taken writing B v input con x y th (add_mset (done_at this v) ps) ready arr"
  shows "\<exists>s'. Console_WriteDone this s = Ok s' \<and> con_inv this ra wd c wt taken writing B v input out s' \<and>
    yieldOnReturn (intr s') = yieldOnReturn (intr s)"
proof -
  define u where "u = upd_stats (\<lambda>st. st\<lparr>numConsoleCharsWritten := numConsoleCharsWritten st + 1\<rparr>) (con_put this (con\<lparr>con_putBusy := False\<rparr>) s)"
  have uv: "con_view this ra wd c (con\<lparr>con_putBusy := False\<rparr>) x y th ps ready arr out u"
    using s(1) unfolding u_def con_view_def by (simp add: con_put_def upd_stats_def)
  have u: "level (intr u) = IntOff" "intr u = intr s" using s(2) by (simp_all add: u_def)
  have busy: "con_putBusy con" "\<exists>w. ps = {#poll_at this w#}"
    using ok by (auto simp: con_ok_def add_eq_conv_ex poll_at_def done_at_def PendingInterrupt_new_def split: if_splits)
  have q: "sem_queue y = Some [] \<or> sem_queue y = Some [(0, c)] \<and> ready = []"
    using ok busy(1) by (auto simp: con_ok_def split: con_wait.splits if_splits)
  from signal_write[OF uv u(1) q] obtain s' th' ready' where s': "console_routine WriteDone u = Ok s'" "intr s' = intr u"
    "con_view this ra wd c (con\<lparr>con_putBusy := False\<rparr>) x (y\<lparr>sem_value := sem_value y + 1, sem_queue := Some []\<rparr>) th' ps ready' arr out s'"
    "th_space th' = th_space th" "th_stack th' = th_stack th" "th_priority th' = th_priority th"
    "ready' = (if sem_queue y = Some [] then ready else [(th_priority th, c)])"
    by blast
  have "con_ok this c wt taken writing B v input (con\<lparr>con_putBusy := False\<rparr>) x (y\<lparr>sem_value := sem_value y + 1, sem_queue := Some []\<rparr>) th' ps ready' arr"
    using ok busy s'(4-7) unfolding con_ok_def by (cases wt) (auto split: if_splits)
  moreover have "Console_WriteDone this s = Ok s'"
    using s(1) ok s'(1) by (simp add: Console_WriteDone_def con_get_def con_view_def Let_def u_def con_ok_def)
  ultimately show ?thesis using s'(2,3) u(2) con_invI by metis
qed

lemma con_ok_pending:
  assumes "con_ok this c wt taken writing B v input con x y th (add_mset q ps) ready arr"
  shows "(\<exists>w. q = poll_at this w) \<or> q = done_at this v"
proof -
  from assms obtain w where "add_mset q ps = (if con_putBusy con then {#done_at this v, poll_at this w#} else {#poll_at this w#})"
    unfolding con_ok_def by (elim conjE exE) (rule that)
  then have "q \<in># (if con_putBusy con then {#done_at this v, poll_at this w#} else {#poll_at this w#})"
    by (metis union_single_eq_member)
  then show ?thesis by (auto split: if_splits)
qed

lemma con_handler_keeps:
  assumes "con_inv this ra wd c wt taken writing B v input out (upd_intr (pending_update (\<lambda>_. (k, p) # pending (intr s))) s)"
    "level (intr s) = IntOff"
  shows "pi_type p \<noteq> TimerInt \<and> (\<exists>s'. con_handler p s = Ok s' \<and> con_inv this ra wd c wt taken writing B v input out s' \<and>
    yieldOnReturn (intr s') = yieldOnReturn (intr s))"
proof -
  from assms(1) obtain con x y th ps ready arr where
    view: "con_view this ra wd c con x y th ps ready arr out (upd_intr (pending_update (\<lambda>_. (k, p) # pending (intr s))) s)" and
    ok: "con_ok this c wt taken writing B v input con x y th ps ready arr"
    by (rule con_invE)
  have ps: "ps = add_mset (k, p) (mset (pending (intr s)))" using view by (simp add: con_view_def upd_intr_def)
  have s: "con_view this ra wd c con x y th (mset (pending (intr s))) ready arr out s"
    using view by (simp add: con_view_def upd_intr_def)
  from con_ok_pending[OF ok[unfolded ps]] show ?thesis
  proof (elim disjE exE)
    fix w assume p: "(k, p) = poll_at this w"
    then have "con_handler p s = CheckCharAvail this s" "pi_type p = ConsoleReadInt"
      by (simp_all add: poll_at_def con_handler_def PendingInterrupt_new_def)
    with poll_keeps[OF s assms(2) ok[unfolded ps p]] show ?thesis by simp
  next
    assume p: "(k, p) = done_at this v"
    then have "con_handler p s = Console_WriteDone this s" "pi_type p = ConsoleWriteInt"
      by (simp_all add: done_at_def con_handler_def PendingInterrupt_new_def)
    with done_keeps[OF s assms(2) ok[unfolded ps p]] show ?thesis by simp
  qed
qed

lemma con_inv_frame:
  assumes "con_inv this ra wd c wt taken writing B v input out s" "mset (pending i) = mset (pending (intr s))" "loadable m"
  shows "con_inv this ra wd c wt taken writing B v input out (s\<lparr>intr := i, stats := st, machine := m\<rparr>)"
proof -
  from assms(1) obtain con x y th ps ready arr where view: "con_view this ra wd c con x y th ps ready arr out s" and
    ok: "con_ok this c wt taken writing B v input con x y th ps ready arr"
    by (rule con_invE)
  have "con_view this ra wd c con x y th ps ready arr out (s\<lparr>intr := i, stats := st, machine := m\<rparr>)"
    using view assms(2,3) by (simp add: con_view_def)
  then show ?thesis using ok by (rule con_invI)
qed

lemma con_inv_loadable: "con_inv this ra wd c wt taken writing B v input out s \<Longrightarrow> loadable (machine s)"
  by (auto simp: con_view_def elim!: con_invE)

interpretation echo: thread_waits "con_cb n" "con_inv this ra wd c wt taken writing B v input out"
  for n this ra wd c wt taken writing B v input out
proof (unfold_locales, goal_cases)
  case (1 s i st)
  then show ?case using con_inv_frame[OF 1 con_inv_loadable[OF 1(1)]] by simp
next
  case (2 ps s)
  then obtain m where m: "delayed_load s = Ok (s\<lparr>machine := m\<rparr>)" "loadable m"
    using delayed_load_loadable[of s] con_inv_loadable[OF 2] by auto
  have "upd_intr (pending_update (\<lambda>_. ps)) (s\<lparr>machine := m\<rparr>) =
      (upd_intr (pending_update (\<lambda>_. ps)) s)\<lparr>intr := (intr s)\<lparr>pending := ps\<rparr>, stats := stats s, machine := m\<rparr>"
    by (simp add: upd_intr_def)
  with con_inv_frame[OF 2 _ m(2)] m(1) show ?case by simp
next
  case (3 k p s)
  then show ?case using con_handler_keeps[OF 3(1,2)] by simp
qed

subsection \<open>The waits of the echo thread\<close>

lemma take_read:
  assumes "con_inv this ra wd c NoWait False False B v input out s" "sems s ra = Some x" "sem_value x \<noteq> 0"
  shows "con_inv this ra wd c NoWait True False B v input out (take_sem ra x s)"
  using assms
proof (elim con_invE)
  fix con x' y th ps ready arr
  assume view: "con_view this ra wd c con x' y th ps ready arr out s" and ok: "con_ok this c NoWait False False B v input con x' y th ps ready arr"
  have "con_view this ra wd c con (x\<lparr>sem_value := sem_value x - 1\<rparr>) y th ps ready arr out (take_sem ra x s)"
    using view assms(2) by (simp add: con_view_def take_sem_def)
  moreover have "con_ok this c NoWait True False B v input con (x\<lparr>sem_value := sem_value x - 1\<rparr>) y th ps ready arr"
    using view ok assms(2,3) by (auto simp: con_view_def con_ok_def split: if_splits)
  ultimately show ?thesis by (rule con_invI)
qed

lemma take_write:
  assumes "con_inv this ra wd c NoWait taken True B v input out s" "sems s wd = Some y" "sem_value y \<noteq> 0"
  shows "con_inv this ra wd c NoWait taken False B v input out (take_sem wd y s)"
  using assms
proof (elim con_invE)
  fix con x y' th ps ready arr
  assume view: "con_view this ra wd c con x y' th ps ready arr out s" and ok: "con_ok this c NoWait taken True B v input con x y' th ps ready arr"
  have "con_view this ra wd c con x (y\<lparr>sem_value := sem_value y - 1\<rparr>) th ps ready arr out (take_sem wd y s)"
    using view assms(2) by (simp add: con_view_def take_sem_def)
  moreover have "con_ok this c NoWait taken False B v input con x (y\<lparr>sem_value := sem_value y - 1\<rparr>) th ps ready arr"
    using view ok assms(2,3) by (auto simp: con_view_def con_ok_def split: if_splits)
  ultimately show ?thesis by (rule con_invI)
qed

lemma con_inv_running:
  assumes "con_inv this ra wd c wt taken writing B v input out s" "readyList s = [(k, t)]"
  shows "con_inv this ra wd c NoWait taken writing B v input out (running s)"
  using assms
proof (elim con_invE)
  fix con x y th ps ready arr
  assume view: "con_view this ra wd c con x y th ps ready arr out s" and ok: "con_ok this c wt taken writing B v input con x y th ps ready arr"
  have "con_view this ra wd c con x y (th\<lparr>th_status := RUNNING\<rparr>) ps [] arr out (running s)"
    using view by (simp add: con_view_def running_def)
  moreover have "ready = [(k, t)]" using view assms(2) by (simp add: con_view_def)
  then have "con_ok this c NoWait taken writing B v input con x y (th\<lparr>th_status := RUNNING\<rparr>) ps [] arr"
    using ok unfolding con_ok_def by (cases wt) (auto split: if_splits)
  ultimately show ?thesis by (rule con_invI)
qed

lemma con_inv_asleep:
  assumes "con_inv this ra wd c NoWait taken writing B v input out s"
    and "(wt = OnRead \<and> a = ra) \<or> (wt = OnWrite \<and> a = wd)" "sems s a = Some z" "sem_value z = 0"
  shows "con_inv this ra wd c wt taken writing B v input out (asleep a s)"
  using assms
proof (elim con_invE)
  fix con x y th ps ready arr
  assume view: "con_view this ra wd c con x y th ps ready arr out s" and ok: "con_ok this c NoWait taken writing B v input con x y th ps ready arr"
  let ?q = "sem_queue_update (map_option (kl_append c))"
  have "con_view this ra wd c con (if a = ra then ?q x else x) (if a = wd then ?q y else y) (th\<lparr>th_status := BLOCKED\<rparr>) ps ready arr out (asleep a s)"
    using view assms(2) by (auto simp: con_view_def asleep_def)
  moreover have "con_ok this c wt taken writing B v input con (if a = ra then ?q x else x) (if a = wd then ?q y else y) (th\<lparr>th_status := BLOCKED\<rparr>) ps ready arr"
    using view ok assms(2-4) by (auto simp: con_ok_def con_view_def kl_append_def)
  ultimately show ?thesis by (rule con_invI)
qed

lemma con_inv_semaphores:
  assumes "con_inv this ra wd c wt taken writing B v input out s"
  obtains x y th where "sems s ra = Some x" "sems s wd = Some y" "threads s c = Some th" "currentThread s = c" "threadToBeDestroyed s = None"
    "th_space th = None" "th_stack th \<in> {None, Some STACK_FENCEPOST}" "wt = NoWait \<longrightarrow> sem_queue x = Some [] \<and> sem_queue y = Some []"
    "wt = OnRead \<and> readyList s = [] \<longrightarrow> sem_value x = 0" "wt = OnRead \<and> readyList s \<noteq> [] \<longrightarrow> sem_value x \<noteq> 0 \<and> (\<exists>k. readyList s = [(k, c)])"
    "wt = OnWrite \<and> readyList s = [] \<longrightarrow> sem_value y = 0" "wt = OnWrite \<and> readyList s \<noteq> [] \<longrightarrow> sem_value y \<noteq> 0 \<and> (\<exists>k. readyList s = [(k, c)])"
  using assms
proof (elim con_invE)
  fix con x y th ps ready arr
  assume view: "con_view this ra wd c con x y th ps ready arr out s" and ok: "con_ok this c wt taken writing B v input con x y th ps ready arr"
  show thesis
    by (rule that[of x y th]) (use view ok in \<open>auto simp: con_view_def con_ok_def split: if_splits\<close>)
qed

text \<open>While the thread waits for a character, a poll comes in time; while it waits for a write, the completion comes at \<open>v\<close>.\<close>

lemma read_bound:
  assumes "con_inv this ra wd c OnRead False False B v ((t, ch) # rest) out s" "calm s" "readyList s = []"
  shows "pending (intr s) \<noteq> [] \<and> totalTicks (stats s) < max B (t + ConsoleTime)"
  using assms
proof (elim con_invE)
  fix con x y th ps ready arr
  assume view: "con_view this ra wd c con x y th ps ready arr out s" and ok: "con_ok this c OnRead False False B v ((t, ch) # rest) con x y th ps ready arr"
  have "sem_value x = 0" using view ok assms(3) by (auto simp: con_view_def con_ok_def split: if_splits)
  with ok have arr: "con_incoming con = EOF_char" "arr = (t, ch) # rest" by (auto simp: con_ok_def split: if_splits)
  with ok obtain w where w: "poll_at this w \<in># ps" "w \<le> B \<or> w < t + ConsoleTime" by (auto simp: con_ok_def split: if_splits)
  then have "poll_at this w \<in># mset (pending (intr s))" using view by (simp add: con_view_def)
  from calm_later[OF assms(2) this] this w(2) show ?thesis by (auto simp: poll_at_def)
qed

lemma write_bound:
  assumes "con_inv this ra wd c OnWrite taken True B v input out s" "calm s" "readyList s = []"
  shows "pending (intr s) \<noteq> [] \<and> totalTicks (stats s) < v"
  using assms
proof (elim con_invE)
  fix con x y th ps ready arr
  assume view: "con_view this ra wd c con x y th ps ready arr out s" and ok: "con_ok this c OnWrite taken True B v input con x y th ps ready arr"
  have "sem_value y = 0" using view ok assms(3) by (auto simp: con_view_def con_ok_def split: if_splits)
  with ok have "done_at this v \<in># ps" by (auto simp: con_ok_def split: if_splits)
  then have "done_at this v \<in># mset (pending (intr s))" using view by (simp add: con_view_def)
  from calm_later[OF assms(2) this] this show ?thesis by (auto simp: done_at_def)
qed

lemma con_inv_off:
  "con_inv this ra wd c wt taken writing B v input out s \<Longrightarrow> con_inv this ra wd c wt taken writing B v input out (off s)"
  unfolding off_def by (rule echo.frame_intr) simp_all

lemma wait_returns:
  fixes s :: "'a con_kern_scheme"
  assumes inv: "con_inv this ra wd c NoWait taken writing B v input out s" "awake s"
    and a: "(wt = OnRead \<and> a = ra) \<or> (wt = OnWrite \<and> a = wd)"
    and bound: "\<forall>u::'a con_kern_scheme. con_inv this ra wd c wt taken writing B v input out u \<longrightarrow> calm u \<longrightarrow> readyList u = [] \<longrightarrow>
      pending (intr u) \<noteq> [] \<and> totalTicks (stats u) < M"
  shows "\<exists>u z. P_loop (con_cb n) a (off s) = Some (Ok u) \<and> sems u a = Some z \<and> sem_value z \<noteq> 0 \<and>
    con_inv this ra wd c NoWait taken writing B v input out u \<and> calm u \<and> level (intr u) = IntOff \<and> mstatus (intr u) = SystemMode"
proof -
  let ?I = "\<lambda>wt. con_inv this ra wd c wt taken writing B v input out"
  note o = con_inv_off[OF inv(1)] and off = awake_off[OF inv(2)]
  obtain x th where x: "sems (off s) a = Some x" "sem_queue x = Some []" "threads (off s) (currentThread (off s)) = Some th"
    using o by (rule con_inv_semaphores) (use a in auto)
  show ?thesis
  proof (cases "sem_value x = 0")
    case False
    then show ?thesis using P_loop_nonzero[OF x(1)] x(1) o off by blast
  next
    case True
    have ready: "i = currentThread u \<and> q = [] \<and> threadToBeDestroyed u = None \<and>
        (\<exists>x th. sems u a = Some x \<and> sem_value x \<noteq> 0 \<and> threads u i = Some th \<and> th_space th = None \<and> th_stack th \<in> {None, Some STACK_FENCEPOST})"
      if "?I wt u" "readyList u = (k, i) # q" for u :: "'a con_kern_scheme" and k i q
      using that(1) by (rule con_inv_semaphores) (use that(2) a in auto)
    obtain u k where u: "P_loop (con_cb n) a (off s) = Some (Ok (running u))" "?I wt u" "readyList u = [(k, currentThread u)]" "calm u"
      "level (intr u) = IntOff" "mstatus (intr u) = SystemMode"
      using echo.P_loop_keeps[OF _ _ _ x(1) True x(2,3) con_inv_asleep[OF o a x(1) True] bound] ready off by blast
    obtain z where "sems u a = Some z" "sem_value z \<noteq> 0" using ready[OF u(2,3)] by auto
    moreover have "calm (running u)" using u(4) by (simp add: running_def calm_def pending_ok_def due_def)
    ultimately show ?thesis using u con_inv_running[OF u(2,3)] by (auto simp: running_def)
  qed
qed

lemma P_read:
  assumes "con_inv this ra wd c NoWait False False B v ((t, ch) # rest) out s" "awake s"
  shows "\<exists>s'. Semaphore_P (con_cb n) ra s = Ok s' \<and> con_inv this ra wd c NoWait True False B v ((t, ch) # rest) out s' \<and> awake s'"
proof -
  obtain u z where u: "P_loop (con_cb n) ra (off s) = Some (Ok u)" "sems u ra = Some z" "sem_value z \<noteq> 0"
    "con_inv this ra wd c NoWait False False B v ((t, ch) # rest) out u" "calm u" "level (intr u) = IntOff" "mstatus (intr u) = SystemMode"
    using wait_returns[OF assms, of OnRead ra] read_bound by blast
  have "con_inv this ra wd c NoWait True False B v ((t, ch) # rest) out (take_sem ra z u)" by (rule take_read[OF u(4,2,3)])
  then show ?thesis using echo.P_keeps[OF _ u(1,2,5-7)] assms(2) by (simp add: take_sem_def awake_def)
qed

lemma P_write:
  assumes "con_inv this ra wd c NoWait taken True B v input out s" "awake s"
  shows "\<exists>s'. Semaphore_P (con_cb n) wd s = Ok s' \<and> con_inv this ra wd c NoWait taken False B v input out s' \<and> awake s'"
proof -
  obtain u z where u: "P_loop (con_cb n) wd (off s) = Some (Ok u)" "sems u wd = Some z" "sem_value z \<noteq> 0"
    "con_inv this ra wd c NoWait taken True B v input out u" "calm u" "level (intr u) = IntOff" "mstatus (intr u) = SystemMode"
    using wait_returns[OF assms, of OnWrite wd] write_bound by blast
  have "con_inv this ra wd c NoWait taken False B v input out (take_sem wd z u)" by (rule take_write[OF u(4,2,3)])
  then show ?thesis using echo.P_keeps[OF _ u(1,2,5-7)] assms(2) by (simp add: take_sem_def awake_def)
qed

subsection \<open>Echoing\<close>

lemma GetChar_next:
  assumes "con_inv this ra wd c NoWait True False B v ((t, ch) # rest) out s" "awake s"
  shows "\<exists>s' B'. GetChar this s = Ok (ch, s') \<and> con_inv this ra wd c NoWait False False B' v rest out s' \<and> awake s' \<and> console s = Some this"
  using assms(1)
proof (rule con_invE)
  fix con x y th ps ready arr
  assume view: "con_view this ra wd c con x y th ps ready arr out s" and ok: "con_ok this c NoWait True False B v ((t, ch) # rest) con x y th ps ready arr"
  let ?s = "con_put this (con\<lparr>con_incoming := EOF_char\<rparr>) s"
  have "con_view this ra wd c (con\<lparr>con_incoming := EOF_char\<rparr>) x y th ps ready arr out ?s"
    using view by (simp add: con_view_def con_put_def)
  moreover have inc: "con_incoming con = ch" "arr = rest" using ok by (auto simp: con_ok_def split: if_splits)
  moreover obtain w where "ps = {#poll_at this w#}" using ok by (auto simp: con_ok_def split: if_splits)
  then have "con_ok this c NoWait False False w v rest (con\<lparr>con_incoming := EOF_char\<rparr>) x y th ps ready arr"
    using ok inc by (auto simp: con_ok_def split: if_splits list.splits)
  moreover have "GetChar this s = Ok (ch, ?s)" using view inc by (simp add: GetChar_def con_get_def con_view_def)
  moreover have "awake ?s" using assms(2) by (simp add: awake_def calm_def pending_ok_def due_def)
  moreover have "console s = Some this" using view by (simp add: con_view_def)
  ultimately show ?thesis using con_invI by metis
qed

lemma PutChar_next:
  assumes "con_inv this ra wd c NoWait False False B v input out s" "awake s"
  shows "\<exists>s' v'. PutChar this ch s = Ok s' \<and> con_inv this ra wd c NoWait False True B v' input (out @ [ch]) s' \<and> awake s'"
  using assms(1)
proof (rule con_invE)
  fix con x y th ps ready arr
  assume view: "con_view this ra wd c con x y th ps ready arr out s" and ok: "con_ok this c NoWait False False B v input con x y th ps ready arr"
  let ?fd = "con_writeFileNo con"
  let ?t = "con_put this (con\<lparr>con_putBusy := True\<rparr>) (s\<lparr>unix_out := (unix_out s)(?fd := unix_out s ?fd @ [ch])\<rparr>)"
  let ?v = "totalTicks (stats s) + ConsoleTime"
  let ?u = "upd_intr (pending_update (kl_insert (PendingInterrupt_new ConsoleWriteDone (int this) ?v ConsoleWriteInt) ?v)) ?t"
  have aw: "awake ?t" using assms(2) by (simp add: awake_def calm_def pending_ok_def due_def)
  have "0 < ConsoleTime" by (simp add: ConsoleTime_def)
  note sch = Schedule_calm[OF aw this, of ConsoleWriteDone "int this" ConsoleWriteInt]
  have "PutChar this ch s = Ok ?u" using view ok sch(1)
    by (simp add: PutChar_def Write_char_def con_get_def con_view_def con_ok_def ASSERT_def)
  moreover have "con_view this ra wd c (con\<lparr>con_putBusy := True\<rparr>) x y th (add_mset (done_at this ?v) ps) ready arr (out @ [ch]) ?u"
    using view by (simp add: con_view_def con_put_def upd_intr_def done_at_def)
  moreover have "con_ok this c NoWait False True B ?v input (con\<lparr>con_putBusy := True\<rparr>) x y th (add_mset (done_at this ?v) ps) ready arr"
    using ok by (auto simp: con_ok_def split: if_splits)
  moreover have "awake ?u" using sch(2) by simp
  ultimately show ?thesis using con_invI by metis
qed

text \<open>One turn of the loop echoes the next character.\<close>

lemma echo_next:
  assumes "con_inv this ra wd c NoWait False False B v ((t, ch) # rest) out s" "awake s"
  shows "\<exists>s' B' v'. echo n s = Ok (ch, s') \<and> con_inv this ra wd c NoWait False False B' v' rest (out @ [ch]) s' \<and> awake s'"
proof -
  obtain s1 where s1: "Semaphore_P (con_cb n) ra s = Ok s1" "con_inv this ra wd c NoWait True False B v ((t, ch) # rest) out s1" "awake s1"
    using P_read[OF assms] by blast
  obtain s2 B' where s2: "GetChar this s1 = Ok (ch, s2)" "con_inv this ra wd c NoWait False False B' v rest out s2" "awake s2" "console s1 = Some this"
    using GetChar_next[OF s1(2,3)] by blast
  obtain s3 v' where s3: "PutChar this ch s2 = Ok s3" "con_inv this ra wd c NoWait False True B' v' rest (out @ [ch]) s3" "awake s3"
    using PutChar_next[OF s2(2,3)] by blast
  obtain s4 where s4: "Semaphore_P (con_cb n) wd s3 = Ok s4" "con_inv this ra wd c NoWait False False B' v' rest (out @ [ch]) s4" "awake s4"
    using P_write[OF s3(2,3)] by blast
  have "readAvail s = Some ra" using assms(1) by (auto simp: con_view_def elim: con_invE)
  moreover have "writeDone s3 = Some wd" using s3(2) by (auto simp: con_view_def elim: con_invE)
  ultimately have "echo n s = Ok (ch, s4)" using s1(1) s2(1,4) s3(1) s4(1) by (simp add: echo_def)
  with s4 show ?thesis by blast
qed

lemma echo_loop_all:
  assumes "con_inv this ra wd c NoWait False False B v (line @ (t, 0x71) # rest) out s" "awake s" "0x71 \<notin> snd ` set line"
  shows "\<exists>s' B' v'. echo_loop n s = Some (Ok s') \<and> con_inv this ra wd c NoWait False False B' v' rest (out @ map snd line @ [0x71]) s' \<and> awake s'"
  using assms
proof (induction line arbitrary: s B v out)
  case Nil
  then obtain s' B' v' where "echo n s = Ok (0x71, s')" "con_inv this ra wd c NoWait False False B' v' rest (out @ [0x71]) s'" "awake s'"
    using echo_next by (metis append_Nil)
  then show ?case by (auto simp: echo_loop.simps[of n s])
next
  case (Cons p line)
  obtain u ch where p: "p = (u, ch)" by (cases p)
  then obtain s1 B' v' where s1: "echo n s = Ok (ch, s1)" "con_inv this ra wd c NoWait False False B' v' (line @ (t, 0x71) # rest) (out @ [ch]) s1" "awake s1"
    using echo_next[of this ra wd c B v u ch "line @ (t, 0x71) # rest" out s n] Cons.prems by auto
  have "ch \<noteq> 0x71" "0x71 \<notin> snd ` set line" using Cons.prems(3) p by auto
  with Cons.IH[OF s1(2,3)] s1(1) p show ?case by (auto simp: echo_loop.simps[of n s])
qed

text \<open>A kernel with one thread that can run, interrupts on and nothing pending, before the test creates its objects.\<close>

definition con_ready :: "'a con_kern_scheme \<Rightarrow> bool" where
  "con_ready s \<longleftrightarrow> quiet s \<and> readyList s = [] \<and> threadToBeDestroyed s = None \<and> loadable (machine s) \<and>
     (case threads s (currentThread s) of None \<Rightarrow> False
      | Some th \<Rightarrow> th_space th = None \<and> th_stack th \<in> {None, Some STACK_FENCEPOST})"

lemma con_ready_start:
  assumes s: "con_ready s" "unix_in s 0 = map (apsnd Some) input" "EOF_char \<notin> snd ` set input"
    and t: "Console_new None None ReadAvail WriteDone 0 s = Ok (con, t)"
      "Semaphore_new ''read avail'' 0 (t\<lparr>console := Some con\<rparr>) = (ra, t1)"
      "Semaphore_new ''write done'' 0 (t1\<lparr>readAvail := Some ra\<rparr>) = (wd, t2)"
  shows "\<exists>B. con_inv con ra wd (currentThread s) NoWait False False B 0 input (unix_out s 1) (t2\<lparr>writeDone := Some wd\<rparr>) \<and>
    awake (t2\<lparr>writeDone := Some wd\<rparr>)"
proof -
  let ?w = "totalTicks (stats s) + ConsoleTime"
  let ?con = "\<lparr>con_readFileNo = 0, con_writeFileNo = 1, con_writeHandler = WriteDone, con_readHandler = ReadAvail, con_handlerArg = 0,
    con_putBusy = False, con_incoming = EOF_char\<rparr>"
  let ?x = "\<lambda>name. \<lparr>sem_name = Some name, sem_value = 0, sem_queue = Some []\<rparr>"
  obtain th where th: "threads s (currentThread s) = Some th" "th_space th = None" "th_stack th \<in> {None, Some STACK_FENCEPOST}"
    using s(1) by (auto simp: con_ready_def split: option.splits)
  have con: "con = next_addr s" "ra = Suc con" "wd = Suc ra" and
    t2: "t2\<lparr>writeDone := Some wd\<rparr> = (upd_intr (pending_update (\<lambda>_. [poll_at con ?w])) s)\<lparr>next_addr := Suc wd,
      sems := (sems s)(ra := Some (?x ''read avail''), wd := Some (?x ''write done'')),
      consoles := (consoles s)(con := Some ?con), console := Some con, readAvail := Some ra, writeDone := Some wd\<rparr>"
    using t s(1) by (auto simp: Console_new_def Schedule_def Semaphore_new_def Let_def con_put_def poll_at_def con_ready_def quiet_def
        ConsoleTime_def upd_intr_def)
  have "con_view con ra wd (currentThread s) ?con (?x ''read avail'') (?x ''write done'') th {#poll_at con ?w#} [] input (unix_out s 1)
      (t2\<lparr>writeDone := Some wd\<rparr>)"
    using s th con unfolding t2 by (simp add: con_view_def con_ready_def upd_intr_def)
  moreover have "con_ok con (currentThread s) NoWait False False ?w 0 input ?con (?x ''read avail'') (?x ''write done'') th {#poll_at con ?w#} [] input"
    using s(3) th by (auto simp: con_ok_def split: list.splits)
  moreover have "awake (t2\<lparr>writeDone := Some wd\<rparr>)"
    using s(1) unfolding t2 by (auto simp: awake_def calm_def con_ready_def quiet_def pending_ok_def due_def poll_at_def PendingInterrupt_new_def ConsoleTime_def)
  ultimately show ?thesis using con_invI by blast
qed

text \<open>C33. The console test echoes its input: started by the only thread that can run, on the terminal, it returns after the first
  \<open>q\<close>, and the characters typed up to and including the \<open>q\<close> have been written to the display in their order, whatever the times at which they
  arrive. In between the thread sleeps on its two semaphores while polls and completion interrupts of the console
  fire. The character 255 is excluded: in the one-character buffer it stands for an empty buffer.\<close>

theorem ConsoleTest_echoes:
  assumes "con_ready s" "unix_in s 0 = map (apsnd Some) (line @ (t, 0x71) # rest)"
    and "EOF_char \<notin> snd ` set (line @ (t, 0x71) # rest)" "0x71 \<notin> snd ` set line"
  shows "\<exists>s'. ConsoleTest n None None s = Ok s' \<and> unix_out s' 1 = unix_out s 1 @ map snd line @ [0x71]"
proof -
  obtain con t0 where t0: "Console_new None None ReadAvail WriteDone 0 s = Ok (con, t0)"
    by (simp add: Console_new_def Schedule_def Let_def ConsoleTime_def)
  obtain ra t1 where t1: "Semaphore_new ''read avail'' 0 (t0\<lparr>console := Some con\<rparr>) = (ra, t1)" by fastforce
  obtain wd t2 where t2: "Semaphore_new ''write done'' 0 (t1\<lparr>readAvail := Some ra\<rparr>) = (wd, t2)" by fastforce
  obtain B where B: "con_inv con ra wd (currentThread s) NoWait False False B 0 (line @ (t, 0x71) # rest) (unix_out s 1) (t2\<lparr>writeDone := Some wd\<rparr>)"
    "awake (t2\<lparr>writeDone := Some wd\<rparr>)"
    using con_ready_start[OF assms(1-3) t0 t1 t2] by blast
  obtain s' B' v' where s': "echo_loop n (t2\<lparr>writeDone := Some wd\<rparr>) = Some (Ok s')"
    "con_inv con ra wd (currentThread s) NoWait False False B' v' rest (unix_out s 1 @ map snd line @ [0x71]) s'"
    using echo_loop_all[OF B assms(4)] by blast
  have "ConsoleTest n None None s = Ok s'" using t0 t1 t2 s'(1) by (simp add: ConsoleTest_def loop_result_def)
  moreover have "unix_out s' 1 = unix_out s 1 @ map snd line @ [0x71]" using s'(2) by (auto simp: con_view_def con_ok_def elim: con_invE)
  ultimately show ?thesis by blast
qed

text \<open>A kernel with one thread and the line \<open>hi q\<close> on its terminal, typed before, during and after the first poll.\<close>

definition typed_line :: con_kern where
  "typed_line = kern.extend (zeroed\<lparr>intr := Interrupt_new\<lparr>level := IntOn\<rparr>, currentThread := 1, next_addr := 2,
       threads := (\<lambda>_. None)(1 := Some \<lparr>th_start = None, th_uid = 0, th_tid = 0, th_priority = 255, th_stack = None,
         th_status = RUNNING, th_name = ''main'', th_userRegisters = [], th_space = None\<rparr>)\<rparr>)
     \<lparr>consoles = (\<lambda>_. None), console = None, readAvail = None, writeDone = None,
      unix_in = (\<lambda>_. [])(0 := [(0, Some 0x68), (0, Some 0x69), (100, Some 0x20), (5000, Some 0x71)]),
      unix_out = (\<lambda>_. []), unix_open = (\<lambda>_. -1)\<rparr>"

theorem ConsoleTest_echoes_witness:
  "\<exists>s'. ConsoleTest 0 None None typed_line = Ok s' \<and> unix_out s' 1 = [0x68, 0x69, 0x20, 0x71]"
proof -
  have s: "con_ready typed_line" "unix_out typed_line 1 = []"
    by (simp_all add: con_ready_def typed_line_def kern.defs zeroed_def quiet_def Interrupt_new_def loadable_def)
  have i: "unix_in typed_line 0 = map (apsnd Some) ([(0, 0x68), (0, 0x69), (100, 0x20)] @ (5000, 0x71) # [])"
    by (simp add: typed_line_def kern.defs)
  show ?thesis using ConsoleTest_echoes[OF s(1) i, of 0] s(2) by (simp add: EOF_char_def)
qed

end
