(* ===== verification/Synch_List.thy ===== *)
theory Synch_List
  imports Device_Waits
begin

text \<open>
  The synchronised list, src/threads/synchlist.cc and synchlist.h: a list of pointers under a lock, with a condition variable on
  which a thread waits that finds the list empty.
\<close>

subsection \<open>State and operations\<close>

record SynchList =
  sl_list :: "nat klist"
  sl_lock :: nat
  sl_listEmpty :: nat

record sl_kern = kern +
  slists :: "nat \<Rightarrow> SynchList option"

definition sl_get :: "nat \<Rightarrow> 'a sl_kern_scheme \<Rightarrow> SynchList result" where
  "sl_get this s = the_ptr (slists s this)"

definition sl_put :: "nat \<Rightarrow> nat klist \<Rightarrow> 'a sl_kern_scheme \<Rightarrow> 'a sl_kern_scheme result" where
  "sl_put this xs s = rbind (sl_get this s) (\<lambda>l. Ok (s\<lparr>slists := (slists s)(this := Some (l\<lparr>sl_list := xs\<rparr>))\<rparr>))"

definition SynchList_new :: "'a sl_kern_scheme \<Rightarrow> nat \<times> 'a sl_kern_scheme" where
  "SynchList_new s =
     (let this = next_addr s;
          (lock, s) = Lock_new ''list lock'' (s\<lparr>next_addr := Suc this\<rparr>);
          (listEmpty, s) = Condition_new ''list empty cond'' s
      in (this, s\<lparr>slists := (slists s)(this := Some \<lparr>sl_list = [], sl_lock = lock, sl_listEmpty = listEmpty\<rparr>)\<rparr>))"

definition SynchList_delete :: "nat \<Rightarrow> 'a sl_kern_scheme \<Rightarrow> 'a sl_kern_scheme result" where
  "SynchList_delete this s =
     rbind (sl_get this s) (\<lambda>l.
     rbind (Lock_delete (sl_lock l) s) (\<lambda>s.
     rbind (Condition_delete (sl_listEmpty l) s) (\<lambda>s.
     Ok (s\<lparr>slists := (slists s)(this := None)\<rparr>))))"

definition SynchList_Append :: "'a sl_kern_scheme callbacks \<Rightarrow> nat \<Rightarrow> nat \<Rightarrow> 'a sl_kern_scheme \<Rightarrow> 'a sl_kern_scheme result" where
  "SynchList_Append cb this item s =
     rbind (sl_get this s) (\<lambda>l.
     rbind (Lock_Acquire cb (sl_lock l) s) (\<lambda>s.
     rbind (sl_get this s) (\<lambda>l.
     rbind (sl_put this (kl_append item (sl_list l)) s) (\<lambda>s.
     rbind (Condition_Signal cb (sl_listEmpty l) (sl_lock l) s) (\<lambda>s.
     Lock_Release cb (sl_lock l) s)))))"

text \<open>\<^verbatim>\<open>while (list->IsEmpty()) listEmpty->Wait(lock);\<close>\<close>

partial_function (option) nonempty_loop :: "'a sl_kern_scheme callbacks \<Rightarrow> nat \<Rightarrow> 'a sl_kern_scheme \<Rightarrow>
    'a sl_kern_scheme result option" where
  "nonempty_loop cb this s =
     (case sl_get this s of
        Err e \<Rightarrow> Some (Err e)
      | Ok l \<Rightarrow>
          if sl_list l \<noteq> [] then Some (Ok s)
          else (case Condition_Wait cb (sl_listEmpty l) (sl_lock l) s of
                  Err e \<Rightarrow> Some (Err e)
                | Ok s \<Rightarrow> nonempty_loop cb this s))"

definition SynchList_Remove :: "'a sl_kern_scheme callbacks \<Rightarrow> nat \<Rightarrow> 'a sl_kern_scheme \<Rightarrow> (nat \<times> 'a sl_kern_scheme) result" where
  "SynchList_Remove cb this s =
     rbind (sl_get this s) (\<lambda>l.
     rbind (Lock_Acquire cb (sl_lock l) s) (\<lambda>s.
     rbind (loop_result (nonempty_loop cb this s)) (\<lambda>s.
     rbind (sl_get this s) (\<lambda>l.
       case kl_remove (sl_list l) of
         (None, q) \<Rightarrow> Err AssertFailed
       | (Some (_, item), q) \<Rightarrow>
           rbind (sl_put this q s) (\<lambda>s.
           ASSERT (item \<noteq> 0)
             (rbind (Lock_Release cb (sl_lock l) s) (\<lambda>s. Ok (item, s))))))))"

fun mapcar_items :: "(nat \<Rightarrow> 's \<Rightarrow> 's result) \<Rightarrow> nat klist \<Rightarrow> 's \<Rightarrow> 's result" where
  "mapcar_items func [] s = Ok s"
| "mapcar_items func ((_, item) # xs) s = rbind (func item s) (\<lambda>s. mapcar_items func xs s)"

definition SynchList_Mapcar :: "'a sl_kern_scheme callbacks \<Rightarrow> (nat \<Rightarrow> 'a sl_kern_scheme \<Rightarrow> 'a sl_kern_scheme result) \<Rightarrow> nat \<Rightarrow>
    'a sl_kern_scheme \<Rightarrow> 'a sl_kern_scheme result" where
  "SynchList_Mapcar cb func this s =
     rbind (sl_get this s) (\<lambda>l.
     rbind (Lock_Acquire cb (sl_lock l) s) (\<lambda>s.
     rbind (sl_get this s) (\<lambda>l.
     rbind (mapcar_items func (sl_list l) s) (\<lambda>s.
     Lock_Release cb (sl_lock l) s))))"

end
