(* ===== verification/Network.thy ===== *)
theory Network
  imports Complex_Main Synch_List
begin

text \<open>
  The network device, src/machine/network.cc and network.h. Packets go through datagram sockets of the host, which are part of the
  state: the datagrams that arrive on a socket with the time of the simulation from which each can be read, and the
  datagrams sent, with the address in the name of the socket. The reliability, a \<^verbatim>\<open>double\<close>, is a rational number.
\<close>

subsection \<open>Packets\<close>

record PacketHeader =
  pkt_to :: u32
  pkt_from :: u32
  pkt_length :: u32

definition MaxWireSize :: nat where "MaxWireSize = 64"
definition MaxPacketSize :: nat where "MaxPacketSize = MaxWireSize - 12"

text \<open>The bytes of a header.\<close>

definition pkt_to_bytes :: "PacketHeader \<Rightarrow> byte list" where
  "pkt_to_bytes h = u32_to_le (pkt_to h) @ u32_to_le (pkt_from h) @ u32_to_le (pkt_length h)"

definition pkt_of_bytes :: "byte list \<Rightarrow> PacketHeader" where
  "pkt_of_bytes bs = \<lparr>pkt_to = u32_of_le (take 4 bs), pkt_from = u32_of_le (take 4 (drop 4 bs)),
                      pkt_length = u32_of_le (take 4 (drop 8 bs))\<rparr>"

lemma pkt_roundtrip [simp]: "pkt_of_bytes (pkt_to_bytes h @ bs) = h"
  by (simp add: pkt_of_bytes_def pkt_to_bytes_def)

lemma length_pkt_to_bytes [simp]: "length (pkt_to_bytes h) = 12"
  by (simp add: pkt_to_bytes_def)

text \<open>\<^verbatim>\<open>bcopy(src, dst, n)\<close> between buffers that hold at least \<open>n\<close> bytes.\<close>

definition bcopy :: "byte list \<Rightarrow> byte list \<Rightarrow> nat \<Rightarrow> byte list result" where
  "bcopy src dst n = (if n \<le> length src \<and> n \<le> length dst then Ok (take n src @ drop n dst) else Err OutOfBounds)"

subsection \<open>State\<close>

text \<open>The handlers that the post office passes to the device, with the post office as the argument.\<close>

datatype NetRoutine = NetReadAvail | NetWriteDone

record Network =
  net_ident :: u32
  net_chanceToWork :: rat
  net_sock :: int
  net_writeHandler :: NetRoutine
  net_readHandler :: NetRoutine
  net_handlerArg :: nat
  net_sendBusy :: bool
  net_inHdr :: PacketHeader
  net_inbox :: "byte list"

record MailHeader =
  mail_to :: u32
  mail_from :: u32
  mail_length :: u32

record Mail =
  ml_pktHdr :: PacketHeader
  ml_mailHdr :: MailHeader
  ml_data :: "byte list"

record PostOffice =
  po_network :: nat
  po_netAddr :: u32
  po_boxes :: "nat list"
  po_numBoxes :: int
  po_messageAvailable :: nat
  po_messageSent :: nat
  po_sendLock :: nat

text \<open>The last four fields are the host: arriving and sent datagrams, the sockets that exist, and
  the bytes that fresh buffers happen to hold.\<close>

record net_kern = sl_kern +
  nets :: "nat \<Rightarrow> Network option"
  offices :: "nat \<Rightarrow> PostOffice option"
  mails :: "nat \<Rightarrow> Mail option"
  sock_in :: "int \<Rightarrow> (int \<times> byte list) list"
  sock_out :: "(u32 \<times> byte list) list"
  sock_bound :: "u32 \<Rightarrow> bool"
  sock_next :: int
  fresh_bytes :: "byte list"

definition net_get :: "nat \<Rightarrow> 'a net_kern_scheme \<Rightarrow> Network result" where
  "net_get this s = the_ptr (nets s this)"

definition net_put :: "nat \<Rightarrow> Network \<Rightarrow> 'a net_kern_scheme \<Rightarrow> 'a net_kern_scheme" where
  "net_put this net s = s\<lparr>nets := (nets s)(this := Some net)\<rparr>"

definition po_get :: "nat \<Rightarrow> 'a net_kern_scheme \<Rightarrow> PostOffice result" where
  "po_get this s = the_ptr (offices s this)"

text \<open>A fresh buffer of the given size.\<close>

definition new_bytes :: "nat \<Rightarrow> 'a net_kern_scheme \<Rightarrow> byte list" where
  "new_bytes n s = take n (fresh_bytes s @ replicate n 0)"

lemma length_new_bytes [simp]: "length (new_bytes n s) = n"
  by (simp add: new_bytes_def)

subsection \<open>Sockets\<close>

definition OpenSocket :: "'a net_kern_scheme \<Rightarrow> (int \<times> 'a net_kern_scheme) result" where
  "OpenSocket s = (let sockID = sock_next s in ASSERT (0 \<le> sockID) (Ok (sockID, s\<lparr>sock_next := sockID + 1\<rparr>)))"

definition AssignNameToSocket :: "u32 \<Rightarrow> 'a net_kern_scheme \<Rightarrow> 'a net_kern_scheme" where
  "AssignNameToSocket socketName s = s\<lparr>sock_bound := (sock_bound s)(socketName := True)\<rparr>"

definition DeAssignNameToSocket :: "u32 \<Rightarrow> 'a net_kern_scheme \<Rightarrow> 'a net_kern_scheme" where
  "DeAssignNameToSocket socketName s = s\<lparr>sock_bound := (sock_bound s)(socketName := False)\<rparr>"

definition PollSocket :: "int \<Rightarrow> 'a net_kern_scheme \<Rightarrow> bool" where
  "PollSocket sockID s = (case sock_in s sockID of [] \<Rightarrow> False | (t, _) # _ \<Rightarrow> t \<le> totalTicks (stats s))"

definition ReadFromSocket :: "int \<Rightarrow> nat \<Rightarrow> 'a net_kern_scheme \<Rightarrow> (byte list \<times> 'a net_kern_scheme) result" where
  "ReadFromSocket sockID packetSize s =
     (case sock_in s sockID of
        [] \<Rightarrow> Err Diverges
      | (_, d) # rest \<Rightarrow>
          ASSERT (min (length d) packetSize = packetSize)
            (Ok (take packetSize d, s\<lparr>sock_in := (sock_in s)(sockID := rest)\<rparr>)))"

definition SendToSocket :: "byte list \<Rightarrow> u32 \<Rightarrow> 'a net_kern_scheme \<Rightarrow> 'a net_kern_scheme result" where
  "SendToSocket packet toName s =
     ASSERT (sock_bound s toName) (Ok (s\<lparr>sock_out := sock_out s @ [(toName, packet)]\<rparr>))"

subsection \<open>The device\<close>

definition Network_new :: "PacketHeader \<Rightarrow> byte list \<Rightarrow> u32 \<Rightarrow> rat \<Rightarrow> NetRoutine \<Rightarrow> NetRoutine \<Rightarrow> nat \<Rightarrow> 'a net_kern_scheme \<Rightarrow>
    (nat \<times> 'a net_kern_scheme) result" where
  "Network_new junkHdr junkBox addr reliability onRead onWrite callArg s =
     (let this = next_addr s; s = s\<lparr>next_addr := Suc this\<rparr>;
          chance = (if reliability < 0 then 0 else if reliability > 1 then 1 else reliability)
      in rbind (OpenSocket s) (\<lambda>(sock, s).
         let s = AssignNameToSocket addr s;
             s = net_put this \<lparr>net_ident = addr, net_chanceToWork = chance, net_sock = sock, net_writeHandler = onWrite,
                   net_readHandler = onRead, net_handlerArg = callArg, net_sendBusy = False,
                   net_inHdr = junkHdr\<lparr>pkt_length := 0\<rparr>, net_inbox = junkBox\<rparr> s
         in rbind (Schedule NetworkReadPoll (int this) NetworkTime NetworkRecvInt s) (\<lambda>s. Ok (this, s))))"

definition Network_delete :: "nat \<Rightarrow> 'a net_kern_scheme \<Rightarrow> 'a net_kern_scheme result" where
  "Network_delete this s =
     rbind (net_get this s) (\<lambda>net.
     Ok (DeAssignNameToSocket (net_ident net) (s\<lparr>nets := (nets s)(this := None)\<rparr>)))"

text \<open>\<open>IncomingPacket\<close> and \<open>PacketSent\<close> of the post office, which \<open>ReadAvail\<close> and \<open>WriteDone\<close> of post.cc call.\<close>

definition IncomingPacket :: "nat \<Rightarrow> 'a net_kern_scheme \<Rightarrow> 'a net_kern_scheme result" where
  "IncomingPacket po s = rbind (po_get po s) (\<lambda>off. Semaphore_V handler_cb (po_messageAvailable off) s)"

definition PacketSent :: "nat \<Rightarrow> 'a net_kern_scheme \<Rightarrow> 'a net_kern_scheme result" where
  "PacketSent po s = rbind (po_get po s) (\<lambda>off. Semaphore_V handler_cb (po_messageSent off) s)"

definition net_routine :: "NetRoutine \<Rightarrow> nat \<Rightarrow> 'a net_kern_scheme \<Rightarrow> 'a net_kern_scheme result" where
  "net_routine r arg s = (case r of NetReadAvail \<Rightarrow> IncomingPacket arg s | NetWriteDone \<Rightarrow> PacketSent arg s)"

definition CheckPktAvail :: "nat \<Rightarrow> 'a net_kern_scheme \<Rightarrow> 'a net_kern_scheme result" where
  "CheckPktAvail this s =
     rbind (Schedule NetworkReadPoll (int this) NetworkTime NetworkRecvInt s) (\<lambda>s.
     rbind (net_get this s) (\<lambda>net.
       if pkt_length (net_inHdr net) \<noteq> 0 then Ok s
       else if \<not> PollSocket (net_sock net) s then Ok s
       else
         rbind (ReadFromSocket (net_sock net) MaxWireSize s) (\<lambda>(buffer, s).
           let hdr = pkt_of_bytes buffer
           in ASSERT (pkt_to hdr = net_ident net \<and> unat (pkt_length hdr) \<le> MaxPacketSize)
                (rbind (bcopy (drop 12 buffer) (net_inbox net) (unat (pkt_length hdr))) (\<lambda>inbox.
                   let s = net_put this (net\<lparr>net_inHdr := hdr, net_inbox := inbox\<rparr>) s;
                       s = upd_stats (\<lambda>st. st\<lparr>numPacketsRecvd := numPacketsRecvd st + 1\<rparr>) s
                   in net_routine (net_readHandler net) (net_handlerArg net) s)))))"

definition SendDone :: "nat \<Rightarrow> 'a net_kern_scheme \<Rightarrow> 'a net_kern_scheme result" where
  "SendDone this s =
     rbind (net_get this s) (\<lambda>net.
       let s = net_put this (net\<lparr>net_sendBusy := False\<rparr>) s;
           s = upd_stats (\<lambda>st. st\<lparr>numPacketsSent := numPacketsSent st + 1\<rparr>) s
       in net_routine (net_writeHandler net) (net_handlerArg net) s)"

text \<open>Nothing sets \<open>sendBusy\<close>. A packet is lost when the random number is too large for the reliability.\<close>

definition Network_Send :: "nat \<Rightarrow> PacketHeader \<Rightarrow> byte list \<Rightarrow> 'a net_kern_scheme \<Rightarrow> 'a net_kern_scheme result" where
  "Network_Send this hdr data s =
     rbind (net_get this s) (\<lambda>net.
     ASSERT (\<not> net_sendBusy net \<and> 0 < pkt_length hdr \<and> unat (pkt_length hdr) \<le> MaxPacketSize \<and> pkt_from hdr = net_ident net)
       (rbind (Schedule NetworkSendDone (int this) NetworkTime NetworkSendInt s) (\<lambda>s.
        let (r, s) = Random s in
        if of_int (r smod 100) \<ge> net_chanceToWork net * 100 then Ok s
        else
          rbind (bcopy data (drop 12 (new_bytes MaxWireSize s)) (unat (pkt_length hdr))) (\<lambda>payload.
          SendToSocket (pkt_to_bytes hdr @ payload) (pkt_to hdr) s))))"

text \<open>The header of the buffered packet, and the buffer of the caller with the data copied in.\<close>

definition Network_Receive :: "nat \<Rightarrow> byte list \<Rightarrow> 'a net_kern_scheme \<Rightarrow> (PacketHeader \<times> byte list \<times> 'a net_kern_scheme) result" where
  "Network_Receive this data s =
     rbind (net_get this s) (\<lambda>net.
       let hdr = net_inHdr net;
           s = net_put this (net\<lparr>net_inHdr := hdr\<lparr>pkt_length := 0\<rparr>\<rparr>) s
       in if pkt_length hdr \<noteq> 0
          then rbind (bcopy (net_inbox net) data (unat (pkt_length hdr))) (\<lambda>data. Ok (hdr, data, s))
          else Ok (hdr, data, s))"

text \<open>\<open>NetworkReadPoll\<close> and \<open>NetworkSendDone\<close> hand their argument to the device as the object.\<close>

definition net_handler :: "PendingInterrupt \<Rightarrow> 'a net_kern_scheme \<Rightarrow> 'a net_kern_scheme result" where
  "net_handler p s =
     (case pi_handler p of
        NetworkReadPoll \<Rightarrow> CheckPktAvail (nat (pi_arg p)) s
      | NetworkSendDone \<Rightarrow> SendDone (nat (pi_arg p)) s
      | _ \<Rightarrow> kernel_handler p s)"

abbreviation net_cb :: "nat \<Rightarrow> 'a net_kern_scheme callbacks" where
  "net_cb \<equiv> device_cb net_handler"

subsection \<open>The handlers meet the interface of the interrupt code\<close>

lemma net_put_frame [simp]: "intr (net_put this net s) = intr s" "stats (net_put this net s) = stats s"
  by (simp_all add: net_put_def)

lemma net_routine_frame:
  assumes "level (intr s) = IntOff" "net_routine r arg s = Ok s'"
  shows "intr s' = intr s \<and> stats s' = stats s"
proof -
  from assms(2) obtain sem where "Semaphore_V handler_cb sem s = Ok s'"
    by (cases r) (auto simp: net_routine_def IncomingPacket_def PacketSent_def result_simps)
  with Semaphore_V_off_frame[OF assms(1)] show ?thesis by blast
qed

lemma SendDone_frame:
  assumes "level (intr s) = IntOff" "SendDone this s = Ok s'"
  shows "intr s' = intr s \<and> clock s' = clock s"
proof -
  from assms(2) obtain net where
    "net_routine (net_writeHandler net) (net_handlerArg net) (upd_stats (\<lambda>st. st\<lparr>numPacketsSent := numPacketsSent st + 1\<rparr>)
       (net_put this (net\<lparr>net_sendBusy := False\<rparr>) s)) = Ok s'"
    by (auto simp: SendDone_def Let_def result_simps)
  from net_routine_frame[OF _ this] assms(1) show ?thesis by (simp add: clock_def)
qed

lemma CheckPktAvail_frame:
  assumes "pending_ok s" "level (intr s) = IntOff" "CheckPktAvail this s = Ok s'"
  shows "level (intr s') = IntOff \<and> clock s' = clock s \<and> pending_ok s' \<and> due s' = due s"
proof -
  from assms(3) obtain t net where t: "Schedule NetworkReadPoll (int this) NetworkTime NetworkRecvInt s = Ok t" "net_get this t = Ok net"
    by (auto simp: CheckPktAvail_def result_simps)
  note S = Schedule_spec[OF assms(1) t(1)]
  have "intr s' = intr t \<and> clock s' = clock t"
  proof (cases "pkt_length (net_inHdr net) \<noteq> 0 \<or> \<not> PollSocket (net_sock net) t")
    case True
    then show ?thesis using assms(3) t by (auto simp: CheckPktAvail_def split: if_splits)
  next
    case False
    then obtain buf u inbox where u: "ReadFromSocket (net_sock net) MaxWireSize t = Ok (buf, u)" and
      r: "net_routine (net_readHandler net) (net_handlerArg net) (upd_stats (\<lambda>st. st\<lparr>numPacketsRecvd := numPacketsRecvd st + 1\<rparr>)
        (net_put this (net\<lparr>net_inHdr := pkt_of_bytes buf, net_inbox := inbox\<rparr>) u)) = Ok s'"
      using assms(3) t by (auto simp: CheckPktAvail_def Let_def result_simps)
    have "intr u = intr t" "stats u = stats t" using u by (auto simp: ReadFromSocket_def result_simps split: list.splits)
    with net_routine_frame[OF _ r] assms(2) S show ?thesis by (simp add: clock_def)
  qed
  with S assms(2) show ?thesis by (auto simp: clock_def pending_ok_def due_def)
qed

interpretation net: interrupt_handlers "net_cb n" for n
proof (rule device_handlers)
  fix s s' :: "'a net_kern_scheme" and p
  assume a: "pending_ok s" "level (intr s) = IntOff" "net_handler p s = Ok s'"
  show "level (intr s') = IntOff \<and> clock s' = clock s \<and> pending_ok s' \<and> due s' \<le> due s"
  proof (cases "pi_handler p = NetworkReadPoll \<or> pi_handler p = NetworkSendDone")
    case True
    then show ?thesis
    proof
      assume "pi_handler p = NetworkReadPoll"
      with a CheckPktAvail_frame[OF a(1,2)] show ?thesis by (simp add: net_handler_def)
    next
      assume "pi_handler p = NetworkSendDone"
      with a SendDone_frame[OF a(2)] show ?thesis by (auto simp: net_handler_def pending_ok_def due_def clock_def)
    qed
  next
    case False
    then have "net_handler p s = kernel_handler p s" by (cases "pi_handler p") (simp_all add: net_handler_def)
    with a kernel.handler[OF a(1,2)] show ?thesis by simp
  qed
qed

end
