(* ===== verification/Post_Office.thy ===== *)
theory Post_Office
  imports Network
begin

text \<open>
  The post office, src/network/post.cc and post.h, and the mail test of src/network/nettest.cc. A message travels as
  the data of a packet with a header of its own in front; mail that has arrived waits in a mailbox, a synchronised list of
  pointers to \<open>Mail\<close> objects. The postal worker is the body of a thread of its own.
\<close>

subsection \<open>Mail\<close>

definition MaxMailSize :: nat where "MaxMailSize = MaxPacketSize - 12"

definition mail_to_bytes :: "MailHeader \<Rightarrow> byte list" where
  "mail_to_bytes h = u32_to_le (mail_to h) @ u32_to_le (mail_from h) @ u32_to_le (mail_length h)"

definition mail_of_bytes :: "byte list \<Rightarrow> MailHeader" where
  "mail_of_bytes bs = \<lparr>mail_to = u32_of_le (take 4 bs), mail_from = u32_of_le (take 4 (drop 4 bs)),
                       mail_length = u32_of_le (take 4 (drop 8 bs))\<rparr>"

lemma mail_bytes_roundtrip [simp]: "mail_of_bytes (mail_to_bytes h @ bs) = h"
  by (simp add: mail_of_bytes_def mail_to_bytes_def)

lemma length_mail_to_bytes [simp]: "length (mail_to_bytes h) = 12"
  by (simp add: mail_to_bytes_def)

definition Mail_new :: "PacketHeader \<Rightarrow> MailHeader \<Rightarrow> byte list \<Rightarrow> 'a net_kern_scheme \<Rightarrow> (nat \<times> 'a net_kern_scheme) result" where
  "Mail_new pktH mailH msgData s =
     (let this = next_addr s in
      ASSERT (unat (mail_length mailH) \<le> MaxMailSize)
        (rbind (bcopy msgData (new_bytes MaxMailSize s) (unat (mail_length mailH))) (\<lambda>data.
         Ok (this, s\<lparr>mails := (mails s)(this := Some \<lparr>ml_pktHdr = pktH, ml_mailHdr = mailH, ml_data = data\<rparr>),
                     next_addr := Suc this\<rparr>))))"

subsection \<open>Mailboxes\<close>

definition MailBox_new :: "'a net_kern_scheme \<Rightarrow> nat \<times> 'a net_kern_scheme" where
  "MailBox_new s = SynchList_new s"

definition MailBox_delete :: "nat \<Rightarrow> 'a net_kern_scheme \<Rightarrow> 'a net_kern_scheme result" where
  "MailBox_delete box s = SynchList_delete box s"

definition MailBox_Put :: "'a net_kern_scheme callbacks \<Rightarrow> nat \<Rightarrow> PacketHeader \<Rightarrow> MailHeader \<Rightarrow> byte list \<Rightarrow> 'a net_kern_scheme \<Rightarrow>
    'a net_kern_scheme result" where
  "MailBox_Put cb box pktHdr mailHdr data s =
     rbind (Mail_new pktHdr mailHdr data s) (\<lambda>(mail, s). SynchList_Append cb box mail s)"

text \<open>The two headers, and the buffer of the caller with the data copied in.\<close>

definition MailBox_Get :: "'a net_kern_scheme callbacks \<Rightarrow> nat \<Rightarrow> byte list \<Rightarrow> 'a net_kern_scheme \<Rightarrow>
    (PacketHeader \<times> MailHeader \<times> byte list \<times> 'a net_kern_scheme) result" where
  "MailBox_Get cb box data s =
     rbind (SynchList_Remove cb box s) (\<lambda>(mail, s).
     rbind (the_ptr (mails s mail)) (\<lambda>ml.
     rbind (bcopy (ml_data ml) data (unat (mail_length (ml_mailHdr ml)))) (\<lambda>data.
     Ok (ml_pktHdr ml, ml_mailHdr ml, data, s\<lparr>mails := (mails s)(mail := None)\<rparr>))))"

subsection \<open>The post office\<close>

fun new_boxes :: "nat \<Rightarrow> 'a net_kern_scheme \<Rightarrow> nat list \<times> 'a net_kern_scheme" where
  "new_boxes 0 s = ([], s)"
| "new_boxes (Suc k) s = (let (b, s) = MailBox_new s; (bs, s) = new_boxes k s in (b # bs, s))"

text \<open>The procedure of the postal worker, as a code address for \<open>Fork\<close>.\<close>

definition POSTAL_HELPER :: nat where "POSTAL_HELPER = 3"

definition PostOffice_new :: "nat \<Rightarrow> PacketHeader \<Rightarrow> u32 list \<Rightarrow> u32 \<Rightarrow> rat \<Rightarrow> nat \<Rightarrow> 'a net_kern_scheme \<Rightarrow> (nat \<times> 'a net_kern_scheme) result" where
  "PostOffice_new n junkHdr junkRegs addr reliability nBoxes s =
     (let this = next_addr s;
          (messageAvailable, s) = Semaphore_new ''message available'' 0 (s\<lparr>next_addr := Suc this\<rparr>);
          (messageSent, s) = Semaphore_new ''message sent'' 0 s;
          (sendLock, s) = Lock_new ''message send lock'' s;
          (boxes, s) = new_boxes nBoxes s
      in rbind (Network_new junkHdr (new_bytes MaxPacketSize s) addr reliability NetReadAvail NetWriteDone this s) (\<lambda>(network, s).
         let s = s\<lparr>offices := (offices s)(this := Some \<lparr>po_network = network, po_netAddr = addr, po_boxes = boxes,
                     po_numBoxes = int nBoxes, po_messageAvailable = messageAvailable, po_messageSent = messageSent,
                     po_sendLock = sendLock\<rparr>)\<rparr>
         in rbind (Thread_new junkRegs ''postal worker'' 255 s) (\<lambda>(t, s).
            rbind (Fork (net_cb n) t POSTAL_HELPER (int this) s) (\<lambda>s. Ok (this, s)))))"

fun delete_boxes :: "nat list \<Rightarrow> 'a net_kern_scheme \<Rightarrow> 'a net_kern_scheme result" where
  "delete_boxes [] s = Ok s"
| "delete_boxes (b # bs) s = rbind (delete_boxes bs s) (\<lambda>s. MailBox_delete b s)"

definition PostOffice_delete :: "nat \<Rightarrow> 'a net_kern_scheme \<Rightarrow> 'a net_kern_scheme result" where
  "PostOffice_delete this s =
     rbind (po_get this s) (\<lambda>off.
     rbind (Network_delete (po_network off) s) (\<lambda>s.
     rbind (delete_boxes (po_boxes off) s) (\<lambda>s.
     rbind (Semaphore_delete (po_messageAvailable off) s) (\<lambda>s.
     rbind (Semaphore_delete (po_messageSent off) s) (\<lambda>s.
     rbind (Lock_delete (po_sendLock off) s) (\<lambda>s.
     Ok (s\<lparr>offices := (offices s)(this := None)\<rparr>)))))))"

text \<open>One turn of the loop of the postal worker, from waiting for a packet to putting the mail into its box.\<close>

definition deliver :: "nat \<Rightarrow> nat \<Rightarrow> byte list \<Rightarrow> 'a net_kern_scheme \<Rightarrow> (byte list \<times> 'a net_kern_scheme) result" where
  "deliver n po buffer s =
     rbind (po_get po s) (\<lambda>off.
     rbind (Semaphore_P (net_cb n) (po_messageAvailable off) s) (\<lambda>s.
     rbind (Network_Receive (po_network off) buffer s) (\<lambda>(pktHdr, buffer, s).
       let mailHdr = mail_of_bytes buffer
       in ASSERT (0 \<le> sint (mail_to mailHdr) \<and> sint (mail_to mailHdr) < po_numBoxes off)
            (ASSERT (unat (mail_length mailHdr) \<le> MaxMailSize)
              (rbind (aget (po_boxes off) (sint (mail_to mailHdr))) (\<lambda>box.
               rbind (MailBox_Put (net_cb n) box pktHdr mailHdr (drop 12 buffer) s) (\<lambda>s.
               Ok (buffer, s))))))))"

partial_function (option) postal_loop :: "nat \<Rightarrow> nat \<Rightarrow> byte list \<Rightarrow> 'a net_kern_scheme \<Rightarrow> 'a net_kern_scheme result option" where
  "postal_loop n po buffer s =
     (case deliver n po buffer s of
        Err e \<Rightarrow> Some (Err e)
      | Ok (buffer, s) \<Rightarrow> postal_loop n po buffer s)"

definition PostalDelivery :: "nat \<Rightarrow> nat \<Rightarrow> 'a net_kern_scheme \<Rightarrow> 'a net_kern_scheme result" where
  "PostalDelivery n po s = loop_result (postal_loop n po (new_bytes MaxPacketSize s) s)"

definition PostOffice_Send :: "nat \<Rightarrow> nat \<Rightarrow> PacketHeader \<Rightarrow> MailHeader \<Rightarrow> byte list \<Rightarrow> 'a net_kern_scheme \<Rightarrow>
    'a net_kern_scheme result" where
  "PostOffice_Send n po pktHdr mailHdr data s =
     rbind (po_get po s) (\<lambda>off.
     ASSERT (unat (mail_length mailHdr) \<le> MaxMailSize)
       (ASSERT (0 \<le> sint (mail_to mailHdr) \<and> sint (mail_to mailHdr) < po_numBoxes off)
         (let pktHdr = pktHdr\<lparr>pkt_from := po_netAddr off, pkt_length := mail_length mailHdr + 12\<rparr> in
          rbind (bcopy data (drop 12 (new_bytes MaxPacketSize s)) (unat (mail_length mailHdr))) (\<lambda>payload.
          rbind (Lock_Acquire (net_cb n) (po_sendLock off) s) (\<lambda>s.
          rbind (Network_Send (po_network off) pktHdr (mail_to_bytes mailHdr @ payload) s) (\<lambda>s.
          rbind (Semaphore_P (net_cb n) (po_messageSent off) s) (\<lambda>s.
          Lock_Release (net_cb n) (po_sendLock off) s)))))))"

definition PostOffice_Receive :: "nat \<Rightarrow> nat \<Rightarrow> int \<Rightarrow> byte list \<Rightarrow> 'a net_kern_scheme \<Rightarrow>
    (PacketHeader \<times> MailHeader \<times> byte list \<times> 'a net_kern_scheme) result" where
  "PostOffice_Receive n po box data s =
     rbind (po_get po s) (\<lambda>off.
     ASSERT (0 \<le> box \<and> box < po_numBoxes off)
       (rbind (aget (po_boxes off) box) (\<lambda>b.
        rbind (MailBox_Get (net_cb n) b data s) (\<lambda>(pktHdr, mailHdr, data, s).
        ASSERT (unat (mail_length mailHdr) \<le> MaxMailSize) (Ok (pktHdr, mailHdr, data, s))))))"

subsection \<open>The mail test\<close>

definition c_bytes :: "string \<Rightarrow> byte list" where
  "c_bytes str = map of_char str @ [0]"

text \<open>\<open>outPkt\<close>, \<open>outMail\<close> and \<open>buffer\<close> are the unset variables of the test.\<close>

definition MailTest :: "nat \<Rightarrow> nat \<Rightarrow> PacketHeader \<Rightarrow> MailHeader \<Rightarrow> byte list \<Rightarrow> u32 \<Rightarrow> 'a net_kern_scheme \<Rightarrow> 'a net_kern_scheme result" where
  "MailTest n po outPkt outMail buffer farAddr s =
     (let data = c_bytes ''Hello there!''; ack = c_bytes ''Got it!'';
          outPkt = outPkt\<lparr>pkt_to := farAddr\<rparr>;
          outMail = outMail\<lparr>mail_to := 0, mail_from := 1, mail_length := of_nat (length data)\<rparr>
      in rbind (PostOffice_Send n po outPkt outMail data s) (\<lambda>s.
         rbind (PostOffice_Receive n po 0 buffer s) (\<lambda>(inPkt, inMail, buffer, s).
         let outPkt = outPkt\<lparr>pkt_to := pkt_from inPkt\<rparr>;
             outMail = outMail\<lparr>mail_to := mail_from inMail, mail_length := of_nat (length ack)\<rparr>
         in rbind (PostOffice_Send n po outPkt outMail ack s) (\<lambda>s.
            rbind (PostOffice_Receive n po 1 buffer s) (\<lambda>(inPkt, inMail, buffer, s). Halt s)))))"

end
