(* ===== verification/Network_Waits.thy ===== *)
theory Network_Waits
  imports Post_Office
begin

text \<open>
  Waiting for the network. The invariant of a machine with a post office relates the packets on its socket to the semaphores of the post office; it
  is kept by the polls and completion interrupts of the network device, as an interpretation of \<open>thread_waits\<close> shows. With it the waits of
  the post office return: for a packet on the socket, and for the end of a transmission.
\<close>

subsection \<open>The invariant of a machine\<close>

definition netpoll_at :: "nat \<Rightarrow> int \<Rightarrow> int \<times> PendingInterrupt" where
  "netpoll_at this w = (w, PendingInterrupt_new NetworkReadPoll (int this) w NetworkRecvInt)"

definition sent_at :: "nat \<Rightarrow> int \<Rightarrow> int \<times> PendingInterrupt" where
  "sent_at this w = (w, PendingInterrupt_new NetworkSendDone (int this) w NetworkSendInt)"

lemma netpoll_at_inject [simp]: "netpoll_at this w = netpoll_at this w' \<longleftrightarrow> w = w'"
  by (auto simp: netpoll_at_def PendingInterrupt_new_def)

datatype net_wait = NoNetWait | OnArrival | OnSent

text \<open>What the device and its interrupts never touch.\<close>

record kept =
  k_office :: PostOffice
  k_slists :: "nat \<Rightarrow> SynchList option"
  k_locks :: "nat \<Rightarrow> Lock option"
  k_conds :: "nat \<Rightarrow> Condition option"
  k_mails :: "nat \<Rightarrow> Mail option"
  k_sems :: "nat \<Rightarrow> Semaphore option"
  k_next :: nat
  k_out :: "(u32 \<times> byte list) list"
  k_bound :: "u32 \<Rightarrow> bool"
  k_random :: "(nat \<Rightarrow> int) \<times> nat"
  k_fresh :: "byte list"

definition keeps :: "nat \<Rightarrow> kept \<Rightarrow> 'a net_kern_scheme \<Rightarrow> bool" where
  "keeps po r s \<longleftrightarrow> offices s po = Some (k_office r) \<and> slists s = k_slists r \<and> locks s = k_locks r \<and> conds s = k_conds r \<and> mails s = k_mails r \<and>
     (\<forall>a. a \<notin> {po_messageAvailable (k_office r), po_messageSent (k_office r)} \<longrightarrow> sems s a = k_sems r a) \<and> next_addr s = k_next r \<and>
     sock_out s = k_out r \<and> sock_bound s = k_bound r \<and> (random_src s, random_pos s) = k_random r \<and> fresh_bytes s = k_fresh r"

definition net_view :: "nat \<Rightarrow> kept \<Rightarrow> nat \<Rightarrow> Network \<Rightarrow> Semaphore \<Rightarrow> Semaphore \<Rightarrow> Thread \<Rightarrow>
    (int \<times> PendingInterrupt) multiset \<Rightarrow> nat klist \<Rightarrow> (int \<times> byte list) list \<Rightarrow> 'a net_kern_scheme \<Rightarrow> bool" where
  "net_view po r c net x y th ps ready arr s \<longleftrightarrow>
     keeps po r s \<and> nets s (po_network (k_office r)) = Some net \<and> po_messageAvailable (k_office r) \<noteq> po_messageSent (k_office r) \<and>
     sems s (po_messageAvailable (k_office r)) = Some x \<and> sems s (po_messageSent (k_office r)) = Some y \<and>
     sock_in s (net_sock net) = arr \<and> threads s c = Some th \<and> currentThread s = c \<and>
     threadToBeDestroyed s = None \<and> loadable (machine s) \<and> readyList s = ready \<and> mset (pending (intr s)) = ps"

text \<open>A datagram that the device accepts, and one that lies in its buffer.\<close>

definition packet_ok :: "u32 \<Rightarrow> byte list \<Rightarrow> bool" where
  "packet_ok addr d \<longleftrightarrow> length d = MaxWireSize \<and> pkt_to (pkt_of_bytes d) = addr \<and> pkt_length (pkt_of_bytes d) \<noteq> 0 \<and>
     unat (pkt_length (pkt_of_bytes d)) \<le> MaxPacketSize"

definition buffered :: "Network \<Rightarrow> byte list \<Rightarrow> bool" where
  "buffered net d \<longleftrightarrow> net_inHdr net = pkt_of_bytes d \<and>
     take (unat (pkt_length (pkt_of_bytes d))) (net_inbox net) = take (unat (pkt_length (pkt_of_bytes d))) (drop 12 d)"

definition net_ok :: "nat \<Rightarrow> kept \<Rightarrow> nat \<Rightarrow> net_wait \<Rightarrow> bool \<Rightarrow> bool \<Rightarrow> int \<Rightarrow> int \<Rightarrow> (int \<times> byte list) list \<Rightarrow> Network \<Rightarrow> Semaphore \<Rightarrow> Semaphore \<Rightarrow>
    Thread \<Rightarrow> (int \<times> PendingInterrupt) multiset \<Rightarrow> nat klist \<Rightarrow> (int \<times> byte list) list \<Rightarrow> bool" where
  "net_ok po r c wt taken sending B v input net x y th ps ready arr \<longleftrightarrow>
     net_readHandler net = NetReadAvail \<and> net_writeHandler net = NetWriteDone \<and> net_handlerArg net = po \<and> \<not> net_sendBusy net \<and>
     net_ident net = po_netAddr (k_office r) \<and> net_chanceToWork net = 1 \<and> length (net_inbox net) = MaxPacketSize \<and>
     (\<forall>(t, d)\<in>set arr. packet_ok (net_ident net) d) \<and> th_space th = None \<and> th_stack th \<in> {None, Some STACK_FENCEPOST} \<and>
     (if pkt_length (net_inHdr net) = 0 then \<not> taken \<and> input = arr else \<exists>t d. input = (t, d) # arr \<and> packet_ok (net_ident net) d \<and> buffered net d) \<and>
     sem_value x = (if pkt_length (net_inHdr net) = 0 \<or> taken then 0 else 1) \<and>
     (sem_value y = 0 \<or> sem_value y = 1) \<and> (sem_value y = 1 \<longrightarrow> sending) \<and>
     (\<exists>w. ps = (if sending \<and> sem_value y = 0 then {#sent_at (po_network (k_office r)) v, netpoll_at (po_network (k_office r)) w#}
                else {#netpoll_at (po_network (k_office r)) w#}) \<and>
        (pkt_length (net_inHdr net) = 0 \<longrightarrow> (case arr of [] \<Rightarrow> True | (t, _) # _ \<Rightarrow> w \<le> B \<or> w < t + NetworkTime))) \<and>
     (case wt of
        NoNetWait \<Rightarrow> ready = [] \<and> (arr \<noteq> [] \<longrightarrow> sem_queue x = Some []) \<and> sem_queue y = Some []
      | OnArrival \<Rightarrow> sem_queue y = Some [] \<and>
          (if sem_value x = 0 then ready = [] \<and> sem_queue x = Some [(0, c)] else ready = [(th_priority th, c)] \<and> sem_queue x = Some [])
      | OnSent \<Rightarrow> (arr \<noteq> [] \<longrightarrow> sem_queue x = Some []) \<and>
          (if sem_value y = 0 then ready = [] \<and> sem_queue y = Some [(0, c)] else ready = [(th_priority th, c)] \<and> sem_queue y = Some []))"

definition net_inv :: "nat \<Rightarrow> kept \<Rightarrow> nat \<Rightarrow> net_wait \<Rightarrow> bool \<Rightarrow> bool \<Rightarrow> int \<Rightarrow> int \<Rightarrow> (int \<times> byte list) list \<Rightarrow> 'a net_kern_scheme \<Rightarrow> bool" where
  "net_inv po r c wt taken sending B v input s \<longleftrightarrow>
     (\<exists>net x y th ps ready arr. net_view po r c net x y th ps ready arr s \<and>
        net_ok po r c wt taken sending B v input net x y th ps ready arr)"

lemma net_invI:
  "net_view po r c net x y th ps ready arr s \<Longrightarrow> net_ok po r c wt taken sending B v input net x y th ps ready arr \<Longrightarrow>
   net_inv po r c wt taken sending B v input s"
  unfolding net_inv_def by blast

lemma net_invE:
  assumes "net_inv po r c wt taken sending B v input s"
  obtains net x y th ps ready arr where "net_view po r c net x y th ps ready arr s"
    "net_ok po r c wt taken sending B v input net x y th ps ready arr"
  using assms unfolding net_inv_def by blast

subsection \<open>The interrupts keep it\<close>

lemma Schedule_netpoll:
  "Schedule NetworkReadPoll (int this) NetworkTime NetworkRecvInt s =
     Ok (upd_intr (pending_update (kl_insert (snd (netpoll_at this (totalTicks (stats s) + NetworkTime))) (totalTicks (stats s) + NetworkTime))) s)"
  by (simp add: Schedule_def Let_def netpoll_at_def NetworkTime_def)

lemma signal_arrival:
  assumes s: "net_view po r c net x y th ps ready arr s" "level (intr s) = IntOff"
    and q: "sem_queue x = Some [] \<or> sem_queue x = Some [(0, c)] \<and> ready = []"
  shows "\<exists>s' th' ready'. net_routine NetReadAvail po s = Ok s' \<and> intr s' = intr s \<and>
    net_view po r c net (x\<lparr>sem_value := sem_value x + 1, sem_queue := Some []\<rparr>) y th' ps ready' arr s' \<and>
    th_space th' = th_space th \<and> th_stack th' = th_stack th \<and> th_priority th' = th_priority th \<and>
    ready' = (if sem_queue x = Some [] then ready else [(th_priority th, c)])"
proof (cases "sem_queue x = Some []")
  case True
  with s show ?thesis
    by (cases x) (auto simp: net_routine_def IncomingPacket_def po_get_def net_view_def keeps_def V_off_empty)
next
  case False
  with s q show ?thesis by (auto simp: net_routine_def IncomingPacket_def po_get_def net_view_def keeps_def V_off_wake)
qed

lemma signal_sent:
  assumes s: "net_view po r c net x y th ps ready arr s" "level (intr s) = IntOff"
    and q: "sem_queue y = Some [] \<or> sem_queue y = Some [(0, c)] \<and> ready = []"
  shows "\<exists>s' th' ready'. net_routine NetWriteDone po s = Ok s' \<and> intr s' = intr s \<and>
    net_view po r c net x (y\<lparr>sem_value := sem_value y + 1, sem_queue := Some []\<rparr>) th' ps ready' arr s' \<and>
    th_space th' = th_space th \<and> th_stack th' = th_stack th \<and> th_priority th' = th_priority th \<and>
    ready' = (if sem_queue y = Some [] then ready else [(th_priority th, c)])"
proof (cases "sem_queue y = Some []")
  case True
  with s show ?thesis
    by (cases y) (auto simp: net_routine_def PacketSent_def po_get_def net_view_def keeps_def V_off_empty)
next
  case False
  with s q show ?thesis by (auto simp: net_routine_def PacketSent_def po_get_def net_view_def keeps_def V_off_wake)
qed

text \<open>A packet is read into the buffer of the device.\<close>

lemma packet_read:
  assumes "sock_in s (net_sock net) = (a, d) # arr" "packet_ok (net_ident net) d" "length (net_inbox net) = MaxPacketSize"
  shows "ReadFromSocket (net_sock net) MaxWireSize s = Ok (d, s\<lparr>sock_in := (sock_in s)(net_sock net := arr)\<rparr>)"
    "\<exists>inbox. bcopy (drop 12 d) (net_inbox net) (unat (pkt_length (pkt_of_bytes d))) = Ok inbox \<and> length inbox = MaxPacketSize \<and>
       buffered (net\<lparr>net_inHdr := pkt_of_bytes d, net_inbox := inbox\<rparr>) d"
  using assms by (auto simp: ReadFromSocket_def packet_ok_def bcopy_def buffered_def MaxPacketSize_def MaxWireSize_def)

lemma netpoll_keeps:
  assumes s: "net_view po r c net x y th ps ready arr s" "level (intr s) = IntOff"
    and ok: "net_ok po r c wt taken sending B v input net x y th (add_mset (netpoll_at (po_network (k_office r)) w) ps) ready arr"
  shows "\<exists>s'. CheckPktAvail (po_network (k_office r)) s = Ok s' \<and> net_inv po r c wt taken sending B v input s' \<and>
    yieldOnReturn (intr s') = yieldOnReturn (intr s)"
proof -
  let ?dev = "po_network (k_office r)"
  let ?w = "totalTicks (stats s) + NetworkTime" and ?ps = "add_mset (netpoll_at ?dev (totalTicks (stats s) + NetworkTime)) ps"
  define t where "t = upd_intr (pending_update (kl_insert (snd (netpoll_at ?dev ?w)) ?w)) s"
  have sch: "Schedule NetworkReadPoll (int ?dev) NetworkTime NetworkRecvInt s = Ok t" unfolding t_def by (rule Schedule_netpoll)
  have tv: "net_view po r c net x y th ?ps ready arr t"
    using s(1) unfolding t_def net_view_def keeps_def by (simp add: netpoll_at_def upd_intr_def)
  have t: "level (intr t) = IntOff" "yieldOnReturn (intr t) = yieldOnReturn (intr s)" "net_get ?dev t = Ok net" "stats t = stats s"
    using s tv by (simp_all add: t_def net_get_def net_view_def)
  have ps: "ps = (if sending \<and> sem_value y = 0 then {#sent_at ?dev v#} else {#})"
    using ok by (auto simp: net_ok_def add_eq_conv_ex netpoll_at_def sent_at_def PendingInterrupt_new_def split: if_splits)
  show ?thesis
  proof (cases "pkt_length (net_inHdr net) \<noteq> 0 \<or> \<not> PollSocket (net_sock net) t")
    case True
    then have "CheckPktAvail ?dev s = Ok t" using sch t by (simp add: CheckPktAvail_def)
    moreover have "net_ok po r c wt taken sending B v input net x y th ?ps ready arr"
    proof -
      have "pkt_length (net_inHdr net) = 0 \<longrightarrow> (case arr of [] \<Rightarrow> True | (a, _) # _ \<Rightarrow> ?w \<le> B \<or> ?w < a + NetworkTime)"
        using True tv t(4) by (auto simp: PollSocket_def net_view_def split: list.splits)
      then show ?thesis using ok unfolding net_ok_def ps by (auto split: if_splits)
    qed
    ultimately show ?thesis using tv t(2) net_invI by blast
  next
    case False
    then obtain a d arr' where a: "arr = (a, d) # arr'" using tv by (auto simp: PollSocket_def net_view_def split: list.splits)
    have d: "packet_ok (net_ident net) d" "length (net_inbox net) = MaxPacketSize" using ok a by (auto simp: net_ok_def)
    have si: "sock_in t (net_sock net) = (a, d) # arr'" using tv a by (simp add: net_view_def)
    have rd: "ReadFromSocket (net_sock net) MaxWireSize t = Ok (d, t\<lparr>sock_in := (sock_in t)(net_sock net := arr')\<rparr>)"
      by (rule packet_read(1)[OF si d])
    obtain inbox where inbox: "bcopy (drop 12 d) (net_inbox net) (unat (pkt_length (pkt_of_bytes d))) = Ok inbox" "length inbox = MaxPacketSize"
      "buffered (net\<lparr>net_inHdr := pkt_of_bytes d, net_inbox := inbox\<rparr>) d"
      using packet_read(2)[OF si d] by blast
    let ?net = "net\<lparr>net_inHdr := pkt_of_bytes d, net_inbox := inbox\<rparr>"
    define u where "u = upd_stats (\<lambda>st. st\<lparr>numPacketsRecvd := numPacketsRecvd st + 1\<rparr>)
      (net_put ?dev ?net (t\<lparr>sock_in := (sock_in t)(net_sock net := arr')\<rparr>))"
    have uv: "net_view po r c ?net x y th ?ps ready arr' u"
      using tv unfolding u_def net_view_def keeps_def by (simp add: net_put_def upd_stats_def)
    have u: "level (intr u) = IntOff" "yieldOnReturn (intr u) = yieldOnReturn (intr s)" using t by (simp_all add: u_def)
    have q: "sem_queue x = Some [] \<or> sem_queue x = Some [(0, c)] \<and> ready = []"
      using ok False a by (auto simp: net_ok_def split: net_wait.splits if_splits)
    from signal_arrival[OF uv u(1) q] obtain s' th' ready' where s': "net_routine NetReadAvail po u = Ok s'" "intr s' = intr u"
      "net_view po r c ?net (x\<lparr>sem_value := sem_value x + 1, sem_queue := Some []\<rparr>) y th' ?ps ready' arr' s'"
      "th_space th' = th_space th" "th_stack th' = th_stack th" "th_priority th' = th_priority th"
      "ready' = (if sem_queue x = Some [] then ready else [(th_priority th, c)])"
      by blast
    have dd: "pkt_length (pkt_of_bytes d) \<noteq> 0" "pkt_to (pkt_of_bytes d) = net_ident net" "unat (pkt_length (pkt_of_bytes d)) \<le> MaxPacketSize"
      using d(1) by (auto simp: packet_ok_def)
    have "net_ok po r c wt taken sending B v input ?net (x\<lparr>sem_value := sem_value x + 1, sem_queue := Some []\<rparr>) y th' ?ps ready' arr'"
      using ok False a d(1) dd(1) inbox(2,3) s'(4-7) unfolding net_ok_def ps by (cases wt) (auto split: if_splits)
    moreover have "CheckPktAvail ?dev s = Ok s'"
      using sch t(3) False rd inbox(1) s'(1) ok dd by (simp add: CheckPktAvail_def Let_def u_def net_ok_def)
    ultimately show ?thesis using s'(2,3) u(2) net_invI by metis
  qed
qed

lemma sent_keeps:
  assumes s: "net_view po r c net x y th ps ready arr s" "level (intr s) = IntOff"
    and ok: "net_ok po r c wt taken sending B v input net x y th (add_mset (sent_at (po_network (k_office r)) v) ps) ready arr"
  shows "\<exists>s'. SendDone (po_network (k_office r)) s = Ok s' \<and> net_inv po r c wt taken sending B v input s' \<and>
    yieldOnReturn (intr s') = yieldOnReturn (intr s)"
proof -
  let ?dev = "po_network (k_office r)"
  define u where "u = upd_stats (\<lambda>st. st\<lparr>numPacketsSent := numPacketsSent st + 1\<rparr>) (net_put ?dev (net\<lparr>net_sendBusy := False\<rparr>) s)"
  have net: "net\<lparr>net_sendBusy := False\<rparr> = net" using ok by (cases net) (simp add: net_ok_def)
  have uv: "net_view po r c net x y th ps ready arr u"
    using s(1) unfolding u_def net net_view_def keeps_def by (simp add: net_put_def upd_stats_def)
  have u: "level (intr u) = IntOff" "intr u = intr s" using s(2) by (simp_all add: u_def)
  have busy: "sending" "sem_value y = 0" "\<exists>w. ps = {#netpoll_at ?dev w#}"
    using ok by (auto simp: net_ok_def add_eq_conv_ex netpoll_at_def sent_at_def PendingInterrupt_new_def split: if_splits)
  have q: "sem_queue y = Some [] \<or> sem_queue y = Some [(0, c)] \<and> ready = []"
    using ok busy(2) by (auto simp: net_ok_def split: net_wait.splits if_splits)
  from signal_sent[OF uv u(1) q] obtain s' th' ready' where s': "net_routine NetWriteDone po u = Ok s'" "intr s' = intr u"
    "net_view po r c net x (y\<lparr>sem_value := sem_value y + 1, sem_queue := Some []\<rparr>) th' ps ready' arr s'"
    "th_space th' = th_space th" "th_stack th' = th_stack th" "th_priority th' = th_priority th"
    "ready' = (if sem_queue y = Some [] then ready else [(th_priority th, c)])"
    by blast
  have "net_ok po r c wt taken sending B v input net x (y\<lparr>sem_value := sem_value y + 1, sem_queue := Some []\<rparr>) th' ps ready' arr"
    using ok busy s'(4-7) unfolding net_ok_def by (cases wt) (auto split: if_splits)
  moreover have "SendDone ?dev s = Ok s'"
    using s(1) ok s'(1) by (simp add: SendDone_def net_get_def net_view_def Let_def u_def net_ok_def)
  ultimately show ?thesis using s'(2,3) u(2) net_invI by metis
qed

lemma net_ok_pending:
  assumes "net_ok po r c wt taken sending B v input net x y th (add_mset q ps) ready arr"
  shows "(\<exists>w. q = netpoll_at (po_network (k_office r)) w) \<or> q = sent_at (po_network (k_office r)) v"
proof -
  let ?dev = "po_network (k_office r)"
  obtain w where eq: "add_mset q ps = (if sending \<and> sem_value y = 0 then {#sent_at ?dev v, netpoll_at ?dev w#} else {#netpoll_at ?dev w#})"
    using assms unfolding net_ok_def by (elim conjE exE) (rule that)
  have "q \<in># add_mset q ps" by simp
  then have "q = sent_at ?dev v \<or> q = netpoll_at ?dev w" unfolding eq by (simp split: if_splits)
  then show ?thesis by iprover
qed

lemma net_handler_keeps:
  assumes "net_inv po r c wt taken sending B v input (upd_intr (pending_update (\<lambda>_. (k, p) # pending (intr s))) s)"
    "level (intr s) = IntOff"
  shows "pi_type p \<noteq> TimerInt \<and> (\<exists>s'. net_handler p s = Ok s' \<and> net_inv po r c wt taken sending B v input s' \<and>
    yieldOnReturn (intr s') = yieldOnReturn (intr s))"
proof -
  from assms(1) obtain net x y th ps ready arr where
    view: "net_view po r c net x y th ps ready arr (upd_intr (pending_update (\<lambda>_. (k, p) # pending (intr s))) s)" and
    ok: "net_ok po r c wt taken sending B v input net x y th ps ready arr"
    by (rule net_invE)
  have ps: "ps = add_mset (k, p) (mset (pending (intr s)))" using view by (simp add: net_view_def upd_intr_def)
  have s: "net_view po r c net x y th (mset (pending (intr s))) ready arr s"
    using view by (simp add: net_view_def keeps_def upd_intr_def)
  from net_ok_pending[OF ok[unfolded ps]] show ?thesis
  proof (elim disjE exE)
    fix w assume p: "(k, p) = netpoll_at (po_network (k_office r)) w"
    then have "net_handler p s = CheckPktAvail (po_network (k_office r)) s" "pi_type p = NetworkRecvInt"
      by (simp_all add: netpoll_at_def net_handler_def PendingInterrupt_new_def)
    with netpoll_keeps[OF s assms(2) ok[unfolded ps p]] show ?thesis by simp
  next
    assume p: "(k, p) = sent_at (po_network (k_office r)) v"
    then have "net_handler p s = SendDone (po_network (k_office r)) s" "pi_type p = NetworkSendInt"
      by (simp_all add: sent_at_def net_handler_def PendingInterrupt_new_def)
    with sent_keeps[OF s assms(2) ok[unfolded ps p]] show ?thesis by simp
  qed
qed

lemma net_inv_frame:
  assumes "net_inv po r c wt taken sending B v input s" "mset (pending i) = mset (pending (intr s))" "loadable m"
  shows "net_inv po r c wt taken sending B v input (s\<lparr>intr := i, stats := st, machine := m\<rparr>)"
proof -
  from assms(1) obtain net x y th ps ready arr where view: "net_view po r c net x y th ps ready arr s" and
    ok: "net_ok po r c wt taken sending B v input net x y th ps ready arr"
    by (rule net_invE)
  have "net_view po r c net x y th ps ready arr (s\<lparr>intr := i, stats := st, machine := m\<rparr>)"
    using view assms(2,3) by (simp add: net_view_def keeps_def)
  then show ?thesis using ok by (rule net_invI)
qed

lemma net_inv_loadable: "net_inv po r c wt taken sending B v input s \<Longrightarrow> loadable (machine s)"
  by (auto simp: net_view_def elim!: net_invE)

interpretation post: thread_waits "net_cb n" "net_inv po r c wt taken sending B v input"
  for n po r c wt taken sending B v input
proof (unfold_locales, goal_cases)
  case (1 s i st)
  then show ?case using net_inv_frame[OF 1 net_inv_loadable[OF 1(1)]] by simp
next
  case (2 ps s)
  then obtain m where m: "delayed_load s = Ok (s\<lparr>machine := m\<rparr>)" "loadable m"
    using delayed_load_loadable[of s] net_inv_loadable[OF 2] by auto
  have "upd_intr (pending_update (\<lambda>_. ps)) (s\<lparr>machine := m\<rparr>) =
      (upd_intr (pending_update (\<lambda>_. ps)) s)\<lparr>intr := (intr s)\<lparr>pending := ps\<rparr>, stats := stats s, machine := m\<rparr>"
    by (simp add: upd_intr_def)
  with net_inv_frame[OF 2 _ m(2)] m(1) show ?case by simp
next
  case (3 k p s)
  then show ?case using net_handler_keeps[OF 3(1,2)] by simp
qed

subsection \<open>Waiting for a packet and for the end of a transmission\<close>

lemma net_take_arrival:
  assumes "net_inv po r c NoNetWait False sending B v input s" "sems s (po_messageAvailable (k_office r)) = Some x" "sem_value x \<noteq> 0"
  shows "net_inv po r c NoNetWait True sending B v input (take_sem (po_messageAvailable (k_office r)) x s)"
  using assms(1)
proof (rule net_invE)
  fix net x' y th ps ready arr
  assume view: "net_view po r c net x' y th ps ready arr s" and ok: "net_ok po r c NoNetWait False sending B v input net x' y th ps ready arr"
  have "net_view po r c net (x\<lparr>sem_value := sem_value x - 1\<rparr>) y th ps ready arr (take_sem (po_messageAvailable (k_office r)) x s)"
    using view assms(2) by (simp add: net_view_def keeps_def take_sem_def)
  moreover have "net_ok po r c NoNetWait True sending B v input net (x\<lparr>sem_value := sem_value x - 1\<rparr>) y th ps ready arr"
    using view ok assms(2,3) by (auto simp: net_view_def net_ok_def split: if_splits)
  ultimately show ?thesis by (rule net_invI)
qed

lemma net_take_sent:
  assumes "net_inv po r c NoNetWait taken True B v input s" "sems s (po_messageSent (k_office r)) = Some y" "sem_value y \<noteq> 0"
  shows "net_inv po r c NoNetWait taken False B v input (take_sem (po_messageSent (k_office r)) y s)"
  using assms(1)
proof (rule net_invE)
  fix net x y' th ps ready arr
  assume view: "net_view po r c net x y' th ps ready arr s" and ok: "net_ok po r c NoNetWait taken True B v input net x y' th ps ready arr"
  have "net_view po r c net x (y\<lparr>sem_value := sem_value y - 1\<rparr>) th ps ready arr (take_sem (po_messageSent (k_office r)) y s)"
    using view assms(2) by (simp add: net_view_def keeps_def take_sem_def)
  moreover have "net_ok po r c NoNetWait taken False B v input net x (y\<lparr>sem_value := sem_value y - 1\<rparr>) th ps ready arr"
    using view ok assms(2,3) by (auto simp: net_view_def net_ok_def split: if_splits)
  ultimately show ?thesis by (rule net_invI)
qed

lemma net_inv_running:
  assumes "net_inv po r c wt taken sending B v input s" "readyList s = [(k, t)]"
  shows "net_inv po r c NoNetWait taken sending B v input (running s)"
  using assms(1)
proof (rule net_invE)
  fix net x y th ps ready arr
  assume view: "net_view po r c net x y th ps ready arr s" and ok: "net_ok po r c wt taken sending B v input net x y th ps ready arr"
  have "net_view po r c net x y (th\<lparr>th_status := RUNNING\<rparr>) ps [] arr (running s)"
    using view by (simp add: net_view_def keeps_def running_def)
  moreover have "ready = [(k, t)]" using view assms(2) by (simp add: net_view_def)
  then have "net_ok po r c NoNetWait taken sending B v input net x y (th\<lparr>th_status := RUNNING\<rparr>) ps [] arr"
    using ok unfolding net_ok_def by (cases wt) (auto split: if_splits)
  ultimately show ?thesis by (rule net_invI)
qed

text \<open>The worker waits for packets only while nobody else does.\<close>

lemma net_inv_asleep:
  assumes "net_inv po r c NoNetWait taken sending B v input s"
    and "(wt = OnArrival \<and> a = po_messageAvailable (k_office r) \<and> input \<noteq> [] \<and> \<not> taken) \<or> (wt = OnSent \<and> a = po_messageSent (k_office r))"
    and "sems s a = Some z" "sem_value z = 0"
  shows "net_inv po r c wt taken sending B v input (asleep a s)"
  using assms(1)
proof (rule net_invE)
  fix net x y th ps ready arr
  assume view: "net_view po r c net x y th ps ready arr s" and ok: "net_ok po r c NoNetWait taken sending B v input net x y th ps ready arr"
  let ?q = "sem_queue_update (map_option (kl_append c))"
  let ?x = "if a = po_messageAvailable (k_office r) then ?q x else x" and ?y = "if a = po_messageSent (k_office r) then ?q y else y"
  have "net_view po r c net ?x ?y (th\<lparr>th_status := BLOCKED\<rparr>) ps ready arr (asleep a s)"
    using view assms(2) by (auto simp: net_view_def keeps_def asleep_def)
  moreover have "net_ok po r c wt taken sending B v input net ?x ?y (th\<lparr>th_status := BLOCKED\<rparr>) ps ready arr"
    using view ok assms(2-4) by (auto simp: net_ok_def net_view_def kl_append_def split: if_splits)
  ultimately show ?thesis by (rule net_invI)
qed

abbreviation (input) arrived :: "kept \<Rightarrow> nat" where "arrived r \<equiv> po_messageAvailable (k_office r)"
abbreviation (input) sent :: "kept \<Rightarrow> nat" where "sent r \<equiv> po_messageSent (k_office r)"

lemma net_inv_semaphores:
  assumes "net_inv po r c wt taken sending B v input s"
  obtains x y th where "sems s (arrived r) = Some x" "sems s (sent r) = Some y" "threads s c = Some th" "currentThread s = c"
    "threadToBeDestroyed s = None" "th_space th = None" "th_stack th \<in> {None, Some STACK_FENCEPOST}"
    "wt = NoNetWait \<longrightarrow> sem_queue y = Some []" "wt = NoNetWait \<and> input \<noteq> [] \<and> sem_value x = 0 \<and> \<not> taken \<longrightarrow> sem_queue x = Some []"
    "wt = OnArrival \<and> readyList s \<noteq> [] \<longrightarrow> sem_value x \<noteq> 0 \<and> (\<exists>k. readyList s = [(k, c)])"
    "wt = OnSent \<and> readyList s \<noteq> [] \<longrightarrow> sem_value y \<noteq> 0 \<and> (\<exists>k. readyList s = [(k, c)])"
  using assms
proof (elim net_invE)
  fix net x y th ps ready arr
  assume view: "net_view po r c net x y th ps ready arr s" and ok: "net_ok po r c wt taken sending B v input net x y th ps ready arr"
  show thesis
    by (rule that[of x y th]) (use view ok in \<open>auto simp: net_view_def net_ok_def split: if_splits\<close>)
qed

lemma net_ok_poll:
  assumes "net_ok po r c wt taken sending B v input net x y th ps ready arr" "pkt_length (net_inHdr net) = 0" "arr = (t, d) # rest"
  obtains w where "netpoll_at (po_network (k_office r)) w \<in># ps" "w \<le> B \<or> w < t + NetworkTime"
proof -
  let ?dev = "po_network (k_office r)"
  obtain w where "ps = (if sending \<and> sem_value y = 0 then {#sent_at ?dev v, netpoll_at ?dev w#} else {#netpoll_at ?dev w#})"
    "pkt_length (net_inHdr net) = 0 \<longrightarrow> (case arr of [] \<Rightarrow> True | (t, _) # _ \<Rightarrow> w \<le> B \<or> w < t + NetworkTime)"
    using assms(1) unfolding net_ok_def by (elim conjE exE) (rule that)
  then show thesis using that[of w] assms(2,3) by simp
qed

lemma arrival_bound:
  assumes "net_inv po r c OnArrival False sending B v ((t, d) # rest) s" "calm s" "readyList s = []"
  shows "pending (intr s) \<noteq> [] \<and> totalTicks (stats s) < max B (t + NetworkTime)"
  using assms(1)
proof (rule net_invE)
  fix net x y th ps ready arr
  assume view: "net_view po r c net x y th ps ready arr s" and ok: "net_ok po r c OnArrival False sending B v ((t, d) # rest) net x y th ps ready arr"
  have "sem_value x = 0" using view ok assms(3) by (auto simp: net_view_def net_ok_def split: if_splits)
  with ok have arr: "pkt_length (net_inHdr net) = 0" "arr = (t, d) # rest" by (auto simp: net_ok_def split: if_splits)
  obtain w where w: "netpoll_at (po_network (k_office r)) w \<in># ps" "w \<le> B \<or> w < t + NetworkTime"
    by (rule net_ok_poll[OF ok arr])
  then have "netpoll_at (po_network (k_office r)) w \<in># mset (pending (intr s))" using view by (simp add: net_view_def)
  from calm_later[OF assms(2) this] this w(2) show ?thesis by (auto simp: netpoll_at_def)
qed

lemma sent_bound:
  assumes "net_inv po r c OnSent taken True B v input s" "calm s" "readyList s = []"
  shows "pending (intr s) \<noteq> [] \<and> totalTicks (stats s) < v"
  using assms(1)
proof (rule net_invE)
  fix net x y th ps ready arr
  assume view: "net_view po r c net x y th ps ready arr s" and ok: "net_ok po r c OnSent taken True B v input net x y th ps ready arr"
  have "sem_value y = 0" using view ok assms(3) by (auto simp: net_view_def net_ok_def split: if_splits)
  with ok have "sent_at (po_network (k_office r)) v \<in># ps" by (auto simp: net_ok_def split: if_splits)
  then have "sent_at (po_network (k_office r)) v \<in># mset (pending (intr s))" using view by (simp add: net_view_def)
  from calm_later[OF assms(2) this] this show ?thesis by (auto simp: sent_at_def)
qed

lemma net_inv_off:
  "net_inv po r c wt taken sending B v input s \<Longrightarrow> net_inv po r c wt taken sending B v input (off s)"
  unfolding off_def by (rule post.frame_intr) simp_all

lemma net_wait_returns:
  fixes s :: "'a net_kern_scheme"
  assumes inv: "net_inv po r c NoNetWait taken sending B v input s" "awake s"
    and a: "(wt = OnArrival \<and> a = arrived r \<and> input \<noteq> [] \<and> \<not> taken) \<or> (wt = OnSent \<and> a = sent r)"
    and bound: "\<forall>u::'a net_kern_scheme. net_inv po r c wt taken sending B v input u \<longrightarrow> calm u \<longrightarrow> readyList u = [] \<longrightarrow>
      pending (intr u) \<noteq> [] \<and> totalTicks (stats u) < M"
  shows "\<exists>u z. P_loop (net_cb n) a (off s) = Some (Ok u) \<and> sems u a = Some z \<and> sem_value z \<noteq> 0 \<and>
    net_inv po r c NoNetWait taken sending B v input u \<and> calm u \<and> level (intr u) = IntOff \<and> mstatus (intr u) = SystemMode"
proof -
  let ?I = "\<lambda>wt. net_inv po r c wt taken sending B v input"
  note o = net_inv_off[OF inv(1)] and off = awake_off[OF inv(2)]
  obtain x th where x: "sems (off s) a = Some x" "sem_value x = 0 \<longrightarrow> sem_queue x = Some []" "threads (off s) (currentThread (off s)) = Some th"
    using o by (rule net_inv_semaphores) (use a in auto)
  show ?thesis
  proof (cases "sem_value x = 0")
    case False
    then show ?thesis using P_loop_nonzero[OF x(1)] x(1) o off by blast
  next
    case True
    then have q: "sem_queue x = Some []" using x(2) by simp
    have ready: "i = currentThread u \<and> q = [] \<and> threadToBeDestroyed u = None \<and>
        (\<exists>x th. sems u a = Some x \<and> sem_value x \<noteq> 0 \<and> threads u i = Some th \<and> th_space th = None \<and> th_stack th \<in> {None, Some STACK_FENCEPOST})"
      if "?I wt u" "readyList u = (k, i) # q" for u :: "'a net_kern_scheme" and k i q
      using that(1) by (rule net_inv_semaphores) (use that(2) a in auto)
    obtain u k where u: "P_loop (net_cb n) a (off s) = Some (Ok (running u))" "?I wt u" "readyList u = [(k, currentThread u)]" "calm u"
      "level (intr u) = IntOff" "mstatus (intr u) = SystemMode"
      using post.P_loop_keeps[OF _ _ _ x(1) True q x(3) net_inv_asleep[OF o a x(1) True] bound] ready off by blast
    obtain z where "sems u a = Some z" "sem_value z \<noteq> 0" using ready[OF u(2,3)] by auto
    moreover have "calm (running u)" using u(4) by (simp add: running_def calm_def pending_ok_def due_def)
    ultimately show ?thesis using u net_inv_running[OF u(2,3)] by (auto simp: running_def)
  qed
qed

lemma P_arrival:
  assumes "net_inv po r c NoNetWait False sending B v ((t, d) # rest) s" "awake s"
  shows "\<exists>s'. Semaphore_P (net_cb n) (arrived r) s = Ok s' \<and> net_inv po r c NoNetWait True sending B v ((t, d) # rest) s' \<and> awake s'"
proof -
  obtain u z where u: "P_loop (net_cb n) (arrived r) (off s) = Some (Ok u)" "sems u (arrived r) = Some z" "sem_value z \<noteq> 0"
    "net_inv po r c NoNetWait False sending B v ((t, d) # rest) u" "calm u" "level (intr u) = IntOff" "mstatus (intr u) = SystemMode"
    using net_wait_returns[OF assms, of OnArrival "arrived r"] arrival_bound by blast
  have "net_inv po r c NoNetWait True sending B v ((t, d) # rest) (take_sem (arrived r) z u)" by (rule net_take_arrival[OF u(4,2,3)])
  then show ?thesis using post.P_keeps[OF _ u(1,2,5-7)] assms(2) by (simp add: take_sem_def awake_def)
qed

lemma P_sent:
  assumes "net_inv po r c NoNetWait taken True B v input s" "awake s"
  shows "\<exists>s'. Semaphore_P (net_cb n) (sent r) s = Ok s' \<and> net_inv po r c NoNetWait taken False B v input s' \<and> awake s'"
proof -
  obtain u z where u: "P_loop (net_cb n) (sent r) (off s) = Some (Ok u)" "sems u (sent r) = Some z" "sem_value z \<noteq> 0"
    "net_inv po r c NoNetWait taken True B v input u" "calm u" "level (intr u) = IntOff" "mstatus (intr u) = SystemMode"
    using net_wait_returns[OF assms, of OnSent "sent r"] sent_bound by blast
  have "net_inv po r c NoNetWait taken False B v input (take_sem (sent r) z u)" by (rule net_take_sent[OF u(4,2,3)])
  then show ?thesis using post.P_keeps[OF _ u(1,2,5-7)] assms(2) by (simp add: take_sem_def awake_def)
qed

end
