(* ===== verification/Post_Delivery.thy ===== *)
theory Post_Delivery
  imports Network_Waits
begin

text \<open>
  Messages between two machines: sending a message, delivering the packet on the other machine and receiving the message there are
  followed through all their waits and locks, and the message arrives as it was sent.
\<close>

subsection \<open>Locks and mailboxes that nobody else uses\<close>

definition free_lock :: "kept \<Rightarrow> nat \<Rightarrow> bool" where
  "free_lock r a \<longleftrightarrow> (\<exists>l z. k_locks r a = Some l \<and> lk_sema l \<notin> {arrived r, sent r} \<and> k_sems r (lk_sema l) = Some z \<and>
     sem_value z = 1 \<and> sem_queue z = Some [])"

definition open_box :: "kept \<Rightarrow> nat \<Rightarrow> bool" where
  "open_box r b \<longleftrightarrow> (\<exists>l cd. k_slists r b = Some l \<and> free_lock r (sl_lock l) \<and> k_conds r (sl_listEmpty l) = Some cd \<and> cond_waitingQueue cd = [])"

text \<open>An operation that leaves the device and the two semaphores alone.\<close>

lemma net_inv_other:
  assumes "net_inv po r c wt taken sending B v input s" "keeps po r' s'" "k_office r' = k_office r"
    and "nets s' = nets s" "sock_in s' = sock_in s" "threads s' = threads s" "currentThread s' = currentThread s"
    "threadToBeDestroyed s' = threadToBeDestroyed s" "machine s' = machine s" "readyList s' = readyList s" "intr s' = intr s"
    "sems s' (arrived r) = sems s (arrived r)" "sems s' (sent r) = sems s (sent r)"
  shows "net_inv po r' c wt taken sending B v input s'"
  using assms(1)
proof (rule net_invE)
  fix net x y th ps ready arr
  assume view: "net_view po r c net x y th ps ready arr s" and ok: "net_ok po r c wt taken sending B v input net x y th ps ready arr"
  have "net_view po r' c net x y th ps ready arr s'" using view assms(2-) by (simp add: net_view_def)
  moreover have "net_ok po r' c wt taken sending B v input net x y th ps ready arr" using ok unfolding net_ok_def assms(3) .
  ultimately show ?thesis by (rule net_invI)
qed

lemma net_inv_keeps: "net_inv po r c wt taken sending B v input s \<Longrightarrow> keeps po r s"
  by (erule net_invE) (simp add: net_view_def)

lemma net_inv_current: "net_inv po r c wt taken sending B v input s \<Longrightarrow> currentThread s = c"
  by (erule net_invE) (simp add: net_view_def)

definition held_lock :: "nat \<Rightarrow> nat \<Rightarrow> kept \<Rightarrow> kept" where
  "held_lock c a r = (let l = the (k_locks r a); z = the (k_sems r (lk_sema l)) in
     r\<lparr>k_locks := (k_locks r)(a := Some (l\<lparr>lk_holdingThread := Held c\<rparr>)),
       k_sems := (k_sems r)(lk_sema l := Some (z\<lparr>sem_value := 0\<rparr>))\<rparr>)"

definition unheld_lock :: "nat \<Rightarrow> kept \<Rightarrow> kept" where
  "unheld_lock a r = r\<lparr>k_locks := (k_locks r)(a := Some ((the (k_locks r a))\<lparr>lk_holdingThread := NoThread\<rparr>))\<rparr>"

lemma keeps_sem:
  assumes "keeps po r s" "a \<notin> {arrived r, sent r}"
  shows "keeps po (r\<lparr>k_sems := (k_sems r)(a := Some z)\<rparr>) (s\<lparr>sems := (sems s)(a := Some z)\<rparr>)"
  using assms by (auto simp: keeps_def)

lemma keeps_lock: "keeps po r s \<Longrightarrow> keeps po (r\<lparr>k_locks := (k_locks r)(a := Some l)\<rparr>) (s\<lparr>locks := (locks s)(a := Some l)\<rparr>)"
  by (simp add: keeps_def)

lemma awake_other: "awake s \<Longrightarrow> intr s' = intr s \<Longrightarrow> stats s' = stats s \<Longrightarrow> awake s'"
  by (simp add: awake_def calm_def pending_ok_def due_def)

lemma acquire_free:
  assumes inv: "net_inv po r c NoNetWait taken sending B v input s" "awake s" and free: "free_lock r a"
  shows "\<exists>s'. Lock_Acquire (net_cb n) a s = Ok s' \<and> net_inv po (held_lock c a r) c NoNetWait taken sending B v input s' \<and> awake s'"
proof -
  obtain l z where l: "k_locks r a = Some l" "lk_sema l \<notin> {arrived r, sent r}" "k_sems r (lk_sema l) = Some z" "sem_value z = 1" "sem_queue z = Some []"
    using free unfolding free_lock_def by blast
  note k = net_inv_keeps[OF inv(1)]
  have s: "locks s a = Some l" "sems s (lk_sema l) = Some z" using k l by (simp_all add: keeps_def)
  let ?z = "z\<lparr>sem_value := 0\<rparr>" and ?l = "l\<lparr>lk_holdingThread := Held c\<rparr>"
  let ?r = "r\<lparr>k_sems := (k_sems r)(lk_sema l := Some ?z)\<rparr>"
  have "net_inv po ?r c NoNetWait taken sending B v input (take_sem (lk_sema l) z s)"
    using keeps_sem[OF k l(2), of ?z] l(2,4) by (intro net_inv_other[OF inv(1)]) (simp_all add: take_sem_def)
  then obtain t where t: "Semaphore_P (net_cb n) (lk_sema l) s = Ok t" "net_inv po ?r c NoNetWait taken sending B v input t" "awake t"
    using post.P_free_keeps[OF inv(2) s(2)] l(4) by (metis zero_neq_one)
  have tl: "locks t a = Some l" using net_inv_keeps[OF t(2)] l(1) by (simp add: keeps_def)
  let ?t = "t\<lparr>locks := (locks t)(a := Some ?l)\<rparr>"
  have "held_lock c a r = ?r\<lparr>k_locks := (k_locks r)(a := Some ?l)\<rparr>" using l by (simp add: held_lock_def)
  moreover have "net_inv po (?r\<lparr>k_locks := (k_locks ?r)(a := Some ?l)\<rparr>) c NoNetWait taken sending B v input ?t"
    using keeps_lock[OF net_inv_keeps[OF t(2)], of a ?l] by (intro net_inv_other[OF t(2)]) simp_all
  moreover have "Lock_Acquire (net_cb n) a s = Ok ?t"
    using s(1) t(1) tl net_inv_current[OF t(2)] by (simp add: Lock_Acquire_def lock_get_def lock_upd_def)
  moreover have "awake ?t" using t(3) by (rule awake_other) simp_all
  ultimately show ?thesis by auto
qed

text \<open>Releasing what was acquired makes the lock free again.\<close>

lemma release_held:
  assumes inv: "net_inv po r' c NoNetWait taken sending B v input s" "awake s"
    and r: "free_lock r a" "k_locks r' = k_locks (held_lock c a r)" "k_sems r' = k_sems (held_lock c a r)" "k_office r' = k_office r"
  shows "\<exists>s'. Lock_Release (net_cb n) a s = Ok s' \<and> awake s' \<and>
    net_inv po (r'\<lparr>k_locks := k_locks (unheld_lock a r), k_sems := k_sems r\<rparr>) c NoNetWait taken sending B v input s'"
proof -
  obtain l z where l: "k_locks r a = Some l" "lk_sema l \<notin> {arrived r, sent r}" "k_sems r (lk_sema l) = Some z" "sem_value z = 1" "sem_queue z = Some []"
    using r(1) unfolding free_lock_def by blast
  let ?l = "l\<lparr>lk_holdingThread := Held c\<rparr>" and ?n = "l\<lparr>lk_holdingThread := NoThread\<rparr>" and ?z = "z\<lparr>sem_value := 0\<rparr>"
  have h: "k_locks r' = (k_locks r)(a := Some ?l)" "k_sems r' = (k_sems r)(lk_sema l := Some ?z)"
    using r(2,3) l by (simp_all add: held_lock_def)
  note k = net_inv_keeps[OF inv(1)]
  have s: "locks s a = Some ?l" "sems s (lk_sema l) = Some ?z" using k h l(2) r(4) by (auto simp: keeps_def)
  let ?s = "s\<lparr>locks := (locks s)(a := Some ?n)\<rparr>" and ?r = "r'\<lparr>k_locks := (k_locks r)(a := Some ?n)\<rparr>"
  have "net_inv po ?r c NoNetWait taken sending B v input ?s"
    using keeps_lock[OF k, of a ?n] h(1) by (intro net_inv_other[OF inv(1)]) simp_all
  note k2 = net_inv_keeps[OF this] and inv2 = this
  have aw: "awake ?s" using inv(2) by (rule awake_other) simp_all
  have z: "?z\<lparr>sem_value := sem_value ?z + 1\<rparr> = z" using l(4) by (cases z) simp
  have st: "sems ?s (lk_sema l) = Some ?z" "sem_queue ?z = Some []" using s(2) l(5) by simp_all
  have q: "net_inv po (?r\<lparr>k_sems := k_sems r\<rparr>) c NoNetWait taken sending B v input (?s\<lparr>sems := (sems ?s)(lk_sema l := Some z)\<rparr>)"
    using keeps_sem[OF k2, of "lk_sema l" z] h(2) l(2,3) r(4) by (intro net_inv_other[OF inv2]) (simp_all add: fun_upd_idem)
  obtain t where "Semaphore_V (net_cb n) (lk_sema l) ?s = Ok t" "net_inv po (?r\<lparr>k_sems := k_sems r\<rparr>) c NoNetWait taken sending B v input t" "awake t"
    using post.V_free_keeps[OF aw st, unfolded z, OF q] by blast
  moreover have "Lock_Release (net_cb n) a s = Semaphore_V (net_cb n) (lk_sema l) ?s"
    using s(1) by (simp add: Lock_Release_def lock_upd_def lock_get_def)
  ultimately show ?thesis using l(1) by (auto simp: unheld_lock_def)
qed

lemma free_lock_held: "free_lock r a \<Longrightarrow> k_office r' = k_office r \<Longrightarrow> k_locks r' = k_locks (unheld_lock b r) \<Longrightarrow> k_sems r' = k_sems r \<Longrightarrow>
    free_lock r b \<Longrightarrow> free_lock r' a"
  by (auto simp: free_lock_def unheld_lock_def)

text \<open>The lists after an operation on the list \<open>b\<close>, whose lock is free again.\<close>

definition list_done :: "nat \<Rightarrow> nat klist \<Rightarrow> kept \<Rightarrow> kept" where
  "list_done b xs r = (let l = the (k_slists r b) in
     (unheld_lock (sl_lock l) r)\<lparr>k_slists := (k_slists r)(b := Some (l\<lparr>sl_list := xs\<rparr>))\<rparr>)"

lemma free_lock_done:
  assumes "open_box r b" "free_lock r a"
  shows "free_lock (list_done b xs r) a"
  using assms by (intro free_lock_held[OF assms(2), of _ "sl_lock (the (k_slists r b))"])
    (auto simp: open_box_def list_done_def unheld_lock_def Let_def)

lemma open_box_done: "open_box r b \<Longrightarrow> open_box r b' \<Longrightarrow> open_box (list_done b xs r) b'"
  using free_lock_done[of r b _ xs] by (auto simp: open_box_def list_done_def unheld_lock_def Let_def)

lemma Append_box:
  assumes inv: "net_inv po r c NoNetWait taken sending B v input s" "awake s" and box: "open_box r b" "k_slists r b = Some l"
  shows "\<exists>s'. SynchList_Append (net_cb n) b item s = Ok s' \<and> awake s' \<and>
    net_inv po (list_done b (kl_append item (sl_list l)) r) c NoNetWait taken sending B v input s'"
proof -
  let ?a = "sl_lock l" and ?l = "l\<lparr>sl_list := kl_append item (sl_list l)\<rparr>"
  let ?r1 = "held_lock c (sl_lock l) r"
  obtain cd where free: "free_lock r ?a" and cd: "k_conds r (sl_listEmpty l) = Some cd" "cond_waitingQueue cd = []"
    using box by (auto simp: open_box_def)
  have sl: "slists s b = Some l" using net_inv_keeps[OF inv(1)] box(2) by (simp add: keeps_def)
  obtain s1 where s1: "Lock_Acquire (net_cb n) ?a s = Ok s1" "net_inv po ?r1 c NoNetWait taken sending B v input s1" "awake s1"
    using acquire_free[OF inv free] by blast
  note k1 = net_inv_keeps[OF s1(2)]
  have s1l: "slists s1 b = Some l" using k1 box(2) by (simp add: keeps_def held_lock_def Let_def)
  let ?s2 = "s1\<lparr>slists := (slists s1)(b := Some ?l)\<rparr>" and ?r2 = "?r1\<lparr>k_slists := (k_slists r)(b := Some ?l)\<rparr>"
  have s2: "net_inv po ?r2 c NoNetWait taken sending B v input ?s2"
    using k1 by (intro net_inv_other[OF s1(2)]) (simp_all add: keeps_def held_lock_def Let_def)
  have aw2: "awake ?s2" using s1(3) by (rule awake_other) simp_all
  obtain lk where lk: "locks ?s2 ?a = Some lk" "lk_holdingThread lk \<noteq> Unset"
    using k1 by (auto simp: keeps_def held_lock_def Let_def)
  have c2: "conds ?s2 (sl_listEmpty l) = Some cd" using k1 cd(1) by (simp add: keeps_def held_lock_def Let_def)
  obtain s3 where s3: "Condition_Signal (net_cb n) (sl_listEmpty l) ?a ?s2 = Ok s3" "net_inv po ?r2 c NoNetWait taken sending B v input s3" "awake s3"
    using post.Signal_nobody_keeps[OF aw2 s2 lk c2 cd(2)] by blast
  obtain s4 where s4: "Lock_Release (net_cb n) ?a s3 = Ok s4" "awake s4"
    "net_inv po (?r2\<lparr>k_locks := k_locks (unheld_lock ?a r), k_sems := k_sems r\<rparr>) c NoNetWait taken sending B v input s4"
    using release_held[OF s3(2,3) free, of n] by (auto simp: held_lock_def Let_def)
  have "?r2\<lparr>k_locks := k_locks (unheld_lock ?a r), k_sems := k_sems r\<rparr> = list_done b (kl_append item (sl_list l)) r"
    using box(2) by (simp add: list_done_def unheld_lock_def held_lock_def Let_def)
  moreover have "SynchList_Append (net_cb n) b item s = Ok s4"
    using sl s1(1) s1l s3(1) s4(1) by (simp add: SynchList_Append_def sl_get_def sl_put_def)
  ultimately show ?thesis using s4 by auto
qed

lemma Remove_box:
  assumes inv: "net_inv po r c NoNetWait taken sending B v input s" "awake s" and box: "open_box r b" "k_slists r b = Some l"
    and items: "sl_list l = (k, item) # q" "item \<noteq> 0"
  shows "\<exists>s'. SynchList_Remove (net_cb n) b s = Ok (item, s') \<and> awake s' \<and> net_inv po (list_done b q r) c NoNetWait taken sending B v input s'"
proof -
  let ?a = "sl_lock l" and ?l = "l\<lparr>sl_list := q\<rparr>"
  let ?r1 = "held_lock c (sl_lock l) r"
  have free: "free_lock r ?a" using box by (auto simp: open_box_def)
  have sl: "slists s b = Some l" using net_inv_keeps[OF inv(1)] box(2) by (simp add: keeps_def)
  obtain s1 where s1: "Lock_Acquire (net_cb n) ?a s = Ok s1" "net_inv po ?r1 c NoNetWait taken sending B v input s1" "awake s1"
    using acquire_free[OF inv free] by blast
  note k1 = net_inv_keeps[OF s1(2)]
  have s1l: "slists s1 b = Some l" using k1 box(2) by (simp add: keeps_def held_lock_def Let_def)
  let ?s2 = "s1\<lparr>slists := (slists s1)(b := Some ?l)\<rparr>" and ?r2 = "?r1\<lparr>k_slists := (k_slists r)(b := Some ?l)\<rparr>"
  have s2: "net_inv po ?r2 c NoNetWait taken sending B v input ?s2"
    using k1 by (intro net_inv_other[OF s1(2)]) (simp_all add: keeps_def held_lock_def Let_def)
  have aw2: "awake ?s2" using s1(3) by (rule awake_other) simp_all
  obtain s4 where s4: "Lock_Release (net_cb n) ?a ?s2 = Ok s4" "awake s4"
    "net_inv po (?r2\<lparr>k_locks := k_locks (unheld_lock ?a r), k_sems := k_sems r\<rparr>) c NoNetWait taken sending B v input s4"
    using release_held[OF s2 aw2 free, of n] by (auto simp: held_lock_def Let_def)
  have "?r2\<lparr>k_locks := k_locks (unheld_lock ?a r), k_sems := k_sems r\<rparr> = list_done b q r"
    using box(2) by (simp add: list_done_def unheld_lock_def held_lock_def Let_def)
  moreover have "nonempty_loop (net_cb n) b s1 = Some (Ok s1)"
    using s1l items(1) by (simp add: nonempty_loop.simps[of _ b s1] sl_get_def)
  then have "SynchList_Remove (net_cb n) b s = Ok (item, s4)"
    using sl s1(1) s1l s4(1) items by (simp add: SynchList_Remove_def sl_get_def sl_put_def)
  ultimately show ?thesis using s4 by auto
qed

subsection \<open>The device\<close>

text \<open>Taking the packet out of the buffer of the device.\<close>

lemma Receive_next:
  assumes inv: "net_inv po r c NoNetWait True sending B v ((t, d) # rest) s" "awake s" and b: "length buffer = MaxPacketSize"
  shows "\<exists>s' B'. Network_Receive (po_network (k_office r)) buffer s =
      Ok (pkt_of_bytes d, take (unat (pkt_length (pkt_of_bytes d))) (drop 12 d) @ drop (unat (pkt_length (pkt_of_bytes d))) buffer, s') \<and>
    net_inv po r c NoNetWait False sending B' v rest s' \<and> awake s' \<and> packet_ok (po_netAddr (k_office r)) d"
  using inv(1)
proof (rule net_invE)
  fix net x y th ps ready arr
  assume view: "net_view po r c net x y th ps ready arr s" and ok: "net_ok po r c NoNetWait True sending B v ((t, d) # rest) net x y th ps ready arr"
  let ?dev = "po_network (k_office r)"
  have buf: "pkt_length (net_inHdr net) \<noteq> 0" "arr = rest" "packet_ok (net_ident net) d" "buffered net d" "length (net_inbox net) = MaxPacketSize"
    "net_ident net = po_netAddr (k_office r)"
    using ok by (auto simp: net_ok_def split: if_splits)
  obtain w where w: "ps = (if sending \<and> sem_value y = 0 then {#sent_at ?dev v, netpoll_at ?dev w#} else {#netpoll_at ?dev w#})"
    using ok unfolding net_ok_def by (elim conjE exE) (rule that)
  let ?h = "net_inHdr net" and ?net = "net\<lparr>net_inHdr := (net_inHdr net)\<lparr>pkt_length := 0\<rparr>\<rparr>"
  let ?s = "net_put ?dev ?net s"
  have "net_view po r c ?net x y th ps ready arr ?s" using view by (simp add: net_view_def keeps_def net_put_def)
  moreover have "net_ok po r c NoNetWait False sending w v rest ?net x y th ps ready arr"
    using ok buf unfolding w net_ok_def by (auto split: if_splits list.splits)
  ultimately have "net_inv po r c NoNetWait False sending w v rest ?s" by (rule net_invI)
  moreover have "awake ?s" using inv(2) by (rule awake_other) simp_all
  moreover have "bcopy (net_inbox net) buffer (unat (pkt_length ?h)) =
      Ok (take (unat (pkt_length (pkt_of_bytes d))) (drop 12 d) @ drop (unat (pkt_length (pkt_of_bytes d))) buffer)"
    using buf b by (auto simp: bcopy_def buffered_def packet_ok_def)
  then have "Network_Receive ?dev buffer s =
      Ok (pkt_of_bytes d, take (unat (pkt_length (pkt_of_bytes d))) (drop 12 d) @ drop (unat (pkt_length (pkt_of_bytes d))) buffer, ?s)"
    using view buf by (simp add: Network_Receive_def Let_def net_get_def net_view_def buffered_def)
  ultimately show ?thesis using buf(3,6) by auto
qed

text \<open>The datagram that carries a packet; the bytes behind the data are those of the buffer.\<close>

definition datagram :: "byte list \<Rightarrow> PacketHeader \<Rightarrow> byte list \<Rightarrow> byte list" where
  "datagram junk hdr data = pkt_to_bytes hdr @ take (unat (pkt_length hdr)) data @ drop (12 + unat (pkt_length hdr)) junk"

text \<open>A reliable network sends every packet.\<close>

lemma Send_next:
  assumes inv: "net_inv po r c NoNetWait taken False B v input s" "awake s"
    and h: "pkt_from hdr = po_netAddr (k_office r)" "0 < pkt_length hdr" "unat (pkt_length hdr) \<le> MaxPacketSize"
      "unat (pkt_length hdr) \<le> length data" "k_bound r (pkt_to hdr)"
  shows "\<exists>s' v' rd. Network_Send (po_network (k_office r)) hdr data s = Ok s' \<and> awake s' \<and>
    net_inv po (r\<lparr>k_out := k_out r @ [(pkt_to hdr, datagram (new_bytes MaxWireSize s) hdr data)], k_random := rd\<rparr>)
      c NoNetWait taken True B v' input s'"
  using inv(1)
proof (rule net_invE)
  fix net x y th ps ready arr
  assume view: "net_view po r c net x y th ps ready arr s" and ok: "net_ok po r c NoNetWait taken False B v input net x y th ps ready arr"
  let ?dev = "po_network (k_office r)" and ?v = "totalTicks (stats s) + NetworkTime"
  let ?t = "upd_intr (pending_update (kl_insert (PendingInterrupt_new NetworkSendDone (int ?dev) ?v NetworkSendInt) ?v)) s"
  let ?pkt = "datagram (new_bytes MaxWireSize s) hdr data"
  let ?u = "?t\<lparr>random_pos := Suc (random_pos s), sock_out := sock_out s @ [(pkt_to hdr, ?pkt)]\<rparr>"
  let ?r = "r\<lparr>k_out := k_out r @ [(pkt_to hdr, ?pkt)], k_random := (random_src s, Suc (random_pos s))\<rparr>"
  have "0 < NetworkTime" by (simp add: NetworkTime_def)
  note sch = Schedule_calm[OF inv(2) this, of NetworkSendDone "int ?dev" NetworkSendInt]
  have k: "keeps po r s" using view by (simp add: net_view_def)
  have "net_view po ?r c net x y th (add_mset (sent_at ?dev ?v) ps) ready arr ?u"
    using view by (simp add: net_view_def keeps_def upd_intr_def sent_at_def)
  moreover have "net_ok po ?r c NoNetWait taken True B ?v input net x y th (add_mset (sent_at ?dev ?v) ps) ready arr"
    using ok by (auto simp: net_ok_def split: if_splits)
  ultimately have "net_inv po ?r c NoNetWait taken True B ?v input ?u" by (rule net_invI)
  moreover have "awake ?u" using sch(2) by (rule awake_other) simp_all
  moreover have "Network_Send ?dev hdr data s = Ok ?u"
  proof -
    have n: "net_get ?dev s = Ok net" "net_ident net = pkt_from hdr" "\<not> net_sendBusy net" "net_chanceToWork net = 1"
      using view ok h(1) by (simp_all add: net_get_def net_view_def net_ok_def)
    have "\<not> (100 :: rat) \<le> of_int (i smod 100)" for i :: int
      using smod_int_range[of 100 i] by simp
    moreover have "bcopy data (drop 12 (new_bytes MaxWireSize s)) (unat (pkt_length hdr)) =
        Ok (take (unat (pkt_length hdr)) data @ drop (12 + unat (pkt_length hdr)) (new_bytes MaxWireSize s))"
      using h(3,4) by (simp add: bcopy_def MaxPacketSize_def add.commute)
    moreover have "new_bytes MaxWireSize (?t\<lparr>random_pos := Suc (random_pos s)\<rparr>) = new_bytes MaxWireSize s"
      by (simp add: new_bytes_def upd_intr_def)
    moreover have "sock_bound s (pkt_to hdr)" using k h(5) by (simp add: keeps_def)
    ultimately show ?thesis using n h(2,3) sch(1)
      by (simp add: Network_Send_def Random_def SendToSocket_def datagram_def upd_intr_def)
  qed
  ultimately show ?thesis by blast
qed

subsection \<open>Messages\<close>

text \<open>The header that \<open>Send\<close> fills in, and the datagram of a message.\<close>

definition filled :: "PostOffice \<Rightarrow> PacketHeader \<Rightarrow> MailHeader \<Rightarrow> PacketHeader" where
  "filled ofc pktHdr mailHdr = pktHdr\<lparr>pkt_from := po_netAddr ofc, pkt_length := mail_length mailHdr + 12\<rparr>"

definition mail_packet :: "byte list \<Rightarrow> PostOffice \<Rightarrow> PacketHeader \<Rightarrow> MailHeader \<Rightarrow> byte list \<Rightarrow> byte list" where
  "mail_packet junk ofc pktHdr mailHdr data = datagram junk (filled ofc pktHdr mailHdr) (mail_to_bytes mailHdr @ data)"

lemma unat_mail_length: "unat (l :: u32) \<le> MaxMailSize \<Longrightarrow> unat (l + 12) = unat l + 12"
  by (subst unat_add_lem[THEN iffD1]) (simp_all add: MaxMailSize_def MaxPacketSize_def MaxWireSize_def)

lemma mail_packet_parts:
  assumes "unat (mail_length mh) \<le> MaxMailSize" "unat (mail_length mh) \<le> length data"
  shows "pkt_of_bytes (mail_packet junk ofc ph mh data) = filled ofc ph mh"
    "take (unat (mail_length mh) + 12) (drop 12 (mail_packet junk ofc ph mh data)) = mail_to_bytes mh @ take (unat (mail_length mh)) data"
  using assms by (simp_all add: mail_packet_def datagram_def filled_def unat_mail_length)

lemma Mail_new_kept:
  assumes inv: "net_inv po r c wt taken sending B v input s" "awake s"
    and l: "unat (mail_length mh) \<le> MaxMailSize" "unat (mail_length mh) \<le> length msg"
  shows "\<exists>s' ml. Mail_new ph mh msg s = Ok (k_next r, s') \<and> awake s' \<and> ml_pktHdr ml = ph \<and> ml_mailHdr ml = mh \<and> length (ml_data ml) = MaxMailSize \<and>
    take (unat (mail_length mh)) (ml_data ml) = take (unat (mail_length mh)) msg \<and>
    net_inv po (r\<lparr>k_mails := (k_mails r)(k_next r := Some ml), k_next := Suc (k_next r)\<rparr>) c wt taken sending B v input s'"
proof -
  let ?ml = "\<lparr>ml_pktHdr = ph, ml_mailHdr = mh, ml_data = take (unat (mail_length mh)) msg @ drop (unat (mail_length mh)) (new_bytes MaxMailSize s)\<rparr>"
  let ?s = "s\<lparr>mails := (mails s)(next_addr s := Some ?ml), next_addr := Suc (next_addr s)\<rparr>"
  note k = net_inv_keeps[OF inv(1)]
  have n: "next_addr s = k_next r" using k by (simp add: keeps_def)
  have "net_inv po (r\<lparr>k_mails := (k_mails r)(k_next r := Some ?ml), k_next := Suc (k_next r)\<rparr>) c wt taken sending B v input ?s"
    using k by (intro net_inv_other[OF inv(1)]) (simp_all add: keeps_def)
  moreover have "awake ?s" using inv(2) by (rule awake_other) simp_all
  moreover have "Mail_new ph mh msg s = Ok (k_next r, ?s)" using l n by (simp add: Mail_new_def Let_def bcopy_def)
  ultimately show ?thesis using l by (intro exI[of _ ?s] exI[of _ ?ml]) simp
qed

lemma deliver_next:
  assumes inv: "net_inv po r c NoNetWait False sending B v ((t, mail_packet junk ofc ph mh data) # rest) s" "awake s"
    and b: "length buffer = MaxPacketSize" "unat (mail_length mh) \<le> MaxMailSize" "unat (mail_length mh) \<le> length data"
    and box: "0 \<le> sint (mail_to mh)" "sint (mail_to mh) < po_numBoxes (k_office r)" "aget (po_boxes (k_office r)) (sint (mail_to mh)) = Ok bx"
      "open_box r bx" "k_slists r bx = Some l"
  shows "\<exists>buf s' B' ml. deliver n po buffer s = Ok (buf, s') \<and> length buf = MaxPacketSize \<and> awake s' \<and>
    net_inv po (list_done bx (kl_append (k_next r) (sl_list l)) (r\<lparr>k_mails := (k_mails r)(k_next r := Some ml), k_next := Suc (k_next r)\<rparr>))
      c NoNetWait False sending B' v rest s' \<and>
    ml_pktHdr ml = filled ofc ph mh \<and> ml_mailHdr ml = mh \<and> length (ml_data ml) = MaxMailSize \<and>
    take (unat (mail_length mh)) (ml_data ml) = take (unat (mail_length mh)) data"
proof -
  let ?len = "unat (mail_length mh)" and ?d = "mail_packet junk ofc ph mh data"
  let ?buf = "(mail_to_bytes mh @ take ?len data) @ drop (?len + 12) buffer"
  obtain s1 where s1: "Semaphore_P (net_cb n) (arrived r) s = Ok s1" "net_inv po r c NoNetWait True sending B v ((t, ?d) # rest) s1" "awake s1"
    using P_arrival[OF inv] by blast
  have len: "unat (pkt_length (filled ofc ph mh)) = ?len + 12" using b(2) by (simp add: filled_def unat_mail_length)
  obtain s2 B' where s2: "Network_Receive (po_network (k_office r)) buffer s1 = Ok (filled ofc ph mh, ?buf, s2)"
    "net_inv po r c NoNetWait False sending B' v rest s2" "awake s2"
    using Receive_next[OF s1(2,3) b(1)] unfolding mail_packet_parts(1)[OF b(2,3)] len mail_packet_parts(2)[OF b(2,3)] by blast
  have mh: "mail_of_bytes ?buf = mh" "drop 12 ?buf = take ?len data @ drop (?len + 12) buffer" "length ?buf = MaxPacketSize"
    using b by (simp_all add: MaxMailSize_def MaxPacketSize_def MaxWireSize_def)
  obtain s3 ml where s3: "Mail_new (filled ofc ph mh) mh (drop 12 ?buf) s2 = Ok (k_next r, s3)" "awake s3" "ml_pktHdr ml = filled ofc ph mh"
    "ml_mailHdr ml = mh" "length (ml_data ml) = MaxMailSize" "take ?len (ml_data ml) = take ?len data"
    "net_inv po (r\<lparr>k_mails := (k_mails r)(k_next r := Some ml), k_next := Suc (k_next r)\<rparr>) c NoNetWait False sending B' v rest s3"
    using Mail_new_kept[OF s2(2,3) b(2), of "drop 12 ?buf" "filled ofc ph mh"] b(3) unfolding mh(2) by auto
  let ?r = "r\<lparr>k_mails := (k_mails r)(k_next r := Some ml), k_next := Suc (k_next r)\<rparr>"
  have bx: "open_box ?r bx" "k_slists ?r bx = Some l" using box(4,5) by (auto simp: open_box_def free_lock_def)
  obtain s4 where s4: "SynchList_Append (net_cb n) bx (k_next r) s3 = Ok s4" "awake s4"
    "net_inv po (list_done bx (kl_append (k_next r) (sl_list l)) ?r) c NoNetWait False sending B' v rest s4"
    using Append_box[OF s3(7,2) bx] by blast
  have "offices s po = Some (k_office r)" using net_inv_keeps[OF inv(1)] by (simp add: keeps_def)
  then have "deliver n po buffer s = Ok (?buf, s4)"
    using s1(1) s2(1) mh(1) box(1-3) b(2) s3(1) s4(1) by (simp add: deliver_def po_get_def Let_def MailBox_Put_def)
  with s3(3-6) s4 mh(3) show ?thesis by blast
qed

lemma Get_mail:
  assumes inv: "net_inv po r c NoNetWait taken sending B v input s" "awake s" and box: "open_box r bx" "k_slists r bx = Some l"
    and ml: "sl_list l = (k, a) # q" "a \<noteq> 0" "k_mails r a = Some ml"
    and len: "length (ml_data ml) = MaxMailSize" "unat (mail_length (ml_mailHdr ml)) \<le> MaxMailSize" "unat (mail_length (ml_mailHdr ml)) \<le> length out"
  shows "\<exists>s'. MailBox_Get (net_cb n) bx out s =
      Ok (ml_pktHdr ml, ml_mailHdr ml, take (unat (mail_length (ml_mailHdr ml))) (ml_data ml) @ drop (unat (mail_length (ml_mailHdr ml))) out, s') \<and>
    awake s' \<and> net_inv po ((list_done bx q r)\<lparr>k_mails := (k_mails r)(a := None)\<rparr>) c NoNetWait taken sending B v input s'"
proof -
  obtain s1 where s1: "SynchList_Remove (net_cb n) bx s = Ok (a, s1)" "awake s1" "net_inv po (list_done bx q r) c NoNetWait taken sending B v input s1"
    using Remove_box[OF inv box ml(1,2)] by blast
  note k = net_inv_keeps[OF s1(3)]
  have m: "mails s1 = k_mails r" using k by (simp add: keeps_def list_done_def unheld_lock_def Let_def)
  let ?s = "s1\<lparr>mails := (mails s1)(a := None)\<rparr>"
  have "net_inv po ((list_done bx q r)\<lparr>k_mails := (k_mails r)(a := None)\<rparr>) c NoNetWait taken sending B v input ?s"
    using k m by (intro net_inv_other[OF s1(3)]) (simp_all add: keeps_def)
  moreover have "awake ?s" using s1(2) by (rule awake_other) simp_all
  moreover have "MailBox_Get (net_cb n) bx out s =
      Ok (ml_pktHdr ml, ml_mailHdr ml, take (unat (mail_length (ml_mailHdr ml))) (ml_data ml) @ drop (unat (mail_length (ml_mailHdr ml))) out, ?s)"
    using s1(1) m ml(3) len by (simp add: MailBox_Get_def bcopy_def)
  ultimately show ?thesis by blast
qed

lemma PostOffice_Send_next:
  assumes inv: "net_inv po r c NoNetWait taken False B v input s" "awake s" and free: "free_lock r (po_sendLock (k_office r))"
    and m: "unat (mail_length mh) \<le> MaxMailSize" "unat (mail_length mh) \<le> length data" "0 \<le> sint (mail_to mh)"
      "sint (mail_to mh) < po_numBoxes (k_office r)" "k_bound r (pkt_to ph)"
  shows "\<exists>s' v' rd. PostOffice_Send n po ph mh data s = Ok s' \<and> awake s' \<and>
    net_inv po ((unheld_lock (po_sendLock (k_office r)) r)
      \<lparr>k_out := k_out r @ [(pkt_to ph, mail_packet (new_bytes MaxWireSize s) (k_office r) ph mh data)], k_random := rd\<rparr>)
      c NoNetWait taken False B v' input s'"
proof -
  let ?len = "unat (mail_length mh)" and ?a = "po_sendLock (k_office r)" and ?h = "filled (k_office r) ph mh"
  let ?payload = "take ?len data @ drop ?len (drop 12 (new_bytes MaxPacketSize s))"
  let ?pkt = "mail_packet (new_bytes MaxWireSize s) (k_office r) ph mh data"
  note k = net_inv_keeps[OF inv(1)]
  obtain s1 where s1: "Lock_Acquire (net_cb n) ?a s = Ok s1" "net_inv po (held_lock c ?a r) c NoNetWait taken False B v input s1" "awake s1"
    using acquire_free[OF inv free] by blast
  have h: "unat (pkt_length ?h) = ?len + 12" "pkt_from ?h = po_netAddr (k_office r)" "pkt_to ?h = pkt_to ph"
    using m(1) by (simp_all add: filled_def unat_mail_length)
  then have h': "0 < pkt_length ?h" "unat (pkt_length ?h) \<le> MaxPacketSize"
    using m(1) by (auto simp: word_less_nat_alt MaxMailSize_def MaxPacketSize_def MaxWireSize_def)
  have ofc: "k_office (held_lock c ?a r) = k_office r" "k_bound (held_lock c ?a r) = k_bound r" "k_out (held_lock c ?a r) = k_out r"
    by (simp_all add: held_lock_def Let_def)
  have fresh: "new_bytes MaxWireSize s1 = new_bytes MaxWireSize s"
    using k net_inv_keeps[OF s1(2)] by (simp add: new_bytes_def keeps_def held_lock_def Let_def)
  have pkt: "datagram (new_bytes MaxWireSize s1) ?h (mail_to_bytes mh @ ?payload) = ?pkt"
    unfolding mail_packet_def datagram_def fresh using h(1) m(2) by simp
  obtain s2 v' rd where s2: "Network_Send (po_network (k_office r)) ?h (mail_to_bytes mh @ ?payload) s1 = Ok s2" "awake s2"
    "net_inv po ((held_lock c ?a r)\<lparr>k_out := k_out r @ [(pkt_to ph, ?pkt)], k_random := rd\<rparr>) c NoNetWait taken True B v' input s2"
    using Send_next[OF s1(2,3), of ?h "mail_to_bytes mh @ ?payload"] h h' m ofc unfolding pkt by auto
  let ?r2 = "(held_lock c ?a r)\<lparr>k_out := k_out r @ [(pkt_to ph, ?pkt)], k_random := rd\<rparr>"
  have "sent ?r2 = po_messageSent (k_office r)" using ofc(1) by simp
  then obtain s3 where s3: "Semaphore_P (net_cb n) (po_messageSent (k_office r)) s2 = Ok s3" "net_inv po ?r2 c NoNetWait taken False B v' input s3" "awake s3"
    using P_sent[OF s2(3,2)] by auto
  obtain s4 where s4: "Lock_Release (net_cb n) ?a s3 = Ok s4" "awake s4"
    "net_inv po (?r2\<lparr>k_locks := k_locks (unheld_lock ?a r), k_sems := k_sems r\<rparr>) c NoNetWait taken False B v' input s4"
    using release_held[OF s3(2,3) free, of n] by (auto simp: held_lock_def Let_def)
  have eq: "?r2\<lparr>k_locks := k_locks (unheld_lock ?a r), k_sems := k_sems r\<rparr> =
      (unheld_lock ?a r)\<lparr>k_out := k_out r @ [(pkt_to ph, ?pkt)], k_random := rd\<rparr>"
    by (simp add: unheld_lock_def held_lock_def Let_def)
  have "offices s po = Some (k_office r)" using k by (simp add: keeps_def)
  then have "PostOffice_Send n po ph mh data s = Ok s4"
    using m s1(1) s2(1) s3(1) s4(1)
    by (simp add: PostOffice_Send_def po_get_def bcopy_def Let_def filled_def MaxMailSize_def MaxPacketSize_def)
  with s4(2) s4(3)[unfolded eq] show ?thesis by blast
qed

subsection \<open>From machine to machine\<close>

text \<open>
  A machine with a post office at \<open>po\<close> whose running thread is alone, with a reliable network, the packets \<open>input\<close> on its socket, and locks and
  mailboxes that no thread holds or waits for. The postal worker may sleep on its semaphore while no packets arrive.
\<close>

definition post_ready :: "nat \<Rightarrow> (int \<times> byte list) list \<Rightarrow> 'a net_kern_scheme \<Rightarrow> bool" where
  "post_ready po input s \<longleftrightarrow> (\<exists>r c B v. net_inv po r c NoNetWait False False B v input s \<and> awake s \<and> 0 < k_next r \<and>
     free_lock r (po_sendLock (k_office r)) \<and> po_numBoxes (k_office r) = int (length (po_boxes (k_office r))) \<and>
     (\<forall>b\<in>set (po_boxes (k_office r)). open_box r b))"

lemma post_readyI:
  "net_inv po r c NoNetWait False False B v input s \<Longrightarrow> awake s \<Longrightarrow> 0 < k_next r \<Longrightarrow> k_office r = ofc \<Longrightarrow> free_lock r (po_sendLock ofc) \<Longrightarrow>
   po_numBoxes ofc = int (length (po_boxes ofc)) \<Longrightarrow> \<forall>b\<in>set (po_boxes ofc). open_box r b \<Longrightarrow> post_ready po input s"
  unfolding post_ready_def by blast

lemma post_readyE:
  assumes "post_ready po input s" "offices s po = Some ofc"
  obtains r c B v where "net_inv po r c NoNetWait False False B v input s" "awake s" "0 < k_next r" "k_office r = ofc"
    "free_lock r (po_sendLock ofc)" "po_numBoxes ofc = int (length (po_boxes ofc))" "\<forall>b\<in>set (po_boxes ofc). open_box r b"
proof -
  from assms(1) obtain r c B v where r: "net_inv po r c NoNetWait False False B v input s" "awake s" "0 < k_next r"
    "free_lock r (po_sendLock (k_office r))" "po_numBoxes (k_office r) = int (length (po_boxes (k_office r)))" "\<forall>b\<in>set (po_boxes (k_office r)). open_box r b"
    unfolding post_ready_def by blast
  moreover have "k_office r = ofc" using net_inv_keeps[OF r(1)] assms(2) by (simp add: keeps_def)
  ultimately show thesis using that by blast
qed

lemma send_ready:
  assumes a: "post_ready po input s" "offices s po = Some ofc" "sock_bound s (pkt_to ph)"
    and m: "unat (mail_length mh) \<le> MaxMailSize" "unat (mail_length mh) \<le> length data" "0 \<le> sint (mail_to mh)" "sint (mail_to mh) < po_numBoxes ofc"
  shows "\<exists>s'. PostOffice_Send n po ph mh data s = Ok s' \<and> post_ready po input s' \<and>
    sock_out s' = sock_out s @ [(pkt_to ph, mail_packet (new_bytes MaxWireSize s) ofc ph mh data)]"
proof -
  obtain r c B v where r: "net_inv po r c NoNetWait False False B v input s" "awake s" "0 < k_next r" "k_office r = ofc"
    "free_lock r (po_sendLock ofc)" "po_numBoxes ofc = int (length (po_boxes ofc))" "\<forall>b\<in>set (po_boxes ofc). open_box r b"
    using a(1,2) by (rule post_readyE)
  let ?a = "po_sendLock ofc" and ?pkt = "mail_packet (new_bytes MaxWireSize s) ofc ph mh data"
  note k = net_inv_keeps[OF r(1)]
  have "k_bound r (pkt_to ph)" using k a(3) by (simp add: keeps_def)
  then obtain s' v' rd where s': "PostOffice_Send n po ph mh data s = Ok s'" "awake s'"
    "net_inv po ((unheld_lock ?a r)\<lparr>k_out := k_out r @ [(pkt_to ph, ?pkt)], k_random := rd\<rparr>) c NoNetWait False False B v' input s'"
    using PostOffice_Send_next[OF r(1,2), of mh data ph n] r(4,5) m by blast
  let ?r = "(unheld_lock ?a r)\<lparr>k_out := k_out r @ [(pkt_to ph, ?pkt)], k_random := rd\<rparr>"
  have f: "free_lock ?r x" if "free_lock r x" for x
    using that r(5) by (intro free_lock_held[OF that, of _ ?a]) (simp_all add: unheld_lock_def)
  then have o: "\<forall>b\<in>set (po_boxes ofc). open_box ?r b" using r(7) by (fastforce simp: open_box_def unheld_lock_def)
  have "post_ready po input s'"
    by (rule post_readyI[OF s'(3,2)]) (use r(3,4,6) f[OF r(5)] o in \<open>simp_all add: unheld_lock_def\<close>)
  moreover have "sock_out s' = sock_out s @ [(pkt_to ph, ?pkt)]" using k net_inv_keeps[OF s'(3)] by (simp add: keeps_def)
  ultimately show ?thesis using s'(1) by blast
qed

lemma deliver_ready:
  assumes b: "post_ready po ((t, mail_packet junk sender ph mh data) # rest) s" "offices s po = Some ofc" "length buffer = MaxPacketSize"
    and m: "unat (mail_length mh) \<le> MaxMailSize" "unat (mail_length mh) \<le> length data" "0 \<le> sint (mail_to mh)" "sint (mail_to mh) < po_numBoxes ofc"
    and box: "slists s (po_boxes ofc ! nat (sint (mail_to mh))) = Some l" "sl_list l = []" and out: "unat (mail_length mh) \<le> length out"
  shows "\<exists>buf s1 s2. deliver n po buffer s = Ok (buf, s1) \<and>
    PostOffice_Receive n po (sint (mail_to mh)) out s1 =
      Ok (filled sender ph mh, mh, take (unat (mail_length mh)) data @ drop (unat (mail_length mh)) out, s2) \<and>
    post_ready po rest s2"
proof -
  obtain r c B v where r: "net_inv po r c NoNetWait False False B v ((t, mail_packet junk sender ph mh data) # rest) s" "awake s" "0 < k_next r" "k_office r = ofc"
    "free_lock r (po_sendLock ofc)" "po_numBoxes ofc = int (length (po_boxes ofc))" "\<forall>b\<in>set (po_boxes ofc). open_box r b"
    using b(1,2) by (rule post_readyE)
  let ?bx = "po_boxes ofc ! nat (sint (mail_to mh))" and ?len = "unat (mail_length mh)"
  have bx: "aget (po_boxes ofc) (sint (mail_to mh)) = Ok ?bx" "?bx \<in> set (po_boxes ofc)"
    using m(3,4) r(6) by (auto simp: aget_def nat_less_iff)
  have open_bx: "open_box r ?bx" "k_slists r ?bx = Some l" using r(7) bx(2) net_inv_keeps[OF r(1)] box(1) by (simp_all add: keeps_def)
  let ?r0 = "\<lambda>ml. r\<lparr>k_mails := (k_mails r)(k_next r := Some ml), k_next := Suc (k_next r)\<rparr>"
  let ?r1 = "\<lambda>ml. list_done ?bx (kl_append (k_next r) (sl_list l)) (?r0 ml)"
  obtain buf s1 B' ml where s1: "deliver n po buffer s = Ok (buf, s1)" "awake s1" "net_inv po (?r1 ml) c NoNetWait False False B' v rest s1"
    "ml_pktHdr ml = filled sender ph mh" "ml_mailHdr ml = mh" "length (ml_data ml) = MaxMailSize" "take ?len (ml_data ml) = take ?len data"
    using deliver_next[OF r(1,2) b(3) m(1-3) _ _ open_bx, of n] m(4) bx(1) r(4) by blast
  have o0: "open_box (?r0 ml) b" if "open_box r b" for b using that by (auto simp: open_box_def free_lock_def)
  have r1: "k_slists (?r1 ml) ?bx = Some (l\<lparr>sl_list := [(0, k_next r)]\<rparr>)" "k_mails (?r1 ml) (k_next r) = Some ml" "k_next (?r1 ml) = Suc (k_next r)" "k_office (?r1 ml) = ofc"
    using open_bx(2) box(2) r(4) by (simp_all add: list_done_def unheld_lock_def Let_def kl_append_def)
  have o1: "open_box (?r1 ml) b" if "open_box r b" for b using open_box_done[OF o0[OF open_bx(1)] o0[OF that]] .
  let ?r2 = "(list_done ?bx [] (?r1 ml))\<lparr>k_mails := (k_mails (?r1 ml))(k_next r := None)\<rparr>"
  obtain s2 where s2: "MailBox_Get (net_cb n) ?bx out s1 = Ok (filled sender ph mh, mh, take ?len data @ drop ?len out, s2)" "awake s2"
    "net_inv po ?r2 c NoNetWait False False B' v rest s2"
    using Get_mail[OF s1(3,2) o1[OF open_bx(1)] r1(1) _ _ r1(2), of 0 "[]" out n] s1(4-7) m(1) out r(3) by auto
  have o2: "open_box ?r2 b" if "open_box r b" for b
    using open_box_done[OF o1[OF open_bx(1)] o1[OF that], of "[]"] by (auto simp: open_box_def free_lock_def)
  have "post_ready po rest s2"
  proof (rule post_readyI[OF s2(3,2)])
    show "k_office ?r2 = ofc" using r1(4) by (simp add: list_done_def unheld_lock_def Let_def)
    have "free_lock (?r0 ml) (po_sendLock ofc)" using r(5) by (simp add: free_lock_def)
    then show "free_lock ?r2 (po_sendLock ofc)"
      using free_lock_done[OF o1[OF open_bx(1)] free_lock_done[OF o0[OF open_bx(1)]], of "po_sendLock ofc" "[]"] by (simp add: free_lock_def)
  qed (use r1(3) r(6,7) o2 in \<open>simp_all add: list_done_def unheld_lock_def Let_def\<close>)
  moreover have "offices s1 po = Some ofc" using net_inv_keeps[OF s1(3)] r1(4) by (simp add: keeps_def)
  then have "PostOffice_Receive n po (sint (mail_to mh)) out s1 = Ok (filled sender ph mh, mh, take ?len data @ drop ?len out, s2)"
    using m bx(1) s2(1) by (simp add: PostOffice_Receive_def po_get_def)
  ultimately show ?thesis using s1(1) by blast
qed

text \<open>C34. A message arrives as it was sent. On the sending machine \<open>Send\<close> returns and has put one datagram on the wire. On a machine whose
  socket has this datagram in front, one turn of the postal worker followed by \<open>Receive\<close> on the box named in the header returns
  the header with the address of the sender and the length filled in, the mail header and the data; both machines are ready for the next message.
  Sending waits for the completion interrupt of the network, delivery for the poll that finds the packet, and both go through
  the locks of the post office and the mailbox while polls fire. The network is reliable, and no other thread is ready.\<close>

theorem mail_roundtrip:
  assumes a: "post_ready pa inA sa" "offices sa pa = Some A" "sock_bound sa (pkt_to ph)"
    and b: "post_ready pb ((t, mail_packet (new_bytes MaxWireSize sa) A ph mh data) # inB) sb" "offices sb pb = Some B"
      "slists sb (po_boxes B ! nat (sint (mail_to mh))) = Some l" "sl_list l = []"
    and m: "unat (mail_length mh) \<le> MaxMailSize" "unat (mail_length mh) \<le> length data" "0 \<le> sint (mail_to mh)"
      "sint (mail_to mh) < po_numBoxes A" "sint (mail_to mh) < po_numBoxes B"
    and bufs: "length buffer = MaxPacketSize" "unat (mail_length mh) \<le> length out"
  shows "\<exists>sa' buf sb1 sb2.
    PostOffice_Send n pa ph mh data sa = Ok sa' \<and> post_ready pa inA sa' \<and>
    sock_out sa' = sock_out sa @ [(pkt_to ph, mail_packet (new_bytes MaxWireSize sa) A ph mh data)] \<and>
    deliver k pb buffer sb = Ok (buf, sb1) \<and>
    PostOffice_Receive k pb (sint (mail_to mh)) out sb1 =
      Ok (ph\<lparr>pkt_from := po_netAddr A, pkt_length := mail_length mh + 12\<rparr>, mh,
          take (unat (mail_length mh)) data @ drop (unat (mail_length mh)) out, sb2) \<and>
    post_ready pb inB sb2"
  using send_ready[OF a m(1-4), of n] deliver_ready[OF b(1,2) bufs(1) m(1-3,5) b(3,4) bufs(2), of k]
  unfolding filled_def by blast

text \<open>Two machines with one mailbox each; a datagram is on the socket of the second.\<close>

definition one_box :: "u32 \<Rightarrow> PostOffice" where
  "one_box addr = \<lparr>po_network = 11, po_netAddr = addr, po_boxes = [16], po_numBoxes = 1, po_messageAvailable = 12,
     po_messageSent = 13, po_sendLock = 14\<rparr>"

definition plain_sem :: "int \<Rightarrow> Semaphore" where
  "plain_sem k = \<lparr>sem_name = None, sem_value = k, sem_queue = Some []\<rparr>"

definition plain_net :: "u32 \<Rightarrow> Network" where
  "plain_net addr = \<lparr>net_ident = addr, net_chanceToWork = 1, net_sock = 3, net_writeHandler = NetWriteDone, net_readHandler = NetReadAvail,
     net_handlerArg = 10, net_sendBusy = False, net_inHdr = \<lparr>pkt_to = 0, pkt_from = 0, pkt_length = 0\<rparr>, net_inbox = replicate 52 0\<rparr>"

definition worker :: Thread where
  "worker = \<lparr>th_start = None, th_uid = 0, th_tid = 0, th_priority = 255, th_stack = None, th_status = RUNNING, th_name = ''main'',
     th_userRegisters = [], th_space = None\<rparr>"

definition one_box_machine :: "u32 \<Rightarrow> (int \<times> byte list) list \<Rightarrow> net_kern" where
  "one_box_machine addr input = kern.extend (zeroed\<lparr>intr := Interrupt_new\<lparr>level := IntOn, pending := [netpoll_at 11 100]\<rparr>, currentThread := 1, next_addr := 20,
       threads := (\<lambda>_. None)(1 := Some worker),
       sems := (\<lambda>_. None)(12 := Some (plain_sem 0), 13 := Some (plain_sem 0), 15 := Some (plain_sem 1), 18 := Some (plain_sem 1)),
       locks := (\<lambda>_. None)(14 := Some \<lparr>lk_name = [], lk_sema = 15, lk_holdingThread = NoThread\<rparr>,
         17 := Some \<lparr>lk_name = [], lk_sema = 18, lk_holdingThread = NoThread\<rparr>),
       conds := (\<lambda>_. None)(19 := Some \<lparr>cond_name = [], cond_waitingQueue = []\<rparr>)\<rparr>)
     \<lparr>slists = (\<lambda>_. None)(16 := Some \<lparr>sl_list = [], sl_lock = 17, sl_listEmpty = 19\<rparr>),
      nets = (\<lambda>_. None)(11 := Some (plain_net addr)), offices = (\<lambda>_. None)(10 := Some (one_box addr)), mails = (\<lambda>_. None),
      sock_in = (\<lambda>_. [])(3 := input), sock_out = [], sock_bound = (\<lambda>_. True), sock_next = 4, fresh_bytes = []\<rparr>"

definition one_box_kept :: "u32 \<Rightarrow> kept" where
  "one_box_kept addr = (let s = one_box_machine addr [] in \<lparr>k_office = one_box addr, k_slists = slists s, k_locks = locks s, k_conds = conds s,
     k_mails = mails s, k_sems = sems s, k_next = 20, k_out = [], k_bound = sock_bound s, k_random = (random_src s, random_pos s), k_fresh = []\<rparr>)"

lemma one_box_ready:
  assumes "\<forall>(t, d)\<in>set input. packet_ok addr d"
  shows "post_ready 10 input (one_box_machine addr input)"
proof (rule post_readyI)
  have "net_view 10 (one_box_kept addr) 1 (plain_net addr) (plain_sem 0) (plain_sem 0) worker {#netpoll_at 11 100#} [] input (one_box_machine addr input)"
    by (simp add: net_view_def keeps_def one_box_kept_def one_box_machine_def kern.defs zeroed_def one_box_def plain_net_def loadable_def)
  moreover have "net_ok 10 (one_box_kept addr) 1 NoNetWait False False 100 0 input (plain_net addr) (plain_sem 0) (plain_sem 0) worker {#netpoll_at 11 100#} [] input"
    using assms by (auto simp: net_ok_def one_box_kept_def one_box_def plain_net_def plain_sem_def worker_def MaxPacketSize_def MaxWireSize_def Let_def split: list.splits)
  ultimately show "net_inv 10 (one_box_kept addr) 1 NoNetWait False False 100 0 input (one_box_machine addr input)" by (rule net_invI)
  show "awake (one_box_machine addr input)"
    by (auto simp: awake_def calm_def pending_ok_def due_def one_box_machine_def kern.defs zeroed_def Interrupt_new_def Statistics_new_def netpoll_at_def PendingInterrupt_new_def)
qed (auto simp: one_box_kept_def one_box_def free_lock_def open_box_def one_box_machine_def kern.defs zeroed_def plain_sem_def)

theorem mail_roundtrip_witness:
  "\<exists>sa' buf sb1 sb2.
    PostOffice_Send 0 10 \<lparr>pkt_to = 1, pkt_from = 9, pkt_length = 9\<rparr> \<lparr>mail_to = 0, mail_from = 0, mail_length = 2\<rparr> [0x68, 0x69] (one_box_machine 0 []) = Ok sa' \<and>
    length (sock_out sa') = 1 \<and>
    deliver 0 10 (replicate 52 0) (one_box_machine 1 ((7000, snd (hd (sock_out sa'))) # [])) = Ok (buf, sb1) \<and>
    PostOffice_Receive 0 10 0 [0, 0, 0] sb1 =
      Ok (\<lparr>pkt_to = 1, pkt_from = 0, pkt_length = 14\<rparr>, \<lparr>mail_to = 0, mail_from = 0, mail_length = 2\<rparr>, [0x68, 0x69, 0], sb2)"
proof -
  let ?ph = "\<lparr>pkt_to = 1, pkt_from = 9, pkt_length = 9\<rparr>" and ?mh = "\<lparr>mail_to = 0, mail_from = 0, mail_length = 2\<rparr>"
  let ?sa = "one_box_machine 0 []" and ?data = "[0x68, 0x69] :: byte list"
  let ?p = "mail_packet (new_bytes MaxWireSize ?sa) (one_box 0) ?ph ?mh ?data"
  let ?sb = "one_box_machine 1 [(7000, ?p)]"
  have p: "packet_ok 1 ?p"
    by (simp add: packet_ok_def mail_packet_def datagram_def filled_def one_box_def MaxPacketSize_def MaxWireSize_def)
  have a: "post_ready 10 [] ?sa" by (rule one_box_ready) simp
  have b: "post_ready 10 [(7000, ?p)] ?sb" by (rule one_box_ready) (use p in simp)
  have s: "offices (one_box_machine x i) 10 = Some (one_box x)" "slists (one_box_machine x i) 16 = Some \<lparr>sl_list = [], sl_lock = 17, sl_listEmpty = 19\<rparr>"
    "sock_bound (one_box_machine x i) y" "sock_out (one_box_machine x i) = []" for x i y
    by (simp_all add: one_box_machine_def kern.defs)
  have box: "slists ?sb (po_boxes (one_box 1) ! nat (sint (mail_to ?mh))) = Some \<lparr>sl_list = [], sl_lock = 17, sl_listEmpty = 19\<rparr>"
    by (simp add: one_box_def s)
  show ?thesis using mail_roundtrip[OF a s(1) s(3) b s(1) box, of "replicate 52 0" "[0, 0, 0]" 0 0]
    by (auto simp: s one_box_def MaxPacketSize_def MaxWireSize_def MaxMailSize_def)
qed

end
