(* ===== verification/Spec2Isabelle.thy ===== *)
theory Spec2Isabelle
  imports Prelude Bit_Map Linked_List Interrupts Kernel_State Machine Threads Synch Disk_Device Synch_Disk File_Header Open_File System_Init Mips Virtual_Memory Mips_Facts Kernel_Files Kernel_File_System Interleaving Address_Space System_Calls User_Programs Context_Switch Device_Waits Console Synch_List Network Post_Office Network_Waits Post_Delivery
begin

text \<open>
  A verification development of the NachosLab kernel: an instructional operating system in C++ that runs
  on a simulated MIPS machine with a disk, a terminal and a network. The model follows the configuration with user programs
  and the file system, with the devices of the other configurations on top; names of definitions are those of the C++ code, with the class in front where two
  classes share a name.

  \<^bold>\<open>Layers, from the hardware up.\<close>
  \<^item> \<open>Prelude\<close>: results (\<open>Ok\<close> or a fault such as a failed assertion, a null or dangling pointer, an unset
    variable, a loop that does not return, a context switch), checked arrays, C integer arithmetic, counting loops,
    bytes. Every run-time failure of the C++ code is a value of \<open>fault\<close>.
  \<^item> \<open>Bit_Map\<close> (src/userprog/bitmap.cc) and \<open>Linked_List\<close> (src/threads/list.cc): the words of the bit map and
    the cells of the list, with the locales \<open>slot_allocator\<close> and \<open>keyed_list\<close> that say what their clients may use. The
    kernel's queues are the lists of pairs that the cells implement.
  \<^item> \<open>Interrupts\<close> (src/machine/interrupt.cc, stats.cc, timer.cc): pending interrupts, ticks, \<open>Idle\<close>. What the code calls back (handlers,
    delayed loads, \<open>Yield\<close>) is a record of functions, and the locale \<open>interrupt_handlers\<close> is their contract; it is
    interpreted on the kernel's handlers in \<open>Synch_Disk\<close>.
  \<^item> \<open>Kernel_State\<close>: the globals of src/threads/system.cc and the classes of the headers as one record \<open>kern\<close>, with heaps for
    the objects that are shared through pointers.
  \<^item> \<open>Machine\<close> (machine.cc, translate.cc), \<open>Mips\<close> (mipssim.cc): registers, memory, the reverse page table and the TLB, decoding
    and every instruction. \<open>Virtual_Memory\<close> and \<open>Mips_Facts\<close> prove: translation stays inside the frame of the page and
    keeps pages apart, a load returns what was stored, page replacement changes no page of any space,
    \<open>Mult\<close> is the 64-bit product, each word decodes, instructions keep the machine well formed; and where
    instructions differ from the MIPS (\<open>OR\<close>, \<open>SRL\<close>).
  \<^item> \<open>Threads\<close> (thread.cc, scheduler.cc) and \<open>Synch\<close> (synch.cc): operations in direct style for the running thread. \<open>Run\<close> is split at
    the context switch; a call returns when its own thread runs next and is the fault \<open>ContextSwitch\<close> when another thread gets the
    processor. \<open>Interleaving\<close> complements this with a step relation over threads that acquire and release a
    lock, each step one section with interrupts off, in every order of the scheduler: mutual exclusion, and no
    wake-up is lost. \<open>Context_Switch\<close> is \<open>SWITCH\<close> of switch.s for the i386, instruction by instruction: a thread that is switched out and
    back goes on with its registers.
  \<^item> \<open>Disk_Device\<close> (disk.cc), \<open>Synch_Disk\<close> (synchdisk.cc), \<open>System_Init\<close> (system.cc): the disk with its latency, and the synchronous disk on
    semaphore, lock and interrupts. The locale \<open>block_store\<close> is an array of sectors; \<open>Synch_Disk\<close> interprets it on \<open>ReadSector\<close> and
    \<open>WriteSector\<close> for states \<open>lone\<close>, where the running thread is the only one that can run, nothing is
    pending and no timer runs, as \<open>Initialize\<close> leaves the kernel.
  \<^item> \<open>File_Header\<close> (filehdr.cc), \<open>Open_File\<close> (openfile.cc), \<open>Directory\<close> (directory.cc), \<open>File_System\<close> (filesys.cc): written over the two sector operations. Their lemmas
    are proved once inside \<open>block_store\<close>; the directory is a bounded map through the locale \<open>name_table\<close>. \<open>File_System_Spec\<close> and
    \<open>File_System_Format\<close> hold the invariant \<open>fs_ok\<close> (chains of headers, disjoint sectors, a free map that agrees with them) and the
    abstract file system, names to bytes. \<open>Kernel_Files\<close> and \<open>Kernel_File_System\<close> state the results for the kernel's own disk:
    formatting, \<open>Create\<close>, \<open>Open\<close>, \<open>Read\<close>, \<open>Write\<close> and the pipe refine the abstract file system, and what fails.
  \<^item> \<open>Address_Space\<close> (addrspace.cc, noff.h), \<open>System_Calls\<close> (exception.cc, progtest.cc): loading executables, page faults, every system call. \<open>User_Programs\<close> proves demand
    paging transparent, \<open>Write\<close> a refinement of the file update, and two failures.
  \<^item> \<open>Device_Waits\<close>: threads that wait for a device which polls with interrupts of its own. The locale \<open>device_invariant\<close> says that an
    invariant survives every interrupt of the device; from it follows, once, that it survives \<open>Idle\<close>, \<open>Sleep\<close>, \<open>P\<close>, \<open>V\<close> and the locks (\<open>thread_waits\<close>).
    \<open>Console\<close> (console.cc, and the console test of progtest.cc) interprets it and proves that the test echoes what is typed and stops at \<open>q\<close>.
  \<^item> \<open>Synch_List\<close> (synchlist.cc), \<open>Network\<close> (network.cc and the sockets of sysdep.cc), \<open>Post_Office\<close> (src/network/post.cc, nettest.cc): the network device, mailboxes and the postal worker.
    \<open>Network_Waits\<close> interprets the same locale on the network; \<open>Post_Delivery\<close> proves that a message arrives as it was sent.

  \<^bold>\<open>Choices.\<close> Machine words are \<open>32 word\<close>, C \<open>int\<close> counters that the code never lets wrap are \<open>int\<close>; where overflow matters it is
  written out. Memory from \<open>new\<close> and other unset memory is a parameter. Time stamps, the random generator and the disk file
  of the host are parameters or streams of the state. Pointers that reach user registers or the disk are numbers with a table of
  the objects. \<open>printf\<close> and \<open>DEBUG\<close> have no effect. Loops that may not end are \<open>partial_function (option)\<close>, \<open>None\<close> becoming the
  fault \<open>Diverges\<close>; where the code returns, that it returns is part of the theorem. The argument \<open>n\<close> of
  \<open>kernel_cb\<close> bounds how deep time slices nest inside one another; it is arbitrary in all theorems and irrelevant while no
  timer runs.

  \<^bold>\<open>Not modelled.\<close> \<open>Cleanup\<close>, which frees and exits, and the start of the post office in \<open>Initialize\<close>; the routines of
  sysdep.cc that wrap UNIX calls, apart from the polled files and the sockets; the kernel's self tests (threadtest.cc, fstest.cc), which only call and print;
  the command-line dispatch of main.cc; switch.s for other processors; the host tools of src/bin and the user programs
  of src/test, which are not part of the kernel. Memory safety of objects that are freed while a pointer remains is
  modelled for threads, files and synchronisation objects (a dangling pointer is a fault), not for character arrays.
\<close>

end
